(* ===== verification/Prelude.thy ===== *)
theory Prelude
  imports Main "HOL-Library.List_Lexorder" "HOL-Library.Char_ord" "HOL-Library.Product_Lexorder"
begin

text \<open>
  Shared vocabulary of the development: the standard-library types and operations that the
  Rust sources use and every component needs.

  \<^item> \<open>ordering\<close> is Rust's \<open>std::cmp::Ordering\<close>; \<open>comparator\<close> is the contract a comparison
    function has to meet before \<open>sort_by\<close> and \<open>binary_search_by\<close> make sense of it.
  \<^item> Saturating and checked arithmetic of \<open>u64\<close> and \<open>i64\<close>, on \<open>nat\<close> and \<open>int\<close> with the
    bound written out.
  \<^item> A Rust \<open>str\<close> is its UTF-8 bytes; HOL's \<open>string\<close> is a list of 8-bit characters, so
    lengths count bytes and the list order of the library is the byte order of \<open>str\<close>.
    The splitting functions of \<open>str\<close> are modelled here.
\<close>

named_theorems u64_simps \<open>unfolding of saturating and checked machine arithmetic\<close>
named_theorems split_simps \<open>facts on str::split, rsplit\_once and their inverses\<close>

section \<open>Orderings and comparators\<close>

datatype ordering = Less | Equal | Greater

definition cmp :: "'a::linorder \<Rightarrow> 'a \<Rightarrow> ordering" where
  "cmp a b = (if a < b then Less else if a = b then Equal else Greater)"

fun reverse_ordering :: "ordering \<Rightarrow> ordering" where
  "reverse_ordering Less = Greater"
| "reverse_ordering Equal = Equal"
| "reverse_ordering Greater = Less"

fun then_with :: "ordering \<Rightarrow> ordering \<Rightarrow> ordering" where
  "then_with Equal next_ordering = next_ordering"
| "then_with Less _ = Less"
| "then_with Greater _ = Greater"

lemma cmp_simps [simp]:
  "(cmp a b = Less) = (a < b)"
  "(cmp a b = Equal) = (a = b)"
  "(cmp a b = Greater) = (b < a)"
  "cmp a a = Equal"
  by (auto simp: cmp_def)

lemma cmp_swap: "cmp b a = reverse_ordering (cmp a b)"
  by (auto simp: cmp_def)

lemma reverse_reverse [simp]: "reverse_ordering (reverse_ordering x) = x"
  by (cases x) auto

lemma reverse_eq_simps [simp]:
  "(reverse_ordering x = Less) = (x = Greater)"
  "(reverse_ordering x = Equal) = (x = Equal)"
  "(reverse_ordering x = Greater) = (x = Less)"
  by (cases x; auto)+

lemma then_with_eq_simps [simp]:
  "(then_with x y = Equal) = (x = Equal \<and> y = Equal)"
  "(then_with x y = Less) = (x = Less \<or> x = Equal \<and> y = Less)"
  "(then_with x y = Greater) = (x = Greater \<or> x = Equal \<and> y = Greater)"
  by (cases x; auto)+

lemma reverse_then_with:
  "reverse_ordering (then_with x y) = then_with (reverse_ordering x) (reverse_ordering y)"
  by (cases x) auto

text \<open>
  What a comparison function must satisfy on a set of values: swapping the arguments reverses
  the verdict and \<open>not Greater\<close> is transitive. Both together make it a total preorder.
\<close>

locale comparator =
  fixes compare :: "'a \<Rightarrow> 'a \<Rightarrow> ordering" and dom_ok :: "'a \<Rightarrow> bool"
  assumes swap: "dom_ok a \<Longrightarrow> dom_ok b \<Longrightarrow> compare b a = reverse_ordering (compare a b)"
    and trans_le: "dom_ok a \<Longrightarrow> dom_ok b \<Longrightarrow> dom_ok c \<Longrightarrow>
      compare a b \<noteq> Greater \<Longrightarrow> compare b c \<noteq> Greater \<Longrightarrow> compare a c \<noteq> Greater"
begin

lemma refl: "dom_ok a \<Longrightarrow> compare a a = Equal"
  using swap [of a a] by (cases "compare a a") auto

lemma equal_sym: "dom_ok a \<Longrightarrow> dom_ok b \<Longrightarrow> compare a b = Equal \<Longrightarrow> compare b a = Equal"
  using swap [of a b] by simp

lemma less_greater: "dom_ok a \<Longrightarrow> dom_ok b \<Longrightarrow> (compare a b = Less) = (compare b a = Greater)"
  using swap [of a b] by simp

lemma total: "dom_ok a \<Longrightarrow> dom_ok b \<Longrightarrow> compare a b \<noteq> Greater \<or> compare b a \<noteq> Greater"
  using swap [of a b] by (cases "compare a b") auto

lemma equal_trans:
  assumes "dom_ok a" "dom_ok b" "dom_ok c" "compare a b = Equal" "compare b c = Equal"
  shows "compare a c = Equal"
proof -
  have "compare a c \<noteq> Greater" using assms by (intro trans_le [of a b c]) auto
  moreover have "compare c a \<noteq> Greater"
    using assms equal_sym by (intro trans_le [of c b a]) auto
  ultimately show ?thesis using swap [of a c] assms by (cases "compare a c") auto
qed

lemma less_trans:
  assumes "dom_ok a" "dom_ok b" "dom_ok c" "compare a b = Less" "compare b c \<noteq> Greater"
  shows "compare a c = Less"
proof (rule ccontr)
  assume "compare a c \<noteq> Less"
  then have "compare c a \<noteq> Greater" using swap [of a c] assms by (cases "compare a c") auto
  then have "compare b a \<noteq> Greater" using assms by (intro trans_le [of b c a]) auto
  then show False using swap [of a b] assms by auto
qed

lemma le_less_trans:
  assumes "dom_ok a" "dom_ok b" "dom_ok c" "compare a b \<noteq> Greater" "compare b c = Less"
  shows "compare a c = Less"
proof (rule ccontr)
  assume "compare a c \<noteq> Less"
  then have "compare c a \<noteq> Greater" using swap [of a c] assms by (cases "compare a c") auto
  then have "compare c b \<noteq> Greater" using assms by (intro trans_le [of c a b]) auto
  then show False using swap [of b c] assms by auto
qed

text \<open>Comparing by a key keeps the contract.\<close>

lemma on_key: "comparator (\<lambda>a b. compare (f a) (f b)) (\<lambda>a. dom_ok (f a))"
proof (rule comparator.intro)
  fix a b assume "dom_ok (f a)" "dom_ok (f b)"
  then show "compare (f b) (f a) = reverse_ordering (compare (f a) (f b))" by (rule swap)
next
  fix a b c assume "dom_ok (f a)" "dom_ok (f b)" "dom_ok (f c)"
    "compare (f a) (f b) \<noteq> Greater" "compare (f b) (f c) \<noteq> Greater"
  then show "compare (f a) (f c) \<noteq> Greater" by (rule trans_le)
qed

lemma equal_left:
  assumes "dom_ok a" "dom_ok b" "dom_ok c" "compare a b = Equal"
  shows "compare a c = compare b c"
proof (cases "compare b c")
  case Less
  then show ?thesis using assms le_less_trans [of a b c] by simp
next
  case Equal
  then show ?thesis using assms equal_trans [of a b c] by simp
next
  case Greater
  then have "compare c b = Less" using assms less_greater by blast
  then have "compare c a = Less"
    using assms equal_sym [of a b] less_trans [of c b a] by simp
  with Greater show ?thesis using assms less_greater [of c a] by simp
qed

end

interpretation cmp: comparator "cmp :: 'a::linorder \<Rightarrow> 'a \<Rightarrow> ordering" "\<lambda>_. True"
  by unfold_locales (auto simp: cmp_def split: if_splits)

text \<open>
  Lexicographic comparison of two sequences as the Rust code writes it: walk both in step,
  stop at the first difference, then let the shorter one come first.
\<close>

fun lex_compare :: "('a \<Rightarrow> 'a \<Rightarrow> ordering) \<Rightarrow> 'a list \<Rightarrow> 'a list \<Rightarrow> ordering" where
  "lex_compare f [] [] = Equal"
| "lex_compare f [] (_ # _) = Less"
| "lex_compare f (_ # _) [] = Greater"
| "lex_compare f (x # xs) (y # ys) = then_with (f x y) (lex_compare f xs ys)"

context comparator
begin

lemma lex_swap:
  "\<forall>x\<in>set xs. dom_ok x \<Longrightarrow> \<forall>y\<in>set ys. dom_ok y \<Longrightarrow>
    lex_compare compare ys xs = reverse_ordering (lex_compare compare xs ys)"
proof (induction xs arbitrary: ys)
  case Nil
  then show ?case by (cases ys) auto
next
  case (Cons x xs)
  then show ?case by (cases ys) (auto simp: reverse_then_with swap [of x])
qed

lemma lex_trans:
  "\<forall>x\<in>set xs. dom_ok x \<Longrightarrow> \<forall>y\<in>set ys. dom_ok y \<Longrightarrow> \<forall>z\<in>set zs. dom_ok z \<Longrightarrow>
    lex_compare compare xs ys \<noteq> Greater \<Longrightarrow> lex_compare compare ys zs \<noteq> Greater \<Longrightarrow>
    lex_compare compare xs zs \<noteq> Greater"
proof (induction xs arbitrary: ys zs)
  case Nil
  then show ?case by (cases zs) auto
next
  case (Cons x xs)
  from Cons.prems obtain y ys' where ys: "ys = y # ys'" by (cases ys) auto
  with Cons.prems obtain z zs' where zs: "zs = z # zs'" by (cases zs) auto
  have ok: "dom_ok x" "dom_ok y" "dom_ok z" using Cons.prems ys zs by auto
  consider "compare x y = Less" | "compare x y = Equal" "compare y z = Less"
    | "compare x y = Equal" "compare y z = Equal"
    using Cons.prems ys zs by (cases "compare x y"; cases "compare y z") auto
  then show ?case
  proof cases
    case 1
    then have "compare x z = Less"
      using ok Cons.prems(5) ys zs by (intro less_trans [of x y z]) auto
    then show ?thesis using zs by simp
  next
    case 2
    then have "compare x z = Less" using ok equal_left [of x y z] by simp
    then show ?thesis using zs by simp
  next
    case 3
    then have "compare x z = Equal" using ok equal_trans by blast
    moreover have "lex_compare compare xs zs' \<noteq> Greater"
      using Cons.prems ys zs 3 by (intro Cons.IH [of ys' zs']) auto
    ultimately show ?thesis using zs by simp
  qed
qed

end

lemma comparator_subset:
  assumes "comparator f P" "\<And>x. Q x \<Longrightarrow> P x"
  shows "comparator f Q"
  by (rule comparator.intro)
    (use comparator.swap [OF assms(1)] comparator.trans_le [OF assms(1)] assms(2) in blast)+

text \<open>Comparing by one criterion and, where it ties, by another.\<close>

lemma comparator_then:
  assumes f: "comparator f P"
    and swap: "\<And>a b. P a \<Longrightarrow> P b \<Longrightarrow> f a b = Equal \<Longrightarrow> g b a = reverse_ordering (g a b)"
    and trans: "\<And>a b c. P a \<Longrightarrow> P b \<Longrightarrow> P c \<Longrightarrow> f a b = Equal \<Longrightarrow> f b c = Equal \<Longrightarrow>
      g a b \<noteq> Greater \<Longrightarrow> g b c \<noteq> Greater \<Longrightarrow> g a c \<noteq> Greater"
  shows "comparator (\<lambda>a b. then_with (f a b) (g a b)) P"
proof (rule comparator.intro)
  fix a b assume ab: "P a" "P b"
  have "f b a = reverse_ordering (f a b)" using comparator.swap [OF f ab] .
  then show "then_with (f b a) (g b a) = reverse_ordering (then_with (f a b) (g a b))"
    using swap [OF ab] by (cases "f a b") simp_all
next
  fix a b c assume abc: "P a" "P b" "P c"
    and le: "then_with (f a b) (g a b) \<noteq> Greater" "then_with (f b c) (g b c) \<noteq> Greater"
  consider "f a b = Less" | "f a b = Equal" "f b c = Less" | "f a b = Equal" "f b c = Equal"
    using le by (cases "f a b"; cases "f b c") auto
  then show "then_with (f a c) (g a c) \<noteq> Greater"
  proof cases
    case 1
    then have "f a c = Less" using comparator.less_trans [OF f abc] le(2) by auto
    then show ?thesis by simp
  next
    case 2
    then have "f a c = Less" using comparator.equal_left [OF f abc] by simp
    then show ?thesis by simp
  next
    case 3
    then have "f a c = Equal" using comparator.equal_trans [OF f abc] by simp
    then show ?thesis using trans [OF abc 3] le 3 by simp
  qed
qed

lemma lex_compare_cong [fundef_cong]:
  assumes "xs = xs'" "ys = ys'" "\<And>x y. x \<in> set xs' \<Longrightarrow> y \<in> set ys' \<Longrightarrow> f x y = g x y"
  shows "lex_compare f xs ys = lex_compare g xs' ys'"
  unfolding assms(1,2) using assms(3) by (induction xs' ys' rule: lex_compare.induct [of _ f]) auto

lemma lex_compare_Equal:
  "(lex_compare f xs ys = Equal) = list_all2 (\<lambda>x y. f x y = Equal) xs ys"
  by (induction f xs ys rule: lex_compare.induct) auto

section \<open>Machine arithmetic\<close>

definition u64_max :: nat where
  "u64_max = 2 ^ 64 - 1"

definition i64_max :: int where
  "i64_max = 2 ^ 63 - 1"

definition i64_min :: int where
  "i64_min = - (2 ^ 63)"

definition sat_add :: "nat \<Rightarrow> nat \<Rightarrow> nat" where
  "sat_add a b = min (a + b) u64_max"

text \<open>Subtraction on \<open>nat\<close> stops at zero, which is what \<open>saturating_sub\<close> does.\<close>

definition sat_sub :: "nat \<Rightarrow> nat \<Rightarrow> nat" where
  "sat_sub a b = a - b"

definition sat_mul :: "nat \<Rightarrow> nat \<Rightarrow> nat" where
  "sat_mul a b = min (a * b) u64_max"

definition checked_add_u64 :: "nat \<Rightarrow> nat \<Rightarrow> nat option" where
  "checked_add_u64 a b = (if a + b \<le> u64_max then Some (a + b) else None)"

definition clamp_i64 :: "int \<Rightarrow> int" where
  "clamp_i64 n = max i64_min (min i64_max n)"

definition in_i64 :: "int \<Rightarrow> bool" where
  "in_i64 n = (i64_min \<le> n \<and> n \<le> i64_max)"

definition sat_add_i64 :: "int \<Rightarrow> int \<Rightarrow> int" where
  "sat_add_i64 a b = clamp_i64 (a + b)"

definition checked_add_i64 :: "int \<Rightarrow> int \<Rightarrow> int option" where
  "checked_add_i64 a b = (if in_i64 (a + b) then Some (a + b) else None)"

declare sat_add_def [u64_simps] sat_sub_def [u64_simps] sat_mul_def [u64_simps]
  checked_add_u64_def [u64_simps]

lemma clamp_in_i64 [simp]: "in_i64 (clamp_i64 n)"
  by (simp add: in_i64_def clamp_i64_def i64_min_def i64_max_def)

lemma clamp_id [simp]: "in_i64 n \<Longrightarrow> clamp_i64 n = n"
  by (simp add: in_i64_def clamp_i64_def)

lemma sat_add_exact: "a + b \<le> u64_max \<Longrightarrow> sat_add a b = a + b"
  by (simp add: sat_add_def)

lemma sat_add_le: "sat_add a b \<le> a + b"
  by (simp add: sat_add_def)

lemma sat_add_bound [simp]: "sat_add a b \<le> u64_max"
  by (simp add: sat_add_def)

section \<open>Results\<close>

text \<open>\<open>Result<T, E>\<close> is the sum type with the error on the left; \<open>?\<close> is the bind.\<close>

fun result_bind :: "'e + 'a \<Rightarrow> ('a \<Rightarrow> 'e + 'b) \<Rightarrow> 'e + 'b" where
  "result_bind (Inl e) _ = Inl e"
| "result_bind (Inr x) f = f x"

lemma result_bind_Inr_iff [simp]:
  "(result_bind r f = Inr y) = (\<exists>x. r = Inr x \<and> f x = Inr y)"
  by (cases r) auto

lemma result_bind_Inl_iff [simp]:
  "(result_bind r f = Inl e) = (r = Inl e \<or> (\<exists>x. r = Inr x \<and> f x = Inl e))"
  by (cases r) auto

section \<open>Strings\<close>

text \<open>\<open>str::split(c)\<close>: always at least one piece; the empty string gives one empty piece.\<close>

fun split_char :: "char \<Rightarrow> string \<Rightarrow> string list" where
  "split_char c [] = [[]]"
| "split_char c (x # s) =
     (if x = c then [] # split_char c s
      else (case split_char c s of [] \<Rightarrow> [[x]] | piece # pieces \<Rightarrow> (x # piece) # pieces))"

fun join_char :: "char \<Rightarrow> string list \<Rightarrow> string" where
  "join_char c [] = []"
| "join_char c [piece] = piece"
| "join_char c (piece # pieces) = piece @ c # join_char c pieces"

text \<open>\<open>str::rsplit_once(c)\<close>: the text before and after the last occurrence.\<close>

fun rsplit_once :: "char \<Rightarrow> string \<Rightarrow> (string \<times> string) option" where
  "rsplit_once c [] = None"
| "rsplit_once c (x # s) =
     (case rsplit_once c s of
        Some (before, after) \<Rightarrow> Some (x # before, after)
      | None \<Rightarrow> if x = c then Some ([], s) else None)"

fun strip_prefix :: "string \<Rightarrow> string \<Rightarrow> string option" where
  "strip_prefix [] s = Some s"
| "strip_prefix (_ # _) [] = None"
| "strip_prefix (p # ps) (x # s) = (if p = x then strip_prefix ps s else None)"

definition strip_suffix :: "string \<Rightarrow> string \<Rightarrow> string option" where
  "strip_suffix suffix s = map_option rev (strip_prefix (rev suffix) (rev s))"

lemma split_char_not_Nil [simp]: "split_char c s \<noteq> []"
  by (cases s) (auto split: list.splits)

lemma join_split [split_simps]: "join_char c (split_char c s) = s"
proof (induction s)
  case (Cons x s)
  obtain p ps where sp: "split_char c s = p # ps" by (cases "split_char c s") auto
  with Cons show ?case by (cases ps) auto
qed simp

lemma split_pieces_free: "\<forall>p\<in>set (split_char c s). c \<notin> set p"
proof (induction s)
  case (Cons x s)
  obtain q qs where "split_char c s = q # qs" by (cases "split_char c s") auto
  with Cons show ?case by simp
qed simp

lemma split_no_sep: "c \<notin> set p \<Longrightarrow> split_char c p = [p]"
  by (induction p) auto

lemma split_append_sep: "c \<notin> set p \<Longrightarrow> split_char c (p @ c # s) = p # split_char c s"
  by (induction p) auto

lemma split_join [split_simps]:
  "ps \<noteq> [] \<Longrightarrow> \<forall>p\<in>set ps. c \<notin> set p \<Longrightarrow> split_char c (join_char c ps) = ps"
  by (induction c ps rule: join_char.induct) (auto simp: split_no_sep split_append_sep)

lemma split_char_inj: "split_char c s = split_char c t \<Longrightarrow> s = t"
  by (metis join_split)

lemma rsplit_once_None: "(rsplit_once c s = None) = (c \<notin> set s)"
  by (induction s) (auto split: option.splits)

lemma rsplit_once_Some:
  "rsplit_once c s = Some (before, after) \<Longrightarrow> s = before @ c # after \<and> c \<notin> set after"
proof (induction s arbitrary: before)
  case (Cons x s)
  show ?case
  proof (cases "rsplit_once c s")
    case None
    then show ?thesis using Cons.prems rsplit_once_None [of c s] by (simp split: if_splits)
  next
    case (Some p)
    then obtain b where b: "rsplit_once c s = Some (b, after)" "before = x # b"
      using Cons.prems by (cases p) auto
    then show ?thesis using Cons.IH [of b] by simp
  qed
qed simp

lemma strip_prefix_Some: "(strip_prefix p s = Some t) = (s = p @ t)"
  by (induction p s rule: strip_prefix.induct) auto

lemma strip_suffix_Some: "(strip_suffix p s = Some t) = (s = t @ p)"
proof -
  have "(strip_suffix p s = Some t) = (\<exists>r. strip_prefix (rev p) (rev s) = Some r \<and> t = rev r)"
    by (cases "strip_prefix (rev p) (rev s)") (auto simp: strip_suffix_def)
  also have "\<dots> = (rev s = rev p @ rev t)"
    by (metis rev_rev_ident strip_prefix_Some)
  also have "\<dots> = (rev s = rev (t @ p))" by simp
  also have "\<dots> = (s = t @ p)" by (rule rev_is_rev_conv)
  finally show ?thesis .
qed

end
