(* ===== verification/Ord_Map.thy ===== *)
theory Ord_Map
  imports Prelude
begin

text \<open>
  Ordered maps and sets: the model of \<open>BTreeMap\<close>, \<open>BTreeSet\<close> and of the persistent
  \<open>im::OrdMap\<close> and \<open>im::OrdSet\<close>. A map is the association list of its entries in strictly
  increasing key order, which is also what iteration yields, so two maps with the same
  entries are the same list. The interface \<open>assignable_map\<close> states what clients rely on and
  proves, once, how a sequence of recorded transitions is replayed and undone.
\<close>

named_theorems om_simps \<open>lookups in and invariants of ordered maps and sets\<close>

section \<open>Operations\<close>

type_synonym ('k, 'v) ord_map = "('k \<times> 'v) list"
type_synonym 'k ord_set = "'k list"

definition om_ok :: "('k::linorder, 'v) ord_map \<Rightarrow> bool" where
  "om_ok m = sorted_wrt (<) (map fst m)"

fun om_insert :: "'k::linorder \<Rightarrow> 'v \<Rightarrow> ('k, 'v) ord_map \<Rightarrow> ('k, 'v) ord_map" where
  "om_insert key val [] = [(key, val)]"
| "om_insert key val (entry # rest) =
     (if fst entry < key then entry # om_insert key val rest
      else if fst entry = key then (key, val) # rest
      else (key, val) # entry # rest)"

definition om_remove :: "'k \<Rightarrow> ('k, 'v) ord_map \<Rightarrow> ('k, 'v) ord_map" where
  "om_remove key m = filter (\<lambda>entry. fst entry \<noteq> key) m"

text \<open>Store or delete, as the code does after matching on an \<open>Option\<close>.\<close>

fun om_assign :: "'k::linorder \<Rightarrow> 'v option \<Rightarrow> ('k, 'v) ord_map \<Rightarrow> ('k, 'v) ord_map" where
  "om_assign key (Some val) m = om_insert key val m"
| "om_assign key None m = om_remove key m"

definition os_ok :: "'k::linorder ord_set \<Rightarrow> bool" where
  "os_ok s = sorted_wrt (<) s"

fun os_insert :: "'k::linorder \<Rightarrow> 'k ord_set \<Rightarrow> 'k ord_set" where
  "os_insert key [] = [key]"
| "os_insert key (member # rest) =
     (if member < key then member # os_insert key rest
      else if member = key then member # rest
      else key # member # rest)"

definition os_remove :: "'k \<Rightarrow> 'k ord_set \<Rightarrow> 'k ord_set" where
  "os_remove key s = filter (\<lambda>member. member \<noteq> key) s"

definition os_of_list :: "'k::linorder list \<Rightarrow> 'k ord_set" where
  "os_of_list xs = fold os_insert xs []"

section \<open>Lookups and invariants\<close>

lemma om_ok_Nil [simp]: "om_ok []"
  by (simp add: om_ok_def)

lemma om_ok_Cons: "om_ok (e # m) = ((\<forall>f\<in>set m. fst e < fst f) \<and> om_ok m)"
  by (auto simp: om_ok_def)

lemma om_ok_distinct: "om_ok m \<Longrightarrow> distinct (map fst m)"
  by (induction m) (auto simp: om_ok_Cons)

lemma keys_om_insert: "fst ` set (om_insert k v m) = insert k (fst ` set m)"
  by (induction m) auto

lemma om_ok_insert [simp]: "om_ok m \<Longrightarrow> om_ok (om_insert k v m)"
proof (induction m)
  case (Cons e m)
  have "\<forall>f\<in>set (om_insert k v m). fst e < fst f" if "fst e < k"
  proof
    fix f assume "f \<in> set (om_insert k v m)"
    then have "fst f \<in> insert k (fst ` set m)" using keys_om_insert [of k v m] by auto
    with that Cons.prems show "fst e < fst f" by (auto simp: om_ok_Cons)
  qed
  with Cons show ?case by (auto simp: om_ok_Cons)
qed (simp add: om_ok_Cons)

lemma om_ok_remove [simp]: "om_ok m \<Longrightarrow> om_ok (om_remove k m)"
  by (induction m) (auto simp: om_ok_Cons om_remove_def)

lemma get_om_insert [om_simps]: "map_of (om_insert k v m) = (map_of m)(k \<mapsto> v)"
  by (induction m) auto

lemma get_om_remove [om_simps]: "map_of (om_remove k m) = (map_of m)(k := None)"
  by (induction m) (auto simp: om_remove_def fun_eq_iff)

lemma om_ok_assign [simp]: "om_ok m \<Longrightarrow> om_ok (om_assign k x m)"
  by (cases x) auto

lemma get_om_assign [om_simps]: "map_of (om_assign k x m) = (map_of m)(k := x)"
  by (cases x) (auto simp: om_simps)

lemma om_get_Some_iff: "om_ok m \<Longrightarrow> (map_of m k = Some v) = ((k, v) \<in> set m)"
  using om_ok_distinct by (metis map_of_eq_Some_iff)

text \<open>Extensionality: an ordered map is determined by its lookups.\<close>

lemma om_ext:
  assumes "om_ok m" "om_ok n" "map_of m = map_of n"
  shows "m = n"
proof -
  have "set m = set n"
    using assms om_get_Some_iff by (metis prod.exhaust subsetI subset_antisym)
  moreover have "sorted (map fst m)" "distinct (map fst m)" "sorted (map fst n)" "distinct (map fst n)"
    using assms(1,2) by (simp_all add: om_ok_def strict_sorted_iff)
  ultimately show ?thesis
    by (intro map_sorted_distinct_set_unique [of fst m n]) (auto simp: distinct_map)
qed

lemma om_insert_same: "om_ok m \<Longrightarrow> map_of m k = Some v \<Longrightarrow> om_insert k v m = m"
  by (intro om_ext) (auto simp: om_simps)

lemma om_remove_absent: "om_ok m \<Longrightarrow> map_of m k = None \<Longrightarrow> om_remove k m = m"
  by (intro om_ext) (auto simp: om_simps)

lemma set_om_assign:
  "om_ok m \<Longrightarrow> set (om_assign k x m) =
    {e \<in> set m. fst e \<noteq> k} \<union> (case x of None \<Rightarrow> {} | Some v \<Rightarrow> {(k, v)})"
proof -
  assume ok: "om_ok m"
  have "(a, b) \<in> set (om_assign k x m) \<longleftrightarrow> ((map_of m)(k := x)) a = Some b" for a b
    using om_get_Some_iff [of "om_assign k x m" a b] ok by (simp add: get_om_assign)
  moreover have "(map_of m a = Some b) = ((a, b) \<in> set m)" for a b
    using om_get_Some_iff [OF ok] .
  ultimately show ?thesis by (auto split: option.splits if_splits)
qed

lemma os_ok_Nil [simp]: "os_ok []"
  by (simp add: os_ok_def)

lemma os_ok_Cons: "os_ok (x # s) = ((\<forall>y\<in>set s. x < y) \<and> os_ok s)"
  by (auto simp: os_ok_def)

lemma set_os_insert [simp]: "set (os_insert k s) = insert k (set s)"
  by (induction s) auto

lemma set_os_remove [simp]: "set (os_remove k s) = set s - {k}"
  by (auto simp: os_remove_def)

lemma os_ok_insert [simp]: "os_ok s \<Longrightarrow> os_ok (os_insert k s)"
  by (induction s) (auto simp: os_ok_Cons)

lemma os_ok_remove [simp]: "os_ok s \<Longrightarrow> os_ok (os_remove k s)"
  by (induction s) (auto simp: os_ok_Cons os_remove_def)

lemma os_ext: "os_ok s \<Longrightarrow> os_ok t \<Longrightarrow> set s = set t \<Longrightarrow> s = t"
  by (simp add: os_ok_def strict_sorted_iff sorted_distinct_set_unique)

lemma os_ok_fold_insert: "os_ok s \<Longrightarrow> os_ok (fold os_insert xs s)"
  by (induction xs arbitrary: s) auto

lemma set_fold_insert: "set (fold os_insert xs s) = set xs \<union> set s"
  by (induction xs arbitrary: s) auto

lemma os_of_list_ok [simp]: "os_ok (os_of_list xs)"
  by (simp add: os_of_list_def os_ok_fold_insert)

lemma set_os_of_list [simp]: "set (os_of_list xs) = set xs"
  by (simp add: os_of_list_def set_fold_insert)

lemma os_ok_filter: "os_ok s \<Longrightarrow> os_ok (filter P s)"
  by (simp add: os_ok_def sorted_wrt_filter)

lemma os_ok_keys: "om_ok m \<Longrightarrow> os_ok (map fst m)"
  by (simp add: os_ok_def om_ok_def)

section \<open>Totals\<close>

definition om_total :: "('v \<Rightarrow> nat) \<Rightarrow> ('k, 'v) ord_map \<Rightarrow> nat" where
  "om_total f m = sum_list (map (\<lambda>entry. f (snd entry)) m)"

lemma om_total_Nil [simp]: "om_total f [] = 0"
  by (simp add: om_total_def)

lemma om_total_insert:
  "om_ok m \<Longrightarrow> om_total f (om_insert k v m) + (case map_of m k of None \<Rightarrow> 0 | Some w \<Rightarrow> f w) = om_total f m + f v"
proof (induction m)
  case (Cons e m)
  have "map_of m k = None" if "k < fst e"
    using Cons.prems that by (fastforce simp: om_ok_Cons map_of_eq_None_iff)
  with Cons show ?case by (auto simp: om_total_def om_ok_Cons)
qed (simp add: om_total_def)

lemma om_total_remove:
  "om_ok m \<Longrightarrow> om_total f (om_remove k m) + (case map_of m k of None \<Rightarrow> 0 | Some w \<Rightarrow> f w) = om_total f m"
proof (induction m)
  case (Cons e m)
  have "om_remove k m = m" if "k = fst e"
    using Cons.prems that by (auto simp: om_ok_Cons om_remove_def filter_id_conv)
  with Cons show ?case by (auto simp: om_total_def om_ok_Cons om_remove_def)
qed (simp add: om_total_def om_remove_def)

section \<open>The map interface: replaying and undoing transitions\<close>

text \<open>
  A transition records the key, the value before and the value after. \<open>chain\<close> says that the
  recorded values before are those the map really held when the transitions were applied in
  order.
\<close>

type_synonym ('k, 'v) transition = "'k \<times> 'v option \<times> 'v option"

definition redo :: "('k \<Rightarrow> 'v option \<Rightarrow> 'm \<Rightarrow> 'm) \<Rightarrow> ('k, 'v) transition list \<Rightarrow> 'm \<Rightarrow> 'm" where
  "redo assign ts m = fold (\<lambda>(k, before, after). assign k after) ts m"

definition undo :: "('k \<Rightarrow> 'v option \<Rightarrow> 'm \<Rightarrow> 'm) \<Rightarrow> ('k, 'v) transition list \<Rightarrow> 'm \<Rightarrow> 'm" where
  "undo assign ts m = fold (\<lambda>(k, before, after). assign k before) (rev ts) m"

fun chain :: "('m \<Rightarrow> 'k \<Rightarrow> 'v option) \<Rightarrow> ('k \<Rightarrow> 'v option \<Rightarrow> 'm \<Rightarrow> 'm) \<Rightarrow> 'm \<Rightarrow>
    ('k, 'v) transition list \<Rightarrow> bool" where
  "chain get assign m [] = True"
| "chain get assign m ((k, before, after) # ts) =
     (get m k = before \<and> chain get assign (assign k after m) ts)"

lemma redo_simps [simp]:
  "redo assign [] m = m"
  "redo assign ((k, b, a) # ts) m = redo assign ts (assign k a m)"
  "redo assign (ts @ us) m = redo assign us (redo assign ts m)"
  by (simp_all add: redo_def)

lemma undo_simps [simp]:
  "undo assign [] m = m"
  "undo assign ((k, b, a) # ts) m = assign k b (undo assign ts m)"
  "undo assign (ts @ us) m = undo assign ts (undo assign us m)"
  by (simp_all add: undo_def)

lemma chain_append [simp]:
  "chain get assign m (ts @ us) =
    (chain get assign m ts \<and> chain get assign (redo assign ts m) us)"
  by (induction get assign m ts rule: chain.induct) auto

locale assignable_map =
  fixes get :: "'m \<Rightarrow> 'k \<Rightarrow> 'v option"
    and assign :: "'k \<Rightarrow> 'v option \<Rightarrow> 'm \<Rightarrow> 'm"
    and ok :: "'m \<Rightarrow> bool"
  assumes get_assign: "ok m \<Longrightarrow> get (assign k x m) = (get m)(k := x)"
    and ok_assign: "ok m \<Longrightarrow> ok (assign k x m)"
    and extensional: "ok m \<Longrightarrow> ok n \<Longrightarrow> get m = get n \<Longrightarrow> m = n"
begin

lemma assign_back: "ok m \<Longrightarrow> assign k (get m k) (assign k x m) = m"
  by (rule extensional) (auto simp: get_assign ok_assign)

lemma assign_again: "ok m \<Longrightarrow> assign k y (assign k x m) = assign k y m"
  by (rule extensional) (auto simp: get_assign ok_assign)

lemma ok_redo: "ok m \<Longrightarrow> ok (redo assign ts m)"
  by (induction ts arbitrary: m) (auto simp: ok_assign)

lemma undo_redo: "ok m \<Longrightarrow> chain get assign m ts \<Longrightarrow> undo assign ts (redo assign ts m) = m"
proof (induction ts arbitrary: m)
  case (Cons t ts)
  obtain k b a where t: "t = (k, b, a)" by (cases t)
  with Cons have "undo assign ts (redo assign ts (assign k a m)) = assign k a m"
    by (intro Cons.IH) (auto simp: ok_assign)
  with Cons t show ?case using assign_back [of m k a] by auto
qed simp

lemma ok_undo: "ok m \<Longrightarrow> ok (undo assign ts m)"
  by (induction ts) (auto simp: ok_assign)

text \<open>Undoing forgets whatever the map held at a key that some transition touched.\<close>

lemma undo_assign_untouched:
  "ok m \<Longrightarrow> k \<notin> fst ` set ts \<Longrightarrow> undo assign ts (assign k x m) = assign k x (undo assign ts m)"
proof (induction ts)
  case (Cons t ts)
  then show ?case
    by (cases t) (auto simp: get_assign ok_assign ok_undo intro!: extensional)
qed simp

lemma undo_assign_touched:
  "ok m \<Longrightarrow> k \<in> fst ` set ts \<Longrightarrow> undo assign ts (assign k x m) = undo assign ts m"
proof (induction ts)
  case (Cons t ts)
  obtain j b a where t: "t = (j, b, a)" by (cases t)
  show ?case
  proof (cases "k \<in> fst ` set ts")
    case False
    then have "k = j" using Cons.prems t by auto
    then show ?thesis using False Cons.prems t undo_assign_untouched [of m k ts x]
      by (simp add: assign_again ok_undo)
  qed (use Cons t in simp)
qed simp

lemma get_redo_untouched:
  "ok m \<Longrightarrow> k \<notin> fst ` set ts \<Longrightarrow> get (redo assign ts m) k = get m k"
proof (induction ts arbitrary: m)
  case (Cons t ts)
  then show ?case by (cases t) (auto simp: get_assign ok_assign)
qed simp

end

interpretation om: assignable_map "map_of :: ('k::linorder \<times> 'v) list \<Rightarrow> 'k \<Rightarrow> 'v option"
    om_assign om_ok
  by unfold_locales (auto simp: om_simps intro: om_ext)

text \<open>The partial functions of HOL are the abstract specification of every map.\<close>

interpretation fm: assignable_map "\<lambda>m :: 'k \<Rightarrow> 'v option. m" "\<lambda>k x m. m(k := x)" "\<lambda>_. True"
  by unfold_locales auto

lemma get_om_redo: "map_of (redo om_assign ts m) = redo (\<lambda>k x f. f(k := x)) ts (map_of m)"
  by (induction ts arbitrary: m) (auto simp: om_simps)

section \<open>Indexes over a map's keys\<close>

text \<open>
  A secondary index groups the keys of a map by a scope function. \<open>index_ok\<close> is the exact
  contract: the entry of a scope is the ordered set of the keys in it, and there is no entry
  for an empty scope. \<open>index_update\<close> is the incremental maintenance of one key.
\<close>

definition scope_keys :: "('k::linorder \<Rightarrow> 'c) \<Rightarrow> ('k, 'v) ord_map \<Rightarrow> 'c \<Rightarrow> 'k list" where
  "scope_keys scope m c = filter (\<lambda>k. scope k = c) (map fst m)"

definition index_ok :: "('k::linorder \<Rightarrow> 'c::linorder) \<Rightarrow> ('k, 'v) ord_map \<Rightarrow>
    ('c, 'k ord_set) ord_map \<Rightarrow> bool" where
  "index_ok scope m index =
     (om_ok index \<and> (\<forall>c. map_of index c =
        (if scope_keys scope m c = [] then None else Some (scope_keys scope m c))))"

definition index_update :: "('k::linorder \<Rightarrow> 'c::linorder) \<Rightarrow> ('c, 'k ord_set) ord_map \<Rightarrow>
    'k \<Rightarrow> bool \<Rightarrow> ('c, 'k ord_set) ord_map" where
  "index_update scope index key present =
     (let c = scope key;
          keys = (case map_of index c of None \<Rightarrow> [] | Some keys \<Rightarrow> keys);
          keys = (if present then os_insert key keys else os_remove key keys)
      in if keys = [] then om_remove c index else om_insert c keys index)"

lemma os_ok_scope_keys [simp]: "om_ok m \<Longrightarrow> os_ok (scope_keys scope m c)"
  by (simp add: scope_keys_def os_ok_filter os_ok_keys)

lemma set_scope_keys: "set (scope_keys scope m c) = {k \<in> dom (map_of m). scope k = c}"
  by (auto simp: scope_keys_def dom_map_of_conv_image_fst)

lemma scope_keys_assign:
  assumes "om_ok m"
  shows "scope_keys scope (om_assign k x m) c =
    (if scope k = c
     then if x = None then os_remove k (scope_keys scope m c) else os_insert k (scope_keys scope m c)
     else scope_keys scope m c)"
  by (rule os_ext) (use assms in \<open>auto simp: set_scope_keys om_simps split: if_splits\<close>)

lemma index_update_ok:
  assumes "om_ok m" "index_ok scope m index"
  shows "index_ok scope (om_assign k x m) (index_update scope index k (x \<noteq> None))"
proof -
  let ?K = "scope_keys scope (om_assign k x m)"
  have "(case map_of index (scope k) of None \<Rightarrow> [] | Some keys \<Rightarrow> keys) = scope_keys scope m (scope k)"
    using assms(2) by (simp add: index_ok_def)
  then have upd: "index_update scope index k (x \<noteq> None) =
      (if ?K (scope k) = [] then om_remove (scope k) index
       else om_insert (scope k) (?K (scope k)) index)"
    using assms(1) by (simp add: index_update_def scope_keys_assign Let_def del: om_assign.simps)
  have other: "?K c = scope_keys scope m c" if "c \<noteq> scope k" for c
    using that assms(1) by (simp add: scope_keys_assign del: om_assign.simps)
  show ?thesis unfolding upd
    using assms(2) by (auto simp: index_ok_def om_simps other simp del: om_assign.simps)
qed

lemma index_ok_unique: "index_ok scope m i \<Longrightarrow> index_ok scope m j \<Longrightarrow> i = j"
  by (rule om_ext) (auto simp: index_ok_def fun_eq_iff)

lemma index_ok_empty [simp]: "index_ok scope [] []"
  by (simp add: index_ok_def scope_keys_def)

end
