(* ===== verification/Text.thy ===== *)
theory Text
  imports Prelude
begin

text \<open>
  More of Rust's strings: decimal numbers as \<open>to_string\<close> prints and \<open>parse::<u64>\<close> reads them,
  \<open>split_once\<close>, and the characters of a \<open>str\<close> as UTF-8.
\<close>

section \<open>Numbers\<close>

definition is_ascii_digit :: "char \<Rightarrow> bool" where
  "is_ascii_digit c = (48 \<le> (of_char c :: nat) \<and> (of_char c :: nat) \<le> 57)"

fun digits_value :: "int \<Rightarrow> string \<Rightarrow> int" where
  "digits_value acc [] = acc"
| "digits_value acc (c # s) = digits_value (acc * 10 + (int (of_char c) - 48)) s"

fun decimal :: "nat \<Rightarrow> string" where
  "decimal n = (if n < 10 then [char_of (48 + n)] else decimal (n div 10) @ [char_of (48 + n mod 10)])"

declare decimal.simps [simp del]

text \<open>\<open>str::parse::<u64>\<close>: an optional plus sign, at least one digit, an error on overflow.\<close>

definition parse_u64 :: "string \<Rightarrow> nat option" where
  "parse_u64 s =
     (let digits = (case strip_prefix ''+'' s of Some rest \<Rightarrow> rest | None \<Rightarrow> s);
          v = digits_value 0 digits
      in if digits \<noteq> [] \<and> list_all is_ascii_digit digits \<and> v \<le> int u64_max then Some (nat v) else None)"

text \<open>\<open>str::replace\<close> of one character.\<close>

definition replace_char :: "char \<Rightarrow> string \<Rightarrow> string \<Rightarrow> string" where
  "replace_char c replacement s = concat (map (\<lambda>x. if x = c then replacement else [x]) s)"

lemma digits_value_append:
  "digits_value acc (xs @ ys) = digits_value (digits_value acc xs) ys"
  by (induction acc xs rule: digits_value.induct) auto

lemma decimal_digits: "list_all is_ascii_digit (decimal n)" "decimal n \<noteq> []" "digits_value 0 (decimal n) = int n"
proof -
  have "list_all is_ascii_digit (decimal n) \<and> decimal n \<noteq> [] \<and> digits_value 0 (decimal n) = int n"
  proof (induction n rule: decimal.induct)
    case (1 n)
    have digit: "is_ascii_digit (char_of (48 + m))" "int (of_char (char_of (48 + m))) - 48 = int m" if "m < 10" for m :: nat
      using that by (simp_all add: is_ascii_digit_def)
    show ?case
    proof (cases "n < 10")
      case True
      then show ?thesis using digit [of n] by (subst (1 2 3) decimal.simps) simp
    next
      case False
      have "int (n div 10) * 10 + int (n mod 10) = int n" by presburger
      then show ?thesis using False 1 digit [of "n mod 10"] by (subst (1 2 3) decimal.simps) (simp add: digits_value_append)
    qed
  qed
  then show "list_all is_ascii_digit (decimal n)" "decimal n \<noteq> []" "digits_value 0 (decimal n) = int n" by auto
qed

lemma parse_decimal: "n \<le> u64_max \<Longrightarrow> parse_u64 (decimal n) = Some n"
proof -
  assume n: "n \<le> u64_max"
  have "strip_prefix ''+'' (decimal n) = None"
    using decimal_digits(1) [of n] by (cases "decimal n") (auto simp: is_ascii_digit_def)
  then show ?thesis using n decimal_digits [of n] by (simp add: parse_u64_def)
qed

section \<open>Splitting\<close>

fun split_once :: "char \<Rightarrow> string \<Rightarrow> (string \<times> string) option" where
  "split_once c [] = None"
| "split_once c (x # s) = (if x = c then Some ([], s) else map_option (\<lambda>(a, b). (x # a, b)) (split_once c s))"

section \<open>Characters\<close>

text \<open>\<open>str::chars\<close> on the bytes of a valid string, and \<open>String::from_iter\<close> back.\<close>

fun utf8_chars :: "nat list \<Rightarrow> nat list" where
  "utf8_chars [] = []"
| "utf8_chars (a # s) =
     (if a < 128 then a # utf8_chars s
      else if a < 224 then (case s of b # s \<Rightarrow> ((a - 192) * 64 + (b - 128)) # utf8_chars s | _ \<Rightarrow> [])
      else if a < 240 then
        (case s of b # c # s \<Rightarrow> ((a - 224) * 4096 + (b - 128) * 64 + (c - 128)) # utf8_chars s | _ \<Rightarrow> [])
      else (case s of
              b # c # d # s \<Rightarrow>
                ((a - 240) * 262144 + (b - 128) * 4096 + (c - 128) * 64 + (d - 128)) # utf8_chars s
            | _ \<Rightarrow> []))"

definition utf8_char :: "nat \<Rightarrow> nat list" where
  "utf8_char c =
     (if c < 128 then [c]
      else if c < 2048 then [192 + c div 64, 128 + c mod 64]
      else if c < 65536 then [224 + c div 4096, 128 + c div 64 mod 64, 128 + c mod 64]
      else [240 + c div 262144, 128 + c div 4096 mod 64, 128 + c div 64 mod 64, 128 + c mod 64])"

definition str_chars :: "string \<Rightarrow> nat list" where
  "str_chars s = utf8_chars (map of_char s)"

definition str_of_chars :: "nat list \<Rightarrow> string" where
  "str_of_chars cs = map char_of (concat (map utf8_char cs))"

lemma sextets:
  fixes c :: nat
  shows "c div 4096 * 4096 + (c div 64 mod 64 * 64 + c mod 64) = c"
    "c div 262144 * 262144 + (c div 4096 mod 64 * 4096 + (c div 64 mod 64 * 64 + c mod 64)) = c"
proof -
  have step: "n div 64 * 64 + n mod 64 = n" for n :: nat by simp
  have "c div 4096 = c div 64 div 64" "c div 262144 = c div 4096 div 64" by (simp_all add: div_mult2_eq [symmetric])
  then show "c div 4096 * 4096 + (c div 64 mod 64 * 64 + c mod 64) = c"
    "c div 262144 * 262144 + (c div 4096 mod 64 * 4096 + (c div 64 mod 64 * 64 + c mod 64)) = c"
    using step [of c] step [of "c div 64"] step [of "c div 4096"] by linarith+
qed

lemma utf8_chars_char:
  assumes "c < 1114112"
  shows "utf8_chars (utf8_char c @ s) = c # utf8_chars s"
proof -
  consider "c < 128" | "128 \<le> c" "c < 2048" | "2048 \<le> c" "c < 65536" | "65536 \<le> c" by linarith
  then show ?thesis
  proof cases
    case 2
    then have "c div 64 < 32" by simp
    then show ?thesis using 2 by (simp add: utf8_char_def)
  next
    case 3
    then have "c div 4096 < 16" by simp
    moreover have "c div 4096 * 4096 + (c div 64 mod 64 * 64 + c mod 64) = c" by (rule sextets(1))
    ultimately show ?thesis using 3 by (simp add: utf8_char_def)
  next
    case 4
    have "c div 262144 * 262144 + (c div 4096 mod 64 * 4096 + (c div 64 mod 64 * 64 + c mod 64)) = c" by (rule sextets(2))
    then show ?thesis using 4 by (simp add: utf8_char_def)
  qed (simp add: utf8_char_def)
qed

lemma utf8_char_byte: "c < 1114112 \<Longrightarrow> b \<in> set (utf8_char c) \<Longrightarrow> b < 256"
  by (auto simp: utf8_char_def split: if_splits)

lemma str_chars_of_chars: "\<forall>c\<in>set cs. c < 1114112 \<Longrightarrow> str_chars (str_of_chars cs) = cs"
proof -
  assume cs: "\<forall>c\<in>set cs. c < 1114112"
  then have "map (of_char \<circ> char_of) (concat (map utf8_char cs)) = concat (map utf8_char cs)"
    using utf8_char_byte by (intro map_idI) (auto simp: of_char_of)
  moreover have "utf8_chars (concat (map utf8_char cs)) = cs"
    using cs by (induction cs) (simp_all add: utf8_chars_char)
  ultimately show ?thesis by (simp add: str_chars_def str_of_chars_def)
qed

end
