(* ===== verification/Names.thy ===== *)
theory Names
  imports Ord_Map Text
begin

text \<open>
  Resource names of \<open>core-store\<close>: timestamps, database names, document keys, the reserved
  and numeric resource identifiers, and the order of resource paths.
  A numeric Datastore identifier is written \<open>__id<digits>__\<close>; such identifiers sort by their
  integer and before every other identifier.
\<close>

section \<open>Timestamps\<close>

datatype Timestamp = Timestamp (seconds: int) (nanos: nat)

datatype TimestampError = TimestampError nat

definition Timestamp_new :: "int \<Rightarrow> nat \<Rightarrow> TimestampError + Timestamp" where
  "Timestamp_new secs ns =
     (if 1000000000 \<le> ns then Inl (TimestampError ns) else Inr (Timestamp secs ns))"

definition saturating_next_microsecond :: "Timestamp \<Rightarrow> Timestamp" where
  "saturating_next_microsecond t =
     (let microseconds = nanos t div 1000 in
      if microseconds < 999999 then Timestamp (seconds t) ((microseconds + 1) * 1000)
      else Timestamp (sat_add_i64 (seconds t) 1) 0)"

definition timestamp_tuple :: "Timestamp \<Rightarrow> int \<times> nat" where
  "timestamp_tuple t = (seconds t, nanos t)"

lemma timestamp_tuple_inj [simp]: "(timestamp_tuple s = timestamp_tuple t) = (s = t)"
  by (cases s; cases t) (simp add: timestamp_tuple_def)

instantiation Timestamp :: linorder
begin

definition less_eq_Timestamp :: "Timestamp \<Rightarrow> Timestamp \<Rightarrow> bool" where
  "less_eq_Timestamp s t = (timestamp_tuple s \<le> timestamp_tuple t)"

definition less_Timestamp :: "Timestamp \<Rightarrow> Timestamp \<Rightarrow> bool" where
  "less_Timestamp s t = (timestamp_tuple s < timestamp_tuple t)"

instance
proof
  fix s t u :: Timestamp
  show "(s < t) = (s \<le> t \<and> \<not> t \<le> s)"
    by (simp add: less_eq_Timestamp_def less_Timestamp_def less_le_not_le)
  show "s \<le> s" by (simp add: less_eq_Timestamp_def)
  show "s \<le> t \<Longrightarrow> t \<le> u \<Longrightarrow> s \<le> u" by (simp add: less_eq_Timestamp_def)
  show "s \<le> t \<Longrightarrow> t \<le> s \<Longrightarrow> s = t"
    by (simp add: less_eq_Timestamp_def)
  show "s \<le> t \<or> t \<le> s" by (simp add: less_eq_Timestamp_def linear)
qed

end

section \<open>Databases and document keys\<close>

datatype DatabaseName = DatabaseName (project_id: string) (database_id: string)

datatype DocumentKey = DocumentKey (key_database: DatabaseName) (key_path: string)

datatype NameError =
    InvalidIdentifier string string
  | InvalidDocumentPath string
  | ReservedResourceId string

definition database_tuple :: "DatabaseName \<Rightarrow> string \<times> string" where
  "database_tuple d = (project_id d, database_id d)"

lemma database_tuple_inj [simp]: "(database_tuple s = database_tuple t) = (s = t)"
  by (cases s; cases t) (simp add: database_tuple_def)

instantiation DatabaseName :: linorder
begin

definition less_eq_DatabaseName :: "DatabaseName \<Rightarrow> DatabaseName \<Rightarrow> bool" where
  "less_eq_DatabaseName s t = (database_tuple s \<le> database_tuple t)"

definition less_DatabaseName :: "DatabaseName \<Rightarrow> DatabaseName \<Rightarrow> bool" where
  "less_DatabaseName s t = (database_tuple s < database_tuple t)"

instance
proof
  fix s t u :: DatabaseName
  show "(s < t) = (s \<le> t \<and> \<not> t \<le> s)"
    by (simp add: less_eq_DatabaseName_def less_DatabaseName_def less_le_not_le)
  show "s \<le> s" by (simp add: less_eq_DatabaseName_def)
  show "s \<le> t \<Longrightarrow> t \<le> u \<Longrightarrow> s \<le> u" by (simp add: less_eq_DatabaseName_def)
  show "s \<le> t \<Longrightarrow> t \<le> s \<Longrightarrow> s = t"
    by (simp add: less_eq_DatabaseName_def)
  show "s \<le> t \<or> t \<le> s" by (simp add: less_eq_DatabaseName_def linear)
qed

end

definition key_tuple :: "DocumentKey \<Rightarrow> DatabaseName \<times> string" where
  "key_tuple k = (key_database k, key_path k)"

lemma key_tuple_inj [simp]: "(key_tuple s = key_tuple t) = (s = t)"
  by (cases s; cases t) (simp add: key_tuple_def)

instantiation DocumentKey :: linorder
begin

definition less_eq_DocumentKey :: "DocumentKey \<Rightarrow> DocumentKey \<Rightarrow> bool" where
  "less_eq_DocumentKey s t = (key_tuple s \<le> key_tuple t)"

definition less_DocumentKey :: "DocumentKey \<Rightarrow> DocumentKey \<Rightarrow> bool" where
  "less_DocumentKey s t = (key_tuple s < key_tuple t)"

instance
proof
  fix s t u :: DocumentKey
  show "(s < t) = (s \<le> t \<and> \<not> t \<le> s)"
    by (simp add: less_eq_DocumentKey_def less_DocumentKey_def less_le_not_le)
  show "s \<le> s" by (simp add: less_eq_DocumentKey_def)
  show "s \<le> t \<Longrightarrow> t \<le> u \<Longrightarrow> s \<le> u" by (simp add: less_eq_DocumentKey_def)
  show "s \<le> t \<Longrightarrow> t \<le> s \<Longrightarrow> s = t"
    by (simp add: less_eq_DocumentKey_def)
  show "s \<le> t \<or> t \<le> s" by (simp add: less_eq_DocumentKey_def linear)
qed

end

definition validate_identifier :: "string \<Rightarrow> string \<Rightarrow> NameError + unit" where
  "validate_identifier kind v =
     (if v = [] \<or> CHR ''/'' \<in> set v then Inl (InvalidIdentifier kind v) else Inr ())"

definition DatabaseName_new :: "string \<Rightarrow> string \<Rightarrow> NameError + DatabaseName" where
  "DatabaseName_new project database =
     result_bind (validate_identifier ''project'' project) (\<lambda>_.
     result_bind (validate_identifier ''database'' database) (\<lambda>_.
     Inr (DatabaseName project database)))"

section \<open>Resource identifiers\<close>

text \<open>\<open>str::parse::<i64>\<close> on an optional minus sign followed by digits: an error out of range.\<close>

definition parse_i64 :: "string \<Rightarrow> int option" where
  "parse_i64 s =
     (let v = (case strip_prefix ''-'' s of
                 Some magnitude \<Rightarrow> - digits_value 0 magnitude
               | None \<Rightarrow> digits_value 0 s)
      in if in_i64 v then Some v else None)"

definition numeric_resource_id :: "string \<Rightarrow> int option" where
  "numeric_resource_id resource_id =
     (case strip_prefix ''__id'' resource_id of
        None \<Rightarrow> None
      | Some tail \<Rightarrow>
          (case strip_suffix ''__'' tail of
             None \<Rightarrow> None
           | Some digits \<Rightarrow>
               (let magnitude = (case strip_prefix ''-'' digits of
                                   Some m \<Rightarrow> m | None \<Rightarrow> digits) in
                if magnitude = [] \<or> \<not> list_all is_ascii_digit magnitude then None
                else parse_i64 digits)))"

definition validate_resource_id :: "string \<Rightarrow> NameError + unit" where
  "validate_resource_id resource_id =
     (if 4 \<le> length resource_id \<and> strip_prefix ''__'' resource_id \<noteq> None
         \<and> strip_suffix ''__'' resource_id \<noteq> None \<and> numeric_resource_id resource_id = None
      then Inl (ReservedResourceId resource_id) else Inr ())"

fun validate_segments :: "string list \<Rightarrow> NameError + unit" where
  "validate_segments [] = Inr ()"
| "validate_segments (segment # segments) =
     result_bind (validate_resource_id segment) (\<lambda>_. validate_segments segments)"

definition DocumentKey_new :: "DatabaseName \<Rightarrow> string \<Rightarrow> NameError + DocumentKey" where
  "DocumentKey_new database path =
     (let segments = split_char (CHR ''/'') path in
      if length segments < 2 \<or> length segments mod 2 \<noteq> 0 \<or> (\<exists>s\<in>set segments. s = [])
      then Inl (InvalidDocumentPath path)
      else result_bind (validate_segments segments) (\<lambda>_. Inr (DocumentKey database path)))"

definition DatabaseName_display :: "DatabaseName \<Rightarrow> string" where
  "DatabaseName_display d = ''projects/'' @ project_id d @ ''/databases/'' @ database_id d"

definition DocumentKey_display :: "DocumentKey \<Rightarrow> string" where
  "DocumentKey_display k = DatabaseName_display (key_database k) @ ''/documents/'' @ key_path k"

section \<open>The order of resource paths\<close>

definition compare_resource_ids :: "string \<Rightarrow> string \<Rightarrow> ordering" where
  "compare_resource_ids left right =
     (case (numeric_resource_id left, numeric_resource_id right) of
        (Some l, Some r) \<Rightarrow> cmp l r
      | (Some _, None) \<Rightarrow> Less
      | (None, Some _) \<Rightarrow> Greater
      | (None, None) \<Rightarrow> cmp left right)"

definition compare_resource_paths :: "string \<Rightarrow> string \<Rightarrow> ordering" where
  "compare_resource_paths left right =
     lex_compare compare_resource_ids (split_char (CHR ''/'') left) (split_char (CHR ''/'') right)"

section \<open>Facts on timestamps\<close>

definition timestamp_ok :: "Timestamp \<Rightarrow> bool" where
  "timestamp_ok t = (in_i64 (seconds t) \<and> nanos t < 1000000000)"

lemma less_Timestamp_iff:
  "(s < t) = (seconds s < seconds t \<or> seconds s = seconds t \<and> nanos s < nanos t)"
  by (auto simp: less_Timestamp_def timestamp_tuple_def less_prod_def')

lemma next_microsecond_greater:
  assumes "nanos t < 1000000000" "seconds t < i64_max" "i64_min \<le> seconds t"
  shows "t < saturating_next_microsecond t"
proof (cases "nanos t div 1000 < 999999")
  case True
  have "nanos t < (nanos t div 1000 + 1) * 1000" by simp
  with True show ?thesis by (simp add: saturating_next_microsecond_def less_Timestamp_iff)
next
  case False
  with assms show ?thesis
    by (simp add: saturating_next_microsecond_def less_Timestamp_iff sat_add_i64_def clamp_i64_def)
qed

lemma next_microsecond_ok: "timestamp_ok t \<Longrightarrow> timestamp_ok (saturating_next_microsecond t)"
  by (auto simp: timestamp_ok_def saturating_next_microsecond_def Let_def sat_add_i64_def)

section \<open>Facts on resource paths\<close>

lemma compare_ids_key:
  "compare_resource_ids a b =
    cmp (case numeric_resource_id a of Some n \<Rightarrow> (0 :: int, n, []) | None \<Rightarrow> (1, 0, a))
        (case numeric_resource_id b of Some n \<Rightarrow> (0, n, []) | None \<Rightarrow> (1, 0, b))"
  by (auto simp: compare_resource_ids_def cmp_def split: option.splits)

interpretation ids: comparator compare_resource_ids "\<lambda>_. True"
  by unfold_locales (auto simp: compare_ids_key intro: cmp_swap dest: cmp.trans_le)

lemma compare_paths_refl [simp]: "compare_resource_paths a a = Equal"
proof -
  have "lex_compare compare_resource_ids xs xs = Equal" for xs
    by (induction xs) (auto simp: ids.refl)
  then show ?thesis by (simp add: compare_resource_paths_def)
qed

interpretation paths: comparator compare_resource_paths "\<lambda>_. True"
proof unfold_locales
  fix a b :: string
  show "compare_resource_paths b a = reverse_ordering (compare_resource_paths a b)"
    unfolding compare_resource_paths_def by (rule ids.lex_swap) simp_all
next
  fix a b c :: string
  assume "compare_resource_paths a b \<noteq> Greater" "compare_resource_paths b c \<noteq> Greater"
  then show "compare_resource_paths a c \<noteq> Greater"
    using ids.lex_trans [of "split_char (CHR ''/'') a" "split_char (CHR ''/'') b"
        "split_char (CHR ''/'') c"]
    by (simp add: compare_resource_paths_def)
qed

lemma split_append: "split_char c (a @ c # b) = split_char c a @ split_char c b"
proof (induction a)
  case (Cons x a)
  obtain p ps where "split_char c a = p # ps" by (cases "split_char c a") auto
  with Cons show ?case by simp
qed simp

lemma lex_compare_common_prefix:
  "lex_compare compare_resource_ids (ps @ xs) (ps @ ys) = lex_compare compare_resource_ids xs ys"
  by (induction ps) (auto simp: ids.refl)

text \<open>Within one database, full resource names compare as the relative paths do.\<close>

lemma compare_display_same_database:
  assumes "key_database k = key_database l"
  shows "compare_resource_paths (DocumentKey_display k) (DocumentKey_display l) =
    compare_resource_paths (key_path k) (key_path l)"
proof -
  have "DocumentKey_display m =
      (DatabaseName_display (key_database m) @ ''/documents'') @ CHR ''/'' # key_path m" for m
    by (simp add: DocumentKey_display_def)
  then show ?thesis
    using assms by (simp only: compare_resource_paths_def split_append lex_compare_common_prefix)
qed

section \<open>Canonical numeric identifiers\<close>

text \<open>
  The written form Datastore gives a numeric identifier: no leading zero and no negative zero.
  The parser accepts more than that, so the order identifies distinct identifiers; on
  canonical identifiers it is a linear order.
\<close>

definition canonical_digits :: "string \<Rightarrow> bool" where
  "canonical_digits digits =
     (digits = ''0'' \<or>
      (case strip_prefix ''-'' digits of Some m \<Rightarrow> m | None \<Rightarrow> digits) \<noteq> [] \<and>
      hd (case strip_prefix ''-'' digits of Some m \<Rightarrow> m | None \<Rightarrow> digits) \<noteq> CHR ''0'')"

definition canonical_resource_id :: "string \<Rightarrow> bool" where
  "canonical_resource_id resource_id =
     (numeric_resource_id resource_id = None \<or>
      (\<exists>digits. resource_id = ''__id'' @ digits @ ''__'' \<and> canonical_digits digits))"

lemma digit_range: "is_ascii_digit c \<Longrightarrow> 0 \<le> int (of_char c) - 48 \<and> int (of_char c) - 48 < 10"
  by (auto simp: is_ascii_digit_def)

lemma digits_value_bounds:
  assumes "list_all is_ascii_digit s" "0 \<le> acc"
  shows "acc * 10 ^ length s \<le> digits_value acc s \<and> digits_value acc s < (acc + 1) * 10 ^ length s"
  using assms
proof (induction s arbitrary: acc)
  case (Cons c s)
  let ?d = "int (of_char c) - 48"
  have d: "0 \<le> ?d" "?d \<le> 9" using Cons.prems digit_range [of c] by auto
  have IH: "(acc * 10 + ?d) * 10 ^ length s \<le> digits_value (acc * 10 + ?d) s"
    "digits_value (acc * 10 + ?d) s < (acc * 10 + ?d + 1) * 10 ^ length s"
    using Cons.IH [of "acc * 10 + ?d"] Cons.prems d by auto
  have lo: "acc * 10 * 10 ^ length s \<le> (acc * 10 + ?d) * 10 ^ length s"
    using d by (intro mult_right_mono) auto
  have hi: "(acc * 10 + ?d + 1) * 10 ^ length s \<le> (acc + 1) * 10 * 10 ^ length s"
    using d by (intro mult_right_mono) auto
  have eq: "digits_value acc (c # s) = digits_value (acc * 10 + ?d) s"
    "10 ^ length (c # s) = (10 :: int) * 10 ^ length s" by simp_all
  show ?case unfolding eq mult.assoc [symmetric]
    using order.trans [OF lo IH(1)] order.strict_trans2 [OF IH(2) hi] by blast
qed simp

lemma digits_value_inj_same_length:
  assumes "list_all is_ascii_digit s" "list_all is_ascii_digit t" "length s = length t"
    "digits_value acc s = digits_value acc' t" "0 \<le> acc" "0 \<le> acc'"
  shows "acc = acc' \<and> s = t"
  using assms
proof (induction s arbitrary: t acc acc')
  case (Cons c s)
  then obtain d t' where t: "t = d # t'" by (cases t) auto
  let ?a = "acc * 10 + (int (of_char c) - 48)" and ?b = "acc' * 10 + (int (of_char d) - 48)"
  have r: "0 \<le> int (of_char c) - 48" "int (of_char c) - 48 < 10"
    "0 \<le> int (of_char d) - 48" "int (of_char d) - 48 < 10"
    using Cons.prems t digit_range [of c] digit_range [of d] by auto
  have e: "?a = ?b" and st: "s = t'"
    using Cons.IH [of t' ?a ?b] Cons.prems t r by auto
  have "acc = acc'" using e r by presburger
  moreover from this have "int (of_char c) = int (of_char d)" using e by simp
  ultimately show ?case using t st by simp
qed simp

lemma digits_value_leading:
  assumes "list_all is_ascii_digit s" "s \<noteq> []" "hd s \<noteq> CHR ''0''"
  shows "10 ^ (length s - 1) \<le> digits_value 0 s" "digits_value 0 s < 10 ^ length s"
proof -
  obtain c r where s: "s = c # r" using assms(2) by (cases s) auto
  have d: "is_ascii_digit c" using assms s by simp
  have "(of_char c :: nat) \<noteq> 48"
  proof
    assume "(of_char c :: nat) = 48"
    then have "c = char_of (48 :: nat)" by (metis char_of_char)
    moreover have "char_of (48 :: nat) = CHR ''0''" by code_simp
    ultimately show False using assms(3) s by simp
  qed
  with d have "1 \<le> int (of_char c) - 48" by (auto simp: is_ascii_digit_def)
  then have "1 * 10 ^ length r \<le> (int (of_char c) - 48) * 10 ^ length r"
    by (intro mult_right_mono) auto
  also have "\<dots> \<le> digits_value (int (of_char c) - 48) r"
    using digits_value_bounds [of r "int (of_char c) - 48"] assms(1) s digit_range [OF d] by auto
  finally show "10 ^ (length s - 1) \<le> digits_value 0 s" using s by simp
  show "digits_value 0 s < 10 ^ length s"
    using digits_value_bounds [OF assms(1), of 0] by simp
qed

lemma digits_value_inj:
  assumes "list_all is_ascii_digit s" "s \<noteq> []" "hd s \<noteq> CHR ''0''"
    "list_all is_ascii_digit t" "t \<noteq> []" "hd t \<noteq> CHR ''0''"
    "digits_value 0 s = digits_value 0 t"
  shows "s = t"
proof -
  have aux: "length a \<le> length b"
    if "10 ^ (length a - 1) \<le> v" "v < (10 :: int) ^ length b" for a b :: string and v
  proof -
    have "(10 :: int) ^ (length a - 1) < 10 ^ length b" using that by (rule order.strict_trans1)
    then have "length a - 1 < length b" by (rule power_less_imp_less_exp [rotated]) simp
    then show ?thesis by arith
  qed
  have "length s = length t"
    using aux [of s _ t] aux [of t _ s] digits_value_leading [OF assms(1-3)]
      digits_value_leading [OF assms(4-6)] assms(7) by (metis le_antisym)
  then show ?thesis
    using digits_value_inj_same_length [OF assms(1,4)] assms(7) by auto
qed

abbreviation magnitude_of :: "string \<Rightarrow> string" where
  "magnitude_of digits \<equiv> (case strip_prefix ''-'' digits of Some m \<Rightarrow> m | None \<Rightarrow> digits)"

lemma numeric_resource_idE:
  assumes "numeric_resource_id s = Some n"
  obtains digits where "s = ''__id'' @ digits @ ''__''" "magnitude_of digits \<noteq> []"
    "list_all is_ascii_digit (magnitude_of digits)" "parse_i64 digits = Some n"
proof -
  from assms obtain tail digits where
    "strip_prefix ''__id'' s = Some tail" "strip_suffix ''__'' tail = Some digits"
    "\<not> (magnitude_of digits = [] \<or> \<not> list_all is_ascii_digit (magnitude_of digits))"
    "parse_i64 digits = Some n"
    by (auto simp: numeric_resource_id_def Let_def split: option.splits if_splits)
  then show thesis using that [of digits] by (auto simp: strip_prefix_Some strip_suffix_Some)
qed

lemma canonical_digits_inj:
  assumes "canonical_digits d" "list_all is_ascii_digit (magnitude_of d)" "magnitude_of d \<noteq> []"
    "canonical_digits e" "list_all is_ascii_digit (magnitude_of e)" "magnitude_of e \<noteq> []"
    "parse_i64 d = parse_i64 e" "parse_i64 e \<noteq> None"
  shows "d = e"
proof -
  define val where "val x = (case strip_prefix ''-'' x of
      Some m \<Rightarrow> - digits_value 0 m | None \<Rightarrow> digits_value 0 x)" for x
  have v: "val d = val e"
    using assms(7,8) by (auto simp: parse_i64_def val_def Let_def split: if_splits)
  have pos: "0 < digits_value 0 m" if "list_all is_ascii_digit m" "m \<noteq> []" "hd m \<noteq> CHR ''0''" for m
    using digits_value_leading(1) [OF that] by (rule order.strict_trans2 [rotated]) simp
  have shape: "(x = ''0'' \<and> val x = 0) \<or>
      (\<exists>m. x = ''-'' @ m \<and> list_all is_ascii_digit m \<and> m \<noteq> [] \<and> hd m \<noteq> CHR ''0'' \<and>
        val x = - digits_value 0 m) \<or>
      (list_all is_ascii_digit x \<and> x \<noteq> [] \<and> hd x \<noteq> CHR ''0'' \<and> val x = digits_value 0 x)"
    if "canonical_digits x" "list_all is_ascii_digit (magnitude_of x)" "magnitude_of x \<noteq> []" for x
    using that by (auto simp: canonical_digits_def val_def strip_prefix_Some split: option.splits)
  show ?thesis
    using shape [OF assms(1-3)] shape [OF assms(4-6)]
  proof (elim disjE conjE exE)
    fix m n
    assume *: "d = ''-'' @ m" "list_all is_ascii_digit m" "m \<noteq> []" "hd m \<noteq> CHR ''0''"
      "val d = - digits_value 0 m" "e = ''-'' @ n" "list_all is_ascii_digit n" "n \<noteq> []"
      "hd n \<noteq> CHR ''0''" "val e = - digits_value 0 n"
    then have "m = n" using v by (intro digits_value_inj) auto
    with * show "d = e" by simp
  next
    assume "list_all is_ascii_digit d" "d \<noteq> []" "hd d \<noteq> CHR ''0''" "val d = digits_value 0 d"
      "list_all is_ascii_digit e" "e \<noteq> []" "hd e \<noteq> CHR ''0''" "val e = digits_value 0 e"
    then show "d = e" using v by (intro digits_value_inj) auto
  next
    fix m
    assume "list_all is_ascii_digit e" "e \<noteq> []" "hd e \<noteq> CHR ''0''" "val e = digits_value 0 e"
      "list_all is_ascii_digit m" "m \<noteq> []" "hd m \<noteq> CHR ''0''" "val d = - digits_value 0 m"
    then show "d = e" using v pos [of e] pos [of m] by linarith
  next
    fix m
    assume "list_all is_ascii_digit d" "d \<noteq> []" "hd d \<noteq> CHR ''0''" "val d = digits_value 0 d"
      "list_all is_ascii_digit m" "m \<noteq> []" "hd m \<noteq> CHR ''0''" "val e = - digits_value 0 m"
    then show "d = e" using v pos [of d] pos [of m] by linarith
  qed (use v pos in force)+
qed

lemma canonical_ids_equal:
  assumes "canonical_resource_id a" "canonical_resource_id b" "compare_resource_ids a b = Equal"
  shows "a = b"
proof (cases "numeric_resource_id a")
  case None
  with assms(3) show ?thesis
    by (auto simp: compare_resource_ids_def split: option.splits)
next
  case (Some n)
  with assms(3) have n: "numeric_resource_id b = Some n"
    by (auto simp: compare_resource_ids_def split: option.splits)
  from Some assms(1) obtain d where d: "a = ''__id'' @ d @ ''__''" "canonical_digits d"
    by (auto simp: canonical_resource_id_def)
  from n assms(2) obtain e where e: "b = ''__id'' @ e @ ''__''" "canonical_digits e"
    by (auto simp: canonical_resource_id_def)
  from Some d(1) have "magnitude_of d \<noteq> [] \<and> list_all is_ascii_digit (magnitude_of d)
      \<and> parse_i64 d = Some n" by (auto elim!: numeric_resource_idE)
  moreover from n e(1) have "magnitude_of e \<noteq> [] \<and> list_all is_ascii_digit (magnitude_of e)
      \<and> parse_i64 e = Some n" by (auto elim!: numeric_resource_idE)
  ultimately have "d = e" using d(2) e(2) by (intro canonical_digits_inj) auto
  then show ?thesis using d(1) e(1) by simp
qed

definition canonical_path :: "string \<Rightarrow> bool" where
  "canonical_path path = (\<forall>s\<in>set (split_char (CHR ''/'') path). canonical_resource_id s)"

lemma canonical_paths_equal:
  assumes "canonical_path a" "canonical_path b" "compare_resource_paths a b = Equal"
  shows "a = b"
proof -
  have "xs = ys" if "\<forall>s\<in>set xs. canonical_resource_id s" "\<forall>s\<in>set ys. canonical_resource_id s"
    "lex_compare compare_resource_ids xs ys = Equal" for xs ys
    using that
  proof (induction xs arbitrary: ys)
    case Nil
    then show ?case by (cases ys) auto
  next
    case (Cons x xs)
    then show ?case by (cases ys) (auto intro: canonical_ids_equal)
  qed
  then have "split_char (CHR ''/'') a = split_char (CHR ''/'') b"
    using assms by (simp add: canonical_path_def compare_resource_paths_def)
  then show ?thesis by (rule split_char_inj)
qed

section \<open>Facts on document keys\<close>

definition key_ok :: "DocumentKey \<Rightarrow> bool" where
  "key_ok k = (\<exists>d p. DocumentKey_new d p = Inr k)"

lemma key_ok_segments:
  assumes "key_ok k"
  shows "2 \<le> length (split_char (CHR ''/'') (key_path k))"
    and "even (length (split_char (CHR ''/'') (key_path k)))"
    and "[] \<notin> set (split_char (CHR ''/'') (key_path k))"
  using assms by (auto simp: key_ok_def DocumentKey_new_def Let_def split: if_splits)

lemma key_ok_rsplit: "key_ok k \<Longrightarrow> rsplit_once (CHR ''/'') (key_path k) \<noteq> None"
  using key_ok_segments(1) [of k] split_no_sep [of "CHR ''/''" "key_path k"]
  by (cases "CHR ''/'' \<in> set (key_path k)") (simp_all add: rsplit_once_None)

end
