(* ===== verification/F64.thy ===== *)
theory F64
  imports Prelude "HOL-Library.Word"
begin

text \<open>
  The \<open>f64\<close> of Rust: IEEE-754 binary64 as its 64 bits. Every finite double is an integral
  multiple of \<open>2 ^ -1074\<close>, so a value is decoded exactly as that multiple (\<open>f64_scaled\<close>);
  comparison, truncation and fraction are integer arithmetic on it, and the rounded operations
  compute the exact rational result and round it once, to nearest with ties to even. An
  infinity decodes to a multiple larger than every finite one, which is all the order needs.
  The payload of a NaN result is not specified by the language; one fixed quiet NaN is used.
\<close>

named_theorems f64_eval \<open>unfolding of decoding and comparison on concrete bit patterns\<close>

section \<open>Decoding\<close>

type_synonym f64 = "64 word"

definition f64_negative :: "f64 \<Rightarrow> bool" where
  "f64_negative x = (2 ^ 63 \<le> unat x)"

definition f64_magnitude :: "f64 \<Rightarrow> nat" where
  "f64_magnitude x = unat x mod 2 ^ 63"

definition f64_is_nan :: "f64 \<Rightarrow> bool" where
  "f64_is_nan x = (2047 * 2 ^ 52 < f64_magnitude x)"

definition f64_is_finite :: "f64 \<Rightarrow> bool" where
  "f64_is_finite x = (f64_magnitude x < 2047 * 2 ^ 52)"

definition f64_scaled :: "f64 \<Rightarrow> int" where
  "f64_scaled x =
     (let e = f64_magnitude x div 2 ^ 52;
          f = f64_magnitude x mod 2 ^ 52;
          n = int (if e = 0 then f else (2 ^ 52 + f) * 2 ^ (e - 1))
      in if f64_negative x then - n else n)"

definition f64_unit :: int where
  "f64_unit = 2 ^ 1074"

section \<open>Comparison\<close>

text \<open>The operators \<open>==\<close>, \<open><\<close>, \<open><=\<close> and \<open>partial_cmp\<close>: false or none on a NaN.\<close>

definition f64_eq :: "f64 \<Rightarrow> f64 \<Rightarrow> bool" where
  "f64_eq a b = (\<not> f64_is_nan a \<and> \<not> f64_is_nan b \<and> f64_scaled a = f64_scaled b)"

definition f64_lt :: "f64 \<Rightarrow> f64 \<Rightarrow> bool" where
  "f64_lt a b = (\<not> f64_is_nan a \<and> \<not> f64_is_nan b \<and> f64_scaled a < f64_scaled b)"

definition f64_le :: "f64 \<Rightarrow> f64 \<Rightarrow> bool" where
  "f64_le a b = (\<not> f64_is_nan a \<and> \<not> f64_is_nan b \<and> f64_scaled a \<le> f64_scaled b)"

definition f64_partial_cmp :: "f64 \<Rightarrow> f64 \<Rightarrow> ordering option" where
  "f64_partial_cmp a b =
     (if f64_is_nan a \<or> f64_is_nan b then None else Some (cmp (f64_scaled a) (f64_scaled b)))"

section \<open>Truncation and conversion\<close>

definition f64_trunc :: "f64 \<Rightarrow> int" where
  "f64_trunc x = sgn (f64_scaled x) * (\<bar>f64_scaled x\<bar> div f64_unit)"

text \<open>Numerator of \<open>x.fract()\<close> over \<open>f64_unit\<close>, for finite \<open>x\<close>.\<close>

definition f64_fract :: "f64 \<Rightarrow> int" where
  "f64_fract x = f64_scaled x - f64_trunc x * f64_unit"

text \<open>\<open>x as i64\<close>: saturating, and zero for a NaN.\<close>

definition f64_as_i64 :: "f64 \<Rightarrow> int" where
  "f64_as_i64 x = (if f64_is_nan x then 0 else clamp_i64 (f64_trunc x))"

section \<open>Rounded arithmetic\<close>

definition f64_nan :: f64 where
  "f64_nan = 0x7FF8000000000000"

definition f64_infinity :: f64 where
  "f64_infinity = 0x7FF0000000000000"

definition f64_with_sign :: "bool \<Rightarrow> f64 \<Rightarrow> f64" where
  "f64_with_sign negative x = (if negative then x + 2 ^ 63 else x)"

function bit_length :: "nat \<Rightarrow> nat" where
  "bit_length n = (if n = 0 then 0 else Suc (bit_length (n div 2)))"
  by pat_completeness auto
termination
  by (relation "measure id") auto

declare bit_length.simps [simp del]

text \<open>
  \<open>f64_round num den\<close> is the double nearest to \<open>(num / den) * 2 ^ -1074\<close> for non-negative
  \<open>num\<close>. With \<open>k\<close> the number of bits the quotient has beyond 53, the bit pattern is
  \<open>k * 2 ^ 52 + q\<close> for the rounded significand \<open>q\<close>: the carry of a rounding overflow moves
  into the exponent by itself, and subnormals are the case \<open>k = 0\<close>.
\<close>

definition f64_round :: "nat \<Rightarrow> nat \<Rightarrow> f64" where
  "f64_round num den =
     (let k = bit_length (num div den) - 53;
          d = den * 2 ^ k;
          q = num div d;
          r = num mod d;
          up = (d < 2 * r \<or> 2 * r = d \<and> odd q);
          bits = k * 2 ^ 52 + q + (if up then 1 else 0)
      in if 2047 * 2 ^ 52 \<le> bits then f64_infinity else of_nat bits)"

definition f64_round_signed :: "int \<Rightarrow> nat \<Rightarrow> f64" where
  "f64_round_signed num den = f64_with_sign (num < 0) (f64_round (nat \<bar>num\<bar>) den)"

definition f64_of_i64 :: "int \<Rightarrow> f64" where
  "f64_of_i64 n = f64_round_signed (n * f64_unit) 1"

definition f64_add :: "f64 \<Rightarrow> f64 \<Rightarrow> f64" where
  "f64_add a b =
     (if f64_is_nan a \<or> f64_is_nan b then f64_nan
      else if f64_is_finite a \<and> f64_is_finite b then
        (let s = f64_scaled a + f64_scaled b in
         if s = 0 then f64_with_sign (f64_negative a \<and> f64_negative b) 0
         else f64_round_signed s 1)
      else if \<not> f64_is_finite a \<and> \<not> f64_is_finite b then
        (if f64_negative a = f64_negative b then a else f64_nan)
      else if f64_is_finite a then b else a)"

definition f64_mul :: "f64 \<Rightarrow> f64 \<Rightarrow> f64" where
  "f64_mul a b =
     (let negative = (f64_negative a \<noteq> f64_negative b) in
      if f64_is_nan a \<or> f64_is_nan b then f64_nan
      else if f64_is_finite a \<and> f64_is_finite b then
        f64_with_sign negative (f64_round (nat \<bar>f64_scaled a * f64_scaled b\<bar>) (nat f64_unit))
      else if f64_scaled a = 0 \<or> f64_scaled b = 0 then f64_nan
      else f64_with_sign negative f64_infinity)"

definition f64_div :: "f64 \<Rightarrow> f64 \<Rightarrow> f64" where
  "f64_div a b =
     (let negative = (f64_negative a \<noteq> f64_negative b) in
      if f64_is_nan a \<or> f64_is_nan b then f64_nan
      else if f64_is_finite a \<and> f64_is_finite b then
        (if f64_scaled b = 0 then
           (if f64_scaled a = 0 then f64_nan else f64_with_sign negative f64_infinity)
         else f64_with_sign negative
           (f64_round (nat (\<bar>f64_scaled a\<bar> * f64_unit)) (nat \<bar>f64_scaled b\<bar>)))
      else if \<not> f64_is_finite a \<and> \<not> f64_is_finite b then f64_nan
      else if f64_is_finite a then f64_with_sign negative 0
      else f64_with_sign negative f64_infinity)"

definition f64_one :: f64 where "f64_one = 0x3FF0000000000000"

definition f64_neg :: "f64 \<Rightarrow> f64" where "f64_neg x = x + 2 ^ 63"

definition f64_sub :: "f64 \<Rightarrow> f64 \<Rightarrow> f64" where "f64_sub a b = f64_add a (f64_neg b)"

section \<open>Facts\<close>

declare f64_negative_def [f64_eval] f64_magnitude_def [f64_eval] f64_is_nan_def [f64_eval]
  f64_is_finite_def [f64_eval] f64_scaled_def [f64_eval] f64_unit_def [f64_eval]
  f64_eq_def [f64_eval] f64_lt_def [f64_eval] f64_le_def [f64_eval]
  f64_partial_cmp_def [f64_eval] f64_trunc_def [f64_eval] f64_fract_def [f64_eval]
  f64_as_i64_def [f64_eval] clamp_i64_def [f64_eval] i64_min_def [f64_eval] i64_max_def [f64_eval]

lemma f64_unit_pos [simp]: "0 < f64_unit"
  by (simp add: f64_unit_def)

lemma f64_unit_nonneg [simp]: "0 \<le> f64_unit"
  by (simp add: f64_unit_def)

lemma f64_unit_nonzero [simp]: "f64_unit \<noteq> 0"
  by (simp add: f64_unit_def)

lemma f64_eq_refl [simp]: "f64_eq a a = (\<not> f64_is_nan a)"
  by (auto simp: f64_eq_def)

lemma f64_eq_sym: "f64_eq a b = f64_eq b a"
  by (auto simp: f64_eq_def)

lemma f64_eq_trans: "f64_eq a b \<Longrightarrow> f64_eq b c \<Longrightarrow> f64_eq a c"
  by (auto simp: f64_eq_def)

text \<open>Truncation rounds towards zero: the fraction has the sign of the number and is below one.\<close>

lemma f64_trunc_fract:
  "f64_scaled x = f64_trunc x * f64_unit + f64_fract x"
  "\<bar>f64_fract x\<bar> < f64_unit"
  "0 \<le> f64_scaled x \<Longrightarrow> 0 \<le> f64_fract x"
  "f64_scaled x \<le> 0 \<Longrightarrow> f64_fract x \<le> 0"
proof -
  let ?n = "f64_scaled x"
  have split: "\<bar>?n\<bar> = \<bar>?n\<bar> div f64_unit * f64_unit + \<bar>?n\<bar> mod f64_unit" by simp
  have m: "0 \<le> \<bar>?n\<bar> mod f64_unit" "\<bar>?n\<bar> mod f64_unit < f64_unit" by simp_all
  have fr: "f64_fract x = sgn ?n * (\<bar>?n\<bar> mod f64_unit)"
  proof -
    have "?n = sgn ?n * \<bar>?n\<bar>" by (simp add: sgn_mult_abs)
    also have "\<dots> = sgn ?n * (\<bar>?n\<bar> div f64_unit) * f64_unit + sgn ?n * (\<bar>?n\<bar> mod f64_unit)"
      by (subst split) (simp only: distrib_left mult.assoc)
    finally show ?thesis by (simp add: f64_fract_def f64_trunc_def)
  qed
  show "f64_scaled x = f64_trunc x * f64_unit + f64_fract x" by (simp add: f64_fract_def)
  show "\<bar>f64_fract x\<bar> < f64_unit" using m by (auto simp: fr abs_mult sgn_if)
  show "0 \<le> ?n \<Longrightarrow> 0 \<le> f64_fract x" using m by (auto simp: fr sgn_if)
  show "?n \<le> 0 \<Longrightarrow> f64_fract x \<le> 0" using m by (auto simp: fr sgn_if)
qed

text \<open>
  An infinity decodes outside the range of every finite number; in particular a number whose
  multiple is within \<open>2 ^ 63\<close> is finite.
\<close>

lemma f64_infinite_scaled: "\<not> f64_is_nan x \<Longrightarrow> \<not> f64_is_finite x \<Longrightarrow> \<bar>f64_scaled x\<bar> = 2 ^ 2098"
proof -
  assume "\<not> f64_is_nan x" "\<not> f64_is_finite x"
  then have "f64_magnitude x = 2047 * 2 ^ 52"
    by (simp add: f64_is_nan_def f64_is_finite_def)
  then have "f64_magnitude x div 2 ^ 52 = 2047" "f64_magnitude x mod 2 ^ 52 = 0" by simp_all
  then have "\<bar>f64_scaled x\<bar> = 2 ^ 52 * 2 ^ 2046"
    by (simp add: f64_scaled_def Let_def del: power_numeral)
  then show ?thesis by (simp only: power_add [symmetric]) simp
qed

lemma f64_trunc_range:
  assumes "- (2 ^ 63 * f64_unit) \<le> f64_scaled x" "f64_scaled x < 2 ^ 63 * f64_unit"
  shows "in_i64 (f64_trunc x)"
proof -
  let ?S = "f64_scaled x" and ?T = "f64_trunc x" and ?F = "f64_fract x"
  have S: "?S = ?T * f64_unit + ?F" and F: "\<bar>?F\<bar> < f64_unit" by (rule f64_trunc_fract)+
  have "?T < 2 ^ 63"
  proof (rule ccontr)
    assume "\<not> ?T < 2 ^ 63"
    then have le: "2 ^ 63 * f64_unit \<le> ?T * f64_unit" by (intro mult_right_mono) auto
    have "1 \<le> ?T" using \<open>\<not> ?T < 2 ^ 63\<close> by simp
    then have "1 * f64_unit \<le> ?T * f64_unit" by (intro mult_right_mono) auto
    then have "0 \<le> ?S" using S F by linarith
    then have "0 \<le> ?F" by (rule f64_trunc_fract(3))
    with le S assms(2) show False by linarith
  qed
  moreover have "- (2 ^ 63) \<le> ?T"
  proof (rule ccontr)
    assume "\<not> - (2 ^ 63) \<le> ?T"
    then have "?T \<le> - (2 ^ 63) - 1" by simp
    then have le: "?T * f64_unit \<le> (- (2 ^ 63) - 1) * f64_unit" by (intro mult_right_mono) auto
    have "(- (2 ^ 63) - 1) * f64_unit = - (2 ^ 63 * f64_unit) - f64_unit" by (simp add: algebra_simps)
    with le S assms(1) F show False by linarith
  qed
  ultimately show ?thesis by (simp add: in_i64_def i64_min_def i64_max_def)
qed

text \<open>
  Comparing an integer with the truncation first and the sign of the fraction second is the
  exact comparison of the two numbers.
\<close>

lemma f64_cmp_trunc:
  assumes "cmp n (f64_trunc x) = c"
  shows "cmp (n * f64_unit) (f64_scaled x) =
    (if c = Equal then cmp 0 (f64_fract x) else c)"
proof -
  let ?T = "f64_trunc x" and ?F = "f64_fract x"
  have S: "f64_scaled x = ?T * f64_unit + ?F" and F: "\<bar>?F\<bar> < f64_unit" by (rule f64_trunc_fract)+
  show ?thesis
  proof (cases c)
    case Less
    then have "n \<le> ?T - 1" using assms by simp
    then have "n * f64_unit \<le> (?T - 1) * f64_unit" by (intro mult_right_mono) auto
    then show ?thesis using S F Less by (simp add: left_diff_distrib)
  next
    case Equal
    then have "n = ?T" using assms by simp
    then show ?thesis using S Equal by (simp add: cmp_def)
  next
    case Greater
    then have "?T + 1 \<le> n" using assms by simp
    then have "(?T + 1) * f64_unit \<le> n * f64_unit" by (intro mult_right_mono) auto
    then show ?thesis using S F Greater by (simp add: distrib_right)
  qed
qed

end
