(* ===== verification/Values.thy ===== *)
theory Values
  imports Names F64
begin

text \<open>
  Firestore values of \<open>core-store\<close>: the \<open>Value\<close> tree, the derived equality Rust gives it
  (\<open>value_eq\<close>, which is not reflexive because of NaN), Firestore's own value equality
  (\<open>values_equal\<close>), logical sizes, and reading, assigning and deleting a nested field path.
\<close>

section \<open>Values and documents\<close>

datatype Value =
    Null
  | Boolean bool
  | Integer int
  | Double f64
  | TimestampValue Timestamp
  | StringValue string
  | Bytes string
  | Reference string
  | GeoPoint f64 f64
  | Array "Value list"
  | MapValue "(string \<times> Value) list"
  | Vector "f64 list"

type_synonym Fields = "(string, Value) ord_map"

datatype Document = Document (fields: Fields) (create_time: Timestamp) (update_time: Timestamp)

text \<open>Every map inside a value is an ordered map and every integer fits \<open>i64\<close>.\<close>

fun value_ok :: "Value \<Rightarrow> bool" where
  "value_ok (Integer n) = in_i64 n"
| "value_ok (TimestampValue t) = timestamp_ok t"
| "value_ok (Array vs) = (\<forall>v\<in>set vs. value_ok v)"
| "value_ok (MapValue m) = (om_ok m \<and> (\<forall>p\<in>set m. value_ok (snd p)))"
| "value_ok _ = True"

definition fields_ok :: "Fields \<Rightarrow> bool" where
  "fields_ok m = (om_ok m \<and> (\<forall>p\<in>set m. value_ok (snd p)))"

section \<open>Equality\<close>

text \<open>The derived \<open>PartialEq\<close>: structural, with IEEE equality on doubles.\<close>

fun value_eq :: "Value \<Rightarrow> Value \<Rightarrow> bool" where
  "value_eq Null r = (case r of Null \<Rightarrow> True | _ \<Rightarrow> False)"
| "value_eq (Boolean a) r = (case r of Boolean b \<Rightarrow> a = b | _ \<Rightarrow> False)"
| "value_eq (Integer a) r = (case r of Integer b \<Rightarrow> a = b | _ \<Rightarrow> False)"
| "value_eq (Double a) r = (case r of Double b \<Rightarrow> f64_eq a b | _ \<Rightarrow> False)"
| "value_eq (TimestampValue a) r = (case r of TimestampValue b \<Rightarrow> a = b | _ \<Rightarrow> False)"
| "value_eq (StringValue a) r = (case r of StringValue b \<Rightarrow> a = b | _ \<Rightarrow> False)"
| "value_eq (Bytes a) r = (case r of Bytes b \<Rightarrow> a = b | _ \<Rightarrow> False)"
| "value_eq (Reference a) r = (case r of Reference b \<Rightarrow> a = b | _ \<Rightarrow> False)"
| "value_eq (GeoPoint a b) r = (case r of GeoPoint c d \<Rightarrow> f64_eq a c \<and> f64_eq b d | _ \<Rightarrow> False)"
| "value_eq (Array xs) r = (case r of Array ys \<Rightarrow> list_all2 value_eq xs ys | _ \<Rightarrow> False)"
| "value_eq (MapValue xs) r =
     (case r of MapValue ys \<Rightarrow>
        list_all2 (\<lambda>x y. fst x = fst y \<and> value_eq (snd x) (snd y)) xs ys | _ \<Rightarrow> False)"
| "value_eq (Vector xs) r = (case r of Vector ys \<Rightarrow> list_all2 f64_eq xs ys | _ \<Rightarrow> False)"

definition fields_eq :: "Fields \<Rightarrow> Fields \<Rightarrow> bool" where
  "fields_eq xs ys = list_all2 (\<lambda>x y. fst x = fst y \<and> value_eq (snd x) (snd y)) xs ys"

definition document_eq :: "Document \<Rightarrow> Document \<Rightarrow> bool" where
  "document_eq a b =
     (fields_eq (fields a) (fields b) \<and> create_time a = create_time b
      \<and> update_time a = update_time b)"

fun option_document_eq :: "Document option \<Rightarrow> Document option \<Rightarrow> bool" where
  "option_document_eq None None = True"
| "option_document_eq (Some a) (Some b) = document_eq a b"
| "option_document_eq _ _ = False"

text \<open>Firestore equality, used by the array transforms: NaN equals NaN, \<open>1\<close> equals \<open>1.0\<close>.\<close>

definition doubles_equal :: "f64 \<Rightarrow> f64 \<Rightarrow> bool" where
  "doubles_equal left right = (f64_eq left right \<or> f64_is_nan left \<and> f64_is_nan right)"

definition two_pow_63 :: int where
  "two_pow_63 = 2 ^ 63 * f64_unit"

definition integer_double_equal :: "int \<Rightarrow> f64 \<Rightarrow> bool" where
  "integer_double_equal integer double =
     (if \<not> f64_is_finite double \<or> f64_scaled double < - two_pow_63
         \<or> two_pow_63 \<le> f64_scaled double
      then False
      else f64_fract double = 0 \<and> integer = f64_as_i64 double)"

fun values_equal :: "Value \<Rightarrow> Value \<Rightarrow> bool" where
  "values_equal Null r = (case r of Null \<Rightarrow> True | _ \<Rightarrow> False)"
| "values_equal (Boolean a) r = (case r of Boolean b \<Rightarrow> a = b | _ \<Rightarrow> False)"
| "values_equal (Integer a) r =
     (case r of Integer b \<Rightarrow> a = b | Double b \<Rightarrow> integer_double_equal a b | _ \<Rightarrow> False)"
| "values_equal (Double a) r =
     (case r of Double b \<Rightarrow> doubles_equal a b | Integer b \<Rightarrow> integer_double_equal b a | _ \<Rightarrow> False)"
| "values_equal (TimestampValue a) r = (case r of TimestampValue b \<Rightarrow> a = b | _ \<Rightarrow> False)"
| "values_equal (StringValue a) r = (case r of StringValue b \<Rightarrow> a = b | _ \<Rightarrow> False)"
| "values_equal (Bytes a) r = (case r of Bytes b \<Rightarrow> a = b | _ \<Rightarrow> False)"
| "values_equal (Reference a) r = (case r of Reference b \<Rightarrow> a = b | _ \<Rightarrow> False)"
| "values_equal (GeoPoint a b) r =
     (case r of GeoPoint c d \<Rightarrow> doubles_equal a c \<and> doubles_equal b d | _ \<Rightarrow> False)"
| "values_equal (Array xs) r = (case r of Array ys \<Rightarrow> list_all2 values_equal xs ys | _ \<Rightarrow> False)"
| "values_equal (MapValue xs) r =
     (case r of MapValue ys \<Rightarrow>
        list_all2 (\<lambda>x y. fst x = fst y \<and> values_equal (snd x) (snd y)) xs ys | _ \<Rightarrow> False)"
| "values_equal (Vector xs) r = (case r of Vector ys \<Rightarrow> list_all2 doubles_equal xs ys | _ \<Rightarrow> False)"

section \<open>Logical sizes\<close>

fun value_logical_bytes :: "Value \<Rightarrow> nat" where
  "value_logical_bytes Null = 0"
| "value_logical_bytes (Boolean _) = 1"
| "value_logical_bytes (Integer _) = 8"
| "value_logical_bytes (Double _) = 8"
| "value_logical_bytes (TimestampValue _) = 12"
| "value_logical_bytes (StringValue s) = length s"
| "value_logical_bytes (Reference s) = length s"
| "value_logical_bytes (Bytes s) = length s"
| "value_logical_bytes (GeoPoint _ _) = 16"
| "value_logical_bytes (Array vs) = fold (\<lambda>v total. sat_add total (value_logical_bytes v)) vs 0"
| "value_logical_bytes (MapValue m) =
     fold (\<lambda>p total. sat_add (sat_add total (length (fst p))) (value_logical_bytes (snd p))) m 0"
| "value_logical_bytes (Vector xs) = sat_mul (length xs) 8"

definition fields_logical_bytes :: "Fields \<Rightarrow> nat" where
  "fields_logical_bytes m =
     fold (\<lambda>p total. sat_add (sat_add total (length (fst p))) (value_logical_bytes (snd p))) m 0"

definition document_logical_bytes :: "Document \<Rightarrow> nat" where
  "document_logical_bytes d = sat_add (fields_logical_bytes (fields d)) 24"

definition database_name_logical_bytes :: "DatabaseName \<Rightarrow> nat" where
  "database_name_logical_bytes d = sat_add (length (project_id d)) (length (database_id d))"

definition document_key_logical_bytes :: "DocumentKey \<Rightarrow> nat" where
  "document_key_logical_bytes k =
     sat_add (database_name_logical_bytes (key_database k)) (length (key_path k))"

definition document_entry_logical_bytes :: "DocumentKey \<Rightarrow> Document \<Rightarrow> nat" where
  "document_entry_logical_bytes k d =
     sat_add (document_key_logical_bytes k) (document_logical_bytes d)"

section \<open>Field paths\<close>

text \<open>
  A \<open>FieldPath\<close> is built by \<open>FieldPath::new\<close> only, which rejects the empty path; the model
  keeps the first segment apart, so the \<open>split_first().expect(..)\<close> of the accessors cannot
  fail.
\<close>

datatype FieldPath = FieldPath (path_first: string) (path_rest: "string list")

datatype FieldPathError = FieldPathError

definition segments :: "FieldPath \<Rightarrow> string list" where
  "segments p = path_first p # path_rest p"

fun FieldPath_new :: "string list \<Rightarrow> FieldPathError + FieldPath" where
  "FieldPath_new [] = Inl FieldPathError"
| "FieldPath_new (first # rest) =
     (if (\<exists>s\<in>set (first # rest). s = []) then Inl FieldPathError
      else Inr (FieldPath first rest))"

definition FieldPath_top :: "string \<Rightarrow> FieldPathError + FieldPath" where
  "FieldPath_top segment = FieldPath_new [segment]"

text \<open>The loop of \<open>nested_value\<close> over the segments after the first.\<close>

fun descend :: "Value \<Rightarrow> string list \<Rightarrow> Value option" where
  "descend v [] = Some v"
| "descend v (segment # rest) =
     (case v of
        MapValue m \<Rightarrow> (case map_of m segment of None \<Rightarrow> None | Some w \<Rightarrow> descend w rest)
      | _ \<Rightarrow> None)"

fun nested_value :: "Fields \<Rightarrow> string list \<Rightarrow> Value option" where
  "nested_value m [] = None"
| "nested_value m (first # rest) =
     (case map_of m first of None \<Rightarrow> None | Some v \<Rightarrow> descend v rest)"

text \<open>The map an entry is normalized to: its own content, or an empty map in its place.\<close>

definition entry_as_map :: "Fields \<Rightarrow> string \<Rightarrow> Fields" where
  "entry_as_map m first = (case map_of m first of Some (MapValue child) \<Rightarrow> child | _ \<Rightarrow> [])"

fun set_nested_map_value :: "Fields \<Rightarrow> string \<Rightarrow> string list \<Rightarrow> Value \<Rightarrow> Fields" where
  "set_nested_map_value m first [] v = om_insert first v m"
| "set_nested_map_value m first (next_segment # rest) v =
     om_insert first
       (MapValue (set_nested_map_value (entry_as_map m first) next_segment rest v)) m"

definition set_nested_value :: "Fields \<Rightarrow> FieldPath \<Rightarrow> Value \<Rightarrow> Fields" where
  "set_nested_value m path v =
     (case path_rest path of
        [] \<Rightarrow> om_insert (path_first path) v m
      | next_segment # rest \<Rightarrow>
          om_insert (path_first path)
            (MapValue (set_nested_map_value (entry_as_map m (path_first path)) next_segment rest v)) m)"

fun delete_nested_map_value :: "Fields \<Rightarrow> string \<Rightarrow> string list \<Rightarrow> Fields" where
  "delete_nested_map_value m first [] = om_remove first m"
| "delete_nested_map_value m first (next_segment # rest) =
     (case map_of m first of
        Some (MapValue child) \<Rightarrow>
          om_insert first (MapValue (delete_nested_map_value child next_segment rest)) m
      | _ \<Rightarrow> m)"

definition delete_nested_value :: "Fields \<Rightarrow> FieldPath \<Rightarrow> Fields" where
  "delete_nested_value m path =
     (case path_rest path of
        [] \<Rightarrow> om_remove (path_first path) m
      | next_segment # rest \<Rightarrow>
          (case map_of m (path_first path) of
             Some (MapValue child) \<Rightarrow>
               om_insert (path_first path)
                 (MapValue (delete_nested_map_value child next_segment rest)) m
           | _ \<Rightarrow> m))"

section \<open>Facts on equality\<close>

fun has_nan :: "Value \<Rightarrow> bool" where
  "has_nan (Double d) = f64_is_nan d"
| "has_nan (GeoPoint a b) = (f64_is_nan a \<or> f64_is_nan b)"
| "has_nan (Vector xs) = (\<exists>x\<in>set xs. f64_is_nan x)"
| "has_nan (Array vs) = (\<exists>v\<in>set vs. has_nan v)"
| "has_nan (MapValue m) = (\<exists>p\<in>set m. has_nan (snd p))"
| "has_nan _ = False"

lemma list_all2_refl_iff: "list_all2 P xs xs = (\<forall>x\<in>set xs. P x x)"
  by (induction xs) auto

text \<open>The derived equality is reflexive exactly on the values without a NaN.\<close>

lemma value_eq_refl_iff: "value_eq v v = (\<not> has_nan v)"
proof (induction v)
  case (MapValue m)
  then show ?case by (fastforce simp: list_all2_refl_iff)
qed (auto simp: list_all2_refl_iff)

lemma fields_eq_refl_iff: "fields_eq m m = (\<forall>p\<in>set m. \<not> has_nan (snd p))"
  by (simp add: fields_eq_def list_all2_refl_iff value_eq_refl_iff)

definition document_has_nan :: "Document \<Rightarrow> bool" where
  "document_has_nan d = (\<exists>p\<in>set (fields d). has_nan (snd p))"

lemma document_eq_refl_iff: "document_eq d d = (\<not> document_has_nan d)"
  by (auto simp: document_eq_def fields_eq_refl_iff document_has_nan_def)

lemma doubles_equal_refl [simp]: "doubles_equal d d"
  by (auto simp: doubles_equal_def f64_eq_def)

lemma doubles_equal_sym: "doubles_equal a b = doubles_equal b a"
  by (auto simp: doubles_equal_def f64_eq_sym)

lemma values_equal_refl: "values_equal v v"
proof (induction v)
  case (MapValue m)
  then show ?case by (fastforce simp: list_all2_refl_iff)
qed (auto simp: list_all2_refl_iff)

lemma f64_finite_not_nan: "f64_is_finite d \<Longrightarrow> \<not> f64_is_nan d"
  by (simp add: f64_is_finite_def f64_is_nan_def)

lemma in_i64_scaled_range:
  "in_i64 n \<Longrightarrow> - two_pow_63 \<le> n * f64_unit \<and> n * f64_unit < two_pow_63"
proof -
  assume "in_i64 n"
  then have "- (2 ^ 63) \<le> n" "n \<le> 2 ^ 63 - 1" by (simp_all add: in_i64_def i64_min_def i64_max_def)
  then have "- (2 ^ 63) * f64_unit \<le> n * f64_unit" "n * f64_unit \<le> (2 ^ 63 - 1) * f64_unit"
    by (intro mult_right_mono; simp)+
  then show ?thesis by (simp add: two_pow_63_def left_diff_distrib order.strict_trans1)
qed

text \<open>\<open>integer_double_equal\<close> compares the exact numbers.\<close>

lemma integer_double_equal_iff:
  assumes "in_i64 n"
  shows "integer_double_equal n d = (\<not> f64_is_nan d \<and> f64_scaled d = n * f64_unit)"
proof
  assume "integer_double_equal n d"
  then have h: "f64_is_finite d" "- two_pow_63 \<le> f64_scaled d" "f64_scaled d < two_pow_63"
    "f64_fract d = 0" "n = f64_as_i64 d"
    by (auto simp: integer_double_equal_def split: if_splits)
  then have "n = f64_trunc d"
    using f64_trunc_range [of d] f64_finite_not_nan [of d]
    by (simp add: f64_as_i64_def two_pow_63_def)
  then show "\<not> f64_is_nan d \<and> f64_scaled d = n * f64_unit"
    using f64_trunc_fract(1) [of d] h f64_finite_not_nan by simp
next
  assume h: "\<not> f64_is_nan d \<and> f64_scaled d = n * f64_unit"
  then have r: "- two_pow_63 \<le> f64_scaled d" "f64_scaled d < two_pow_63"
    using in_i64_scaled_range [OF assms] by auto
  have "f64_is_finite d"
  proof (rule ccontr)
    assume "\<not> f64_is_finite d"
    then have "\<bar>f64_scaled d\<bar> = 2 ^ 2098" using h f64_infinite_scaled by blast
    moreover have "\<bar>f64_scaled d\<bar> \<le> two_pow_63" using r by simp
    ultimately show False by (simp add: two_pow_63_def f64_unit_def)
  qed
  moreover have "n = f64_trunc d \<and> f64_fract d = 0"
    using f64_cmp_trunc [OF HOL.refl, of n d] h
    by (cases "cmp n (f64_trunc d)") (auto simp: cmp_def split: if_splits)
  ultimately show "integer_double_equal n d"
    using r assms h by (simp add: integer_double_equal_def f64_as_i64_def)
qed

lemma values_equal_sym: "values_equal a b = values_equal b a"
proof (induction a arbitrary: b)
  case (Array xs)
  have "list_all2 values_equal xs ys = list_all2 values_equal ys xs" for ys
    using Array by (induction xs ys rule: list_induct2') auto
  then show ?case by (cases b) auto
next
  case (MapValue xs)
  have "list_all2 (\<lambda>x y. fst x = fst y \<and> values_equal (snd x) (snd y)) xs ys =
      list_all2 (\<lambda>x y. fst x = fst y \<and> values_equal (snd x) (snd y)) ys xs" for ys
    using MapValue by (induction xs ys rule: list_induct2') (auto simp: snds.simps)
  then show ?case by (cases b) auto
next
  case (Vector xs)
  have "list_all2 doubles_equal xs ys = list_all2 doubles_equal ys xs" for ys
    by (induction xs ys rule: list_induct2') (auto simp: doubles_equal_sym)
  then show ?case by (cases b) auto
qed (auto split: Value.splits simp: doubles_equal_sym)

lemma doubles_equal_trans: "doubles_equal a b \<Longrightarrow> doubles_equal b c \<Longrightarrow> doubles_equal a c"
  by (auto simp: doubles_equal_def f64_eq_def)

lemma doubles_equal_iff:
  "doubles_equal a b = (f64_is_nan a \<and> f64_is_nan b \<or>
    \<not> f64_is_nan a \<and> \<not> f64_is_nan b \<and> f64_scaled a = f64_scaled b)"
  by (auto simp: doubles_equal_def f64_eq_def)

lemma list_all2_trans_on:
  assumes "\<And>x y z. x \<in> set xs \<Longrightarrow> y \<in> set ys \<Longrightarrow> z \<in> set zs \<Longrightarrow> P x y \<Longrightarrow> P y z \<Longrightarrow> P x z"
    "list_all2 P xs ys" "list_all2 P ys zs"
  shows "list_all2 P xs zs"
  using assms(2,3) assms(1) [OF nth_mem nth_mem nth_mem] unfolding list_all2_conv_all_nth by metis

abbreviation entries_equal :: "string \<times> Value \<Rightarrow> string \<times> Value \<Rightarrow> bool" where
  "entries_equal x y \<equiv> fst x = fst y \<and> values_equal (snd x) (snd y)"

lemma values_equal_containers:
  "values_equal (Array xs) b = (\<exists>ys. b = Array ys \<and> list_all2 values_equal xs ys)"
  "values_equal (MapValue ms) b = (\<exists>ns. b = MapValue ns \<and> list_all2 entries_equal ms ns)"
  "values_equal (Vector ds) b = (\<exists>es. b = Vector es \<and> list_all2 doubles_equal ds es)"
  by (simp_all split: Value.splits)

lemma values_equal_trans:
  "value_ok a \<Longrightarrow> value_ok b \<Longrightarrow> value_ok c \<Longrightarrow>
    values_equal a b \<Longrightarrow> values_equal b c \<Longrightarrow> values_equal a c"
proof (induction a arbitrary: b c)
  case (Array xs)
  obtain ys where b: "b = Array ys" "list_all2 values_equal xs ys"
    using Array.prems(4) unfolding values_equal_containers by blast
  obtain zs where c: "c = Array zs" "list_all2 values_equal ys zs"
    using Array.prems(5) unfolding b(1) values_equal_containers by blast
  have "list_all2 values_equal xs zs"
    using b(2) c(2) Array.prems(1-3) unfolding b(1) c(1)
    by (intro list_all2_trans_on [of xs ys zs]) (auto intro: Array.IH)
  then show ?case unfolding c(1) values_equal_containers by blast
next
  case (MapValue xs)
  obtain ys where b: "b = MapValue ys" "list_all2 entries_equal xs ys"
    using MapValue.prems(4) unfolding values_equal_containers by blast
  obtain zs where c: "c = MapValue zs" "list_all2 entries_equal ys zs"
    using MapValue.prems(5) unfolding b(1) values_equal_containers by blast
  have IH: "entries_equal x z" if "x \<in> set xs" "y \<in> set ys" "z \<in> set zs"
    "entries_equal x y" "entries_equal y z" for x y z
    using that MapValue.IH [of x "snd x" "snd y" "snd z"] MapValue.prems(1-3) unfolding b(1) c(1)
    by (simp add: snds.simps)
  have "list_all2 entries_equal xs zs"
    using b(2) c(2) by (intro list_all2_trans_on [of xs ys zs]) (use IH in blast)+
  then show ?case unfolding c(1) values_equal_containers by blast
next
  case (Vector xs)
  obtain ys where b: "b = Vector ys" "list_all2 doubles_equal xs ys"
    using Vector.prems(4) unfolding values_equal_containers by blast
  obtain zs where c: "c = Vector zs" "list_all2 doubles_equal ys zs"
    using Vector.prems(5) unfolding b(1) values_equal_containers by blast
  have "list_all2 doubles_equal xs zs"
    using b(2) c(2) by (intro list_all2_trans_on [of xs ys zs]) (auto intro: doubles_equal_trans)
  then show ?case unfolding c(1) values_equal_containers by blast
qed (auto split: Value.splits simp: integer_double_equal_iff doubles_equal_iff)

section \<open>Facts on field paths\<close>

text \<open>Two paths that part before either ends.\<close>

fun diverge :: "string list \<Rightarrow> string list \<Rightarrow> bool" where
  "diverge (x # xs) (y # ys) = (x \<noteq> y \<or> diverge xs ys)"
| "diverge _ _ = False"

lemma set_nested_value_map:
  "set_nested_value m path v = set_nested_map_value m (path_first path) (path_rest path) v"
  by (auto simp: set_nested_value_def split: list.splits)

lemma delete_nested_value_map:
  "delete_nested_value m path = delete_nested_map_value m (path_first path) (path_rest path)"
  by (auto simp: delete_nested_value_def split: list.splits)

lemma descend_MapValue [simp]: "descend (MapValue m) (s # rest) = nested_value m (s # rest)"
  by simp

lemma nested_set_same: "nested_value (set_nested_map_value m first rest v) (first # rest) = Some v"
  by (induction m first rest v rule: set_nested_map_value.induct) (auto simp: om_simps)

lemma nested_entry_as_map:
  "nested_value (entry_as_map m x) (s # ss) = nested_value m (x # s # ss)"
  by (auto simp: entry_as_map_def split: option.splits Value.splits)

lemma nested_set_other:
  "diverge (first # rest) q \<Longrightarrow> nested_value (set_nested_map_value m first rest v) q = nested_value m q"
proof (induction rest arbitrary: m first q)
  case Nil
  then show ?case by (cases q) (auto simp: om_simps)
next
  case (Cons n rest)
  then obtain x xs where q: "q = x # xs" by (cases q) auto
  show ?case
  proof (cases "x = first")
    case True
    then have d: "diverge (n # rest) xs" using Cons.prems q by simp
    then obtain s ss where xs: "xs = s # ss" by (cases xs) auto
    from Cons.IH [OF d, of "entry_as_map m first"] show ?thesis
      using q True xs nested_entry_as_map [of m first s ss] by (simp add: om_simps)
  next
    case False
    with q show ?thesis by (simp add: om_simps)
  qed
qed

lemma nested_delete_same: "nested_value (delete_nested_map_value m first rest) (first # rest) = None"
  by (induction m first rest rule: delete_nested_map_value.induct)
    (auto simp: om_simps split: option.splits Value.splits)

lemma nested_delete_other:
  "diverge (first # rest) q \<Longrightarrow> nested_value (delete_nested_map_value m first rest) q = nested_value m q"
proof (induction rest arbitrary: m first q)
  case Nil
  then show ?case by (cases q) (auto simp: om_simps)
next
  case (Cons n rest)
  then obtain x xs where q: "q = x # xs" by (cases q) auto
  show ?case
  proof (cases "\<exists>child. map_of m first = Some (MapValue child)")
    case True
    then obtain child where c: "map_of m first = Some (MapValue child)" by blast
    show ?thesis
    proof (cases "x = first")
      case True
      then have d: "diverge (n # rest) xs" using Cons.prems q by simp
      then obtain s ss where xs: "xs = s # ss" by (cases xs) auto
      from Cons.IH [OF d, of child] show ?thesis using q True xs c by (simp add: om_simps)
    next
      case False
      with q c show ?thesis by (simp add: om_simps)
    qed
  next
    case False
    then show ?thesis by (auto split: option.splits Value.splits)
  qed
qed

lemma value_ok_MapValue: "value_ok (MapValue m) = fields_ok m"
  by (simp add: fields_ok_def)

lemma fields_ok_insert: "fields_ok m \<Longrightarrow> value_ok v \<Longrightarrow> fields_ok (om_insert k v m)"
  using set_om_assign [of m k "Some v"] by (auto simp: fields_ok_def)

lemma fields_ok_remove: "fields_ok m \<Longrightarrow> fields_ok (om_remove k m)"
  by (auto simp: fields_ok_def) (auto simp: om_remove_def)

lemma fields_ok_entry: "fields_ok m \<Longrightarrow> fields_ok (entry_as_map m k)"
  by (fastforce simp: entry_as_map_def fields_ok_def split: option.splits Value.splits dest: map_of_SomeD)

lemma fields_ok_child: "fields_ok m \<Longrightarrow> map_of m k = Some (MapValue c) \<Longrightarrow> fields_ok c"
  by (fastforce simp: fields_ok_def dest: map_of_SomeD)

lemma fields_ok_set_nested:
  "fields_ok m \<Longrightarrow> value_ok v \<Longrightarrow> fields_ok (set_nested_map_value m first rest v)"
proof (induction m first rest v rule: set_nested_map_value.induct)
  case (2 m first n rest v)
  then have "fields_ok (set_nested_map_value (entry_as_map m first) n rest v)"
    by (simp add: fields_ok_entry)
  with 2 show ?case by (simp add: fields_ok_insert value_ok_MapValue del: value_ok.simps)
qed (simp add: fields_ok_insert)

lemma fields_ok_delete_nested: "fields_ok m \<Longrightarrow> fields_ok (delete_nested_map_value m first rest)"
proof (induction m first rest rule: delete_nested_map_value.induct)
  case (2 m first n rest)
  show ?case
  proof (cases "\<exists>c. map_of m first = Some (MapValue c)")
    case True
    then obtain c where c: "map_of m first = Some (MapValue c)" by blast
    then have "fields_ok (delete_nested_map_value c n rest)"
      using 2 by (auto intro: fields_ok_child)
    with c 2 show ?thesis by (simp add: fields_ok_insert value_ok_MapValue del: value_ok.simps)
  next
    case False
    with 2 show ?thesis by (auto split: option.splits Value.splits)
  qed
qed (simp add: fields_ok_remove)

lemma lookup_value_ok: "fields_ok m \<Longrightarrow> map_of m k = Some v \<Longrightarrow> value_ok v"
  by (fastforce simp: fields_ok_def dest: map_of_SomeD)

lemma descend_value_ok: "value_ok w \<Longrightarrow> descend w ss = Some v \<Longrightarrow> value_ok v"
proof (induction ss arbitrary: w)
  case (Cons s ss)
  then obtain m x where m: "w = MapValue m" "map_of m s = Some x" "descend x ss = Some v"
    by (auto split: Value.splits option.splits)
  with Cons.prems(1) have "value_ok x"
    using lookup_value_ok [of m s x] value_ok_MapValue by simp
  then show ?case using m Cons.IH by blast
qed simp

lemma nested_value_ok: "fields_ok m \<Longrightarrow> nested_value m p = Some v \<Longrightarrow> value_ok v"
  by (cases p) (auto split: option.splits intro: lookup_value_ok descend_value_ok)

section \<open>Derived equality is transitive and keeps sizes\<close>

lemma value_eq_containers:
  "value_eq (Array xs) b = (\<exists>ys. b = Array ys \<and> list_all2 value_eq xs ys)"
  "value_eq (MapValue m) b =
    (\<exists>n. b = MapValue n \<and> list_all2 (\<lambda>x y. fst x = fst y \<and> value_eq (snd x) (snd y)) m n)"
  "value_eq (Vector ds) b = (\<exists>es. b = Vector es \<and> list_all2 f64_eq ds es)"
  by (simp_all split: Value.splits)

lemma value_eq_trans: "value_eq a b \<Longrightarrow> value_eq b c \<Longrightarrow> value_eq a c"
proof (induction a arbitrary: b c)
  case (Array xs)
  obtain ys where b: "b = Array ys" "list_all2 value_eq xs ys"
    using Array.prems(1) unfolding value_eq_containers by blast
  obtain zs where c: "c = Array zs" "list_all2 value_eq ys zs"
    using Array.prems(2) unfolding b(1) value_eq_containers by blast
  have "list_all2 value_eq xs zs"
    using b(2) c(2) by (intro list_all2_trans_on [of xs ys zs]) (auto intro: Array.IH)
  then show ?case unfolding c(1) value_eq_containers by blast
next
  case (MapValue xs)
  let ?eq = "\<lambda>x y. fst x = fst y \<and> value_eq (snd x) (snd y)"
  obtain ys where b: "b = MapValue ys" "list_all2 ?eq xs ys"
    using MapValue.prems(1) unfolding value_eq_containers by blast
  obtain zs where c: "c = MapValue zs" "list_all2 ?eq ys zs"
    using MapValue.prems(2) unfolding b(1) value_eq_containers by blast
  have "list_all2 ?eq xs zs"
    using b(2) c(2) by (intro list_all2_trans_on [of xs ys zs]) (auto intro: MapValue.IH)
  then show ?case unfolding c(1) value_eq_containers by blast
next
  case (Vector xs)
  obtain ys where b: "b = Vector ys" "list_all2 f64_eq xs ys"
    using Vector.prems(1) unfolding value_eq_containers by blast
  obtain zs where c: "c = Vector zs" "list_all2 f64_eq ys zs"
    using Vector.prems(2) unfolding b(1) value_eq_containers by blast
  have "list_all2 f64_eq xs zs"
    using b(2) c(2) by (intro list_all2_trans_on [of xs ys zs]) (auto intro: f64_eq_trans)
  then show ?case unfolding c(1) value_eq_containers by blast
qed (auto split: Value.splits intro: f64_eq_trans)

lemma fields_eq_trans: "fields_eq a b \<Longrightarrow> fields_eq b c \<Longrightarrow> fields_eq a c"
  using value_eq_trans [of "MapValue a" "MapValue b" "MapValue c"] by (simp add: fields_eq_def)

lemma option_document_eq_trans:
  "option_document_eq a b \<Longrightarrow> option_document_eq b c \<Longrightarrow> option_document_eq a c"
  by (cases "(a, b)" rule: option_document_eq.cases; cases c)
    (auto simp: document_eq_def intro: fields_eq_trans)

end
