(* ===== verification/Writes.thy ===== *)
theory Writes
  imports Values
begin

text \<open>
  Writes of \<open>core-store\<close>: preconditions, server-side field transforms, and \<open>apply_write\<close>, the
  function that turns one write and the current documents into the next state of one document
  or a \<open>CommitError\<close>.
\<close>

section \<open>Data\<close>

datatype Precondition = NoPrecondition | Exists bool | UpdateTime Timestamp

datatype TransformOperation =
    ServerTimestamp
  | Increment Value
  | ArrayUnion "Value list"
  | ArrayRemove "Value list"
  | Maximum Value
  | Minimum Value

datatype FieldTransform = FieldTransform (transform_path: FieldPath) (operation: TransformOperation)

datatype Write =
    Create DocumentKey Fields
  | Set DocumentKey Fields "FieldTransform list" Precondition
  | Patch DocumentKey Fields "FieldPath list" "FieldTransform list" Precondition
  | Delete DocumentKey Precondition
  | Verify DocumentKey Precondition

datatype CommitError =
    AlreadyExists DocumentKey
  | ExistencePrecondition DocumentKey bool
  | UpdateTimePrecondition DocumentKey Timestamp "Timestamp option"
  | InvalidNumericTransformOperand DocumentKey FieldPath
  | RevisionExhausted
  | PersistenceUnavailable string

type_synonym Documents = "(DocumentKey, Document) ord_map"

fun write_key :: "Write \<Rightarrow> DocumentKey" where
  "write_key (Create key _) = key"
| "write_key (Set key _ _ _) = key"
| "write_key (Patch key _ _ _ _) = key"
| "write_key (Delete key _) = key"
| "write_key (Verify key _) = key"

section \<open>Preconditions\<close>

fun validate_precondition ::
    "DocumentKey \<Rightarrow> Document option \<Rightarrow> Precondition \<Rightarrow> CommitError + unit" where
  "validate_precondition key document NoPrecondition = Inr ()"
| "validate_precondition key document (Exists expected) =
     (if (document \<noteq> None) = expected then Inr ()
      else Inl (ExistencePrecondition key expected))"
| "validate_precondition key document (UpdateTime expected) =
     (if map_option update_time document = Some expected then Inr ()
      else Inl (UpdateTimePrecondition key expected (map_option update_time document)))"

section \<open>Numeric transforms\<close>

fun is_numeric :: "Value \<Rightarrow> bool" where
  "is_numeric (Integer _) = True"
| "is_numeric (Double _) = True"
| "is_numeric _ = False"

fun is_nan_value :: "Value \<Rightarrow> bool" where
  "is_nan_value (Double d) = f64_is_nan d"
| "is_nan_value _ = False"

text \<open>
  \<open>2_f64.powi(63)\<close> is \<open>two_pow_63\<close> units. The callers exclude NaN; the sign of the fraction
  stands for \<open>fract().is_sign_positive()\<close> on a fraction that is not zero.
\<close>

definition compare_integer_double :: "int \<Rightarrow> f64 \<Rightarrow> ordering" where
  "compare_integer_double integer double =
     (if two_pow_63 \<le> f64_scaled double then Less
      else if f64_scaled double < - two_pow_63 then Greater
      else (case cmp integer (f64_as_i64 double) of
              Equal \<Rightarrow> if 0 < f64_fract double then Less
                       else if f64_fract double < 0 then Greater
                       else Equal
            | unequal \<Rightarrow> unequal))"

text \<open>\<open>None\<close> stands for the panics of the \<open>expect\<close> on NaN and of the \<open>unreachable\<close> arm.\<close>

definition compare_numeric :: "Value \<Rightarrow> Value \<Rightarrow> ordering option" where
  "compare_numeric left right =
     (case (left, right) of
        (Integer l, Integer r) \<Rightarrow> Some (cmp l r)
      | (Double l, Double r) \<Rightarrow> f64_partial_cmp l r
      | (Integer l, Double r) \<Rightarrow> Some (compare_integer_double l r)
      | (Double l, Integer r) \<Rightarrow> Some (reverse_ordering (compare_integer_double r l))
      | _ \<Rightarrow> None)"

definition numeric_bound_value ::
    "Value option \<Rightarrow> Value \<Rightarrow> ordering \<Rightarrow> DocumentKey \<Rightarrow> FieldPath \<Rightarrow> CommitError + Value" where
  "numeric_bound_value current operand replace_when key field =
     (if \<not> is_numeric operand then Inl (InvalidNumericTransformOperand key field)
      else (case current of
              None \<Rightarrow> Inr operand
            | Some value \<Rightarrow>
                if \<not> is_numeric value then Inr operand
                else if is_nan_value value then Inr value
                else if is_nan_value operand then Inr operand
                else if compare_numeric value operand = Some replace_when then Inr operand
                else Inr value))"

definition increment_value :: "Value option \<Rightarrow> Value \<Rightarrow> Value" where
  "increment_value current operand =
     (case (current, operand) of
        (Some (Integer l), Integer r) \<Rightarrow> Integer (sat_add_i64 l r)
      | (Some (Integer l), Double r) \<Rightarrow> Double (f64_add (f64_of_i64 l) r)
      | (Some (Double l), Integer r) \<Rightarrow> Double (f64_add l (f64_of_i64 r))
      | (Some (Double l), Double r) \<Rightarrow> Double (f64_add l r)
      | _ \<Rightarrow> operand)"

section \<open>Array transforms\<close>

definition current_array :: "Value option \<Rightarrow> Value list" where
  "current_array current = (case current of Some (Array values) \<Rightarrow> values | _ \<Rightarrow> [])"

fun array_union :: "Value list \<Rightarrow> Value list \<Rightarrow> Value list" where
  "array_union result [] = result"
| "array_union result (element # elements) =
     array_union
       (if (\<exists>existing\<in>set result. values_equal existing element) then result
        else result @ [element]) elements"

definition array_remove :: "Value list \<Rightarrow> Value list \<Rightarrow> Value list" where
  "array_remove result elements =
     filter (\<lambda>existing. \<not> (\<exists>element\<in>set elements. values_equal existing element)) result"

section \<open>Applying transforms and writes\<close>

definition transform_value ::
    "Fields \<Rightarrow> FieldTransform \<Rightarrow> Timestamp \<Rightarrow> DocumentKey \<Rightarrow> CommitError + Value" where
  "transform_value document_fields transform transform_time key =
     (let path = transform_path transform;
          current = nested_value document_fields (segments path)
      in case operation transform of
           ServerTimestamp \<Rightarrow> Inr (TimestampValue transform_time)
         | Increment operand \<Rightarrow>
             if \<not> is_numeric operand then Inl (InvalidNumericTransformOperand key path)
             else Inr (increment_value current operand)
         | ArrayUnion elements \<Rightarrow> Inr (Array (array_union (current_array current) elements))
         | ArrayRemove elements \<Rightarrow> Inr (Array (array_remove (current_array current) elements))
         | Maximum operand \<Rightarrow> numeric_bound_value current operand Less key path
         | Minimum operand \<Rightarrow> numeric_bound_value current operand Greater key path)"

definition apply_transform ::
    "Fields \<Rightarrow> FieldTransform \<Rightarrow> Timestamp \<Rightarrow> DocumentKey \<Rightarrow> CommitError + Fields" where
  "apply_transform document_fields transform transform_time key =
     result_bind (transform_value document_fields transform transform_time key)
       (\<lambda>next_value. Inr (set_nested_value document_fields (transform_path transform) next_value))"

fun apply_transforms ::
    "Fields \<Rightarrow> FieldTransform list \<Rightarrow> Timestamp \<Rightarrow> DocumentKey \<Rightarrow> CommitError + Fields" where
  "apply_transforms document_fields [] time key = Inr document_fields"
| "apply_transforms document_fields (transform # transforms) time key =
     result_bind (apply_transform document_fields transform time key)
       (\<lambda>next_fields. apply_transforms next_fields transforms time key)"

fun apply_update_mask :: "Fields \<Rightarrow> Fields \<Rightarrow> FieldPath list \<Rightarrow> Fields" where
  "apply_update_mask source_fields next_fields [] = next_fields"
| "apply_update_mask source_fields next_fields (path # paths) =
     apply_update_mask source_fields
       (case nested_value source_fields (segments path) of
          Some value \<Rightarrow> set_nested_value next_fields path value
        | None \<Rightarrow> delete_nested_value next_fields path) paths"

definition created_at :: "Document option \<Rightarrow> Timestamp \<Rightarrow> Timestamp" where
  "created_at previous commit_time =
     (case previous of None \<Rightarrow> commit_time | Some document \<Rightarrow> create_time document)"

fun apply_write ::
    "Documents \<Rightarrow> Write \<Rightarrow> Timestamp \<Rightarrow> CommitError + DocumentKey \<times> Document option" where
  "apply_write documents (Create key new_fields) commit_time =
     (if map_of documents key \<noteq> None then Inl (AlreadyExists key)
      else Inr (key, Some (Document new_fields commit_time commit_time)))"
| "apply_write documents (Set key new_fields transforms precondition) commit_time =
     (let previous = map_of documents key in
      result_bind (validate_precondition key previous precondition) (\<lambda>_.
      result_bind (apply_transforms new_fields transforms commit_time key) (\<lambda>next_fields.
      if transforms = [] \<and> (case previous of None \<Rightarrow> False | Some d \<Rightarrow> fields_eq (fields d) next_fields)
      then Inr (key, previous)
      else Inr (key, Some (Document next_fields (created_at previous commit_time) commit_time)))))"
| "apply_write documents (Patch key new_fields update_mask transforms precondition) commit_time =
     (let previous = map_of documents key in
      result_bind (validate_precondition key previous precondition) (\<lambda>_.
      let masked = apply_update_mask new_fields
            (case previous of None \<Rightarrow> [] | Some d \<Rightarrow> fields d) update_mask in
      result_bind (apply_transforms masked transforms commit_time key) (\<lambda>next_fields.
      Inr (key, Some (Document next_fields (created_at previous commit_time) commit_time)))))"
| "apply_write documents (Delete key precondition) commit_time =
     result_bind (validate_precondition key (map_of documents key) precondition)
       (\<lambda>_. Inr (key, None))"
| "apply_write documents (Verify key precondition) commit_time =
     result_bind (validate_precondition key (map_of documents key) precondition)
       (\<lambda>_. Inr (key, map_of documents key))"

section \<open>Facts\<close>

lemma apply_write_key: "apply_write documents w t = Inr (k, next_doc) \<Longrightarrow> k = write_key w"
  by (cases w) (auto simp: Let_def split: if_splits)

text \<open>Comparison of numbers without rounding either side.\<close>

lemma compare_integer_double_exact:
  assumes "in_i64 n" "\<not> f64_is_nan d"
  shows "compare_integer_double n d = cmp (n * f64_unit) (f64_scaled d)"
proof -
  have r: "- two_pow_63 \<le> n * f64_unit" "n * f64_unit < two_pow_63"
    using in_i64_scaled_range [OF assms(1)] by auto
  consider "two_pow_63 \<le> f64_scaled d" | "f64_scaled d < - two_pow_63"
    | "- two_pow_63 \<le> f64_scaled d" "f64_scaled d < two_pow_63" by linarith
  then show ?thesis
  proof cases
    case 1
    then show ?thesis using r by (simp add: compare_integer_double_def cmp_def)
  next
    case 2
    then show ?thesis using r by (auto simp: compare_integer_double_def cmp_def)
  next
    case 3
    then have "f64_as_i64 d = f64_trunc d"
      using f64_trunc_range [of d] assms(2) by (simp add: f64_as_i64_def two_pow_63_def)
    then show ?thesis
      using 3 f64_cmp_trunc [OF HOL.refl, of n d]
      by (auto simp: compare_integer_double_def cmp_def)
  qed
qed

text \<open>The exact number a numeric value denotes, in units of \<open>2 ^ -1074\<close>.\<close>

fun numeric_scaled :: "Value \<Rightarrow> int" where
  "numeric_scaled (Integer n) = n * f64_unit"
| "numeric_scaled (Double d) = f64_scaled d"
| "numeric_scaled _ = 0"

lemma compare_numeric_exact:
  assumes "is_numeric a" "is_numeric b" "\<not> is_nan_value a" "\<not> is_nan_value b" "value_ok a" "value_ok b"
  shows "compare_numeric a b = Some (cmp (numeric_scaled a) (numeric_scaled b))"
  using assms
  by (cases a; cases b)
    (auto simp: compare_numeric_def f64_partial_cmp_def compare_integer_double_exact
      cmp_swap [symmetric] cmp_def)

end
