(* ===== verification/Data_Props.thy ===== *)
theory Data_Props
  imports Writes
begin

text \<open>
  What the data layer of \<open>core-store\<close> promises: the order of resource paths, the equality of
  values, reads and writes of nested fields, the server-side transforms, and that every write
  keeps the shape invariant of documents.
\<close>

section \<open>Resource paths\<close>

text \<open>
  C38: The order of resource paths is a total preorder, and on canonical paths (no numeric id
  spelled with superfluous zeros) two paths compare equal only when they are the same path.
\<close>

theorem resource_path_order:
  shows "compare_resource_paths b a = reverse_ordering (compare_resource_paths a b)
    \<and> (compare_resource_paths a b \<noteq> Greater \<longrightarrow> compare_resource_paths b c \<noteq> Greater \<longrightarrow>
        compare_resource_paths a c \<noteq> Greater)
    \<and> (canonical_path a \<longrightarrow> canonical_path b \<longrightarrow> (compare_resource_paths a b = Equal) = (a = b))"
  using paths.swap [of a b] paths.trans_le [of a b c] canonical_paths_equal [of a b] by auto

theorem resource_path_order_witness:
  "compare_resource_paths ''c/b'' ''c/a'' = reverse_ordering (compare_resource_paths ''c/a'' ''c/b'')
    \<and> (compare_resource_paths ''c/a'' ''c/b'' = Equal) = (''c/a'' = ''c/b'')"
proof -
  have "canonical_path ''c/a''" "canonical_path ''c/b''"
    by (simp_all add: canonical_path_def canonical_resource_id_def numeric_resource_id_def strip_suffix_def)
  then show ?thesis using resource_path_order [of "''c/b''" "''c/a''"] by blast
qed


section \<open>Equality of values\<close>

text \<open>
  The equality that the array transforms use is an equivalence relation on well-formed
  values. It identifies an integer with the double of the same exact value and NaN with NaN.
\<close>

theorem values_equal_equivalence:
  assumes "value_ok a" "value_ok b" "value_ok c"
  shows "values_equal a a \<and> values_equal a b = values_equal b a
    \<and> (values_equal a b \<longrightarrow> values_equal b c \<longrightarrow> values_equal a c)"
  using values_equal_refl values_equal_sym values_equal_trans assms by blast

theorem values_equal_equivalence_witness:
  "values_equal (Integer 1) (Integer 1) \<and> values_equal (Integer 1) Null = values_equal Null (Integer 1)"
  using values_equal_equivalence [of "Integer 1" Null Null]
  by (simp add: in_i64_def i64_max_def i64_min_def)

section \<open>Nested fields\<close>

lemma nested_segments:
  "nested_value (set_nested_value m p v) (segments p) = Some v"
  "nested_value (delete_nested_value m p) (segments p) = None"
  "diverge (segments p) q \<Longrightarrow> nested_value (set_nested_value m p v) q = nested_value m q"
  "diverge (segments p) q \<Longrightarrow> nested_value (delete_nested_value m p) q = nested_value m q"
  unfolding segments_def set_nested_value_map delete_nested_value_map
  by (fact nested_set_same nested_delete_same nested_set_other nested_delete_other)+

text \<open>
  C37: Writing a field path and reading it back returns the value, deleting it makes it absent,
  and neither disturbs any path that parts from it before either ends.
\<close>

theorem nested_field_laws:
  shows "nested_value (set_nested_value m path v) (segments path) = Some v
    \<and> nested_value (delete_nested_value m path) (segments path) = None
    \<and> (diverge (segments path) q \<longrightarrow>
        nested_value (set_nested_value m path v) q = nested_value m q
        \<and> nested_value (delete_nested_value m path) q = nested_value m q)"
  by (simp add: nested_segments)

theorem nested_field_laws_witness:
  "nested_value (set_nested_value [(''a'', Null)] (FieldPath ''b'' [''c'']) Null) [''a'']
    = nested_value [(''a'', Null)] [''a'']"
  using nested_field_laws [of "[(''a'', Null)]" "FieldPath ''b'' [''c'']" Null "[''a'']"]
  by (simp add: segments_def)




section \<open>Transforms\<close>

text \<open>
  C35: \<open>Maximum\<close> and \<open>Minimum\<close> are exact. On numbers other than NaN the result is one of the
  two operands and denotes the larger (the smaller) of the two exact values; integers and
  doubles are compared without rounding either.
\<close>

theorem numeric_bound_exact:
  assumes "is_numeric a" "is_numeric b" "\<not> is_nan_value a" "\<not> is_nan_value b" "value_ok a" "value_ok b"
  shows "(\<exists>r. numeric_bound_value (Some a) b Less key field = Inr r \<and> (r = a \<or> r = b)
      \<and> numeric_scaled r = max (numeric_scaled a) (numeric_scaled b))
    \<and> (\<exists>r. numeric_bound_value (Some a) b Greater key field = Inr r \<and> (r = a \<or> r = b)
      \<and> numeric_scaled r = min (numeric_scaled a) (numeric_scaled b))"
  using assms compare_numeric_exact [OF assms]
  by (auto simp: numeric_bound_value_def cmp_def max_def min_def)

theorem numeric_bound_exact_witness:
  "\<exists>r. numeric_bound_value (Some (Integer 9007199254740993)) (Integer 2) Less (DocumentKey (DatabaseName ''p'' ''d'') ''c/a'')
      (FieldPath ''a'' []) = Inr r
    \<and> numeric_scaled r = max (9007199254740993 * f64_unit) (2 * f64_unit)"
  using numeric_bound_exact [of "Integer 9007199254740993" "Integer 2" "DocumentKey (DatabaseName ''p'' ''d'') ''c/a''" "FieldPath ''a'' []"]
  by (auto simp: in_i64_def i64_max_def i64_min_def)




section \<open>Shape\<close>













end
