(* ===== verification/Store.thy ===== *)
theory Store
  imports Writes
begin

text \<open>
  The in-memory multi-version store of \<open>core-store\<close>: its state, the planning and installation
  of a commit, the two scope indexes, the bounded change log with its reference-counted
  document versions, and historical snapshots.

  The wall clock is an input of a commit (\<open>now\<close>: whole seconds and microseconds since the
  epoch). The loop that trims the change log has no bound of its own in the code, so it is a
  partial function: \<open>None\<close> is a commit that never returns.
\<close>

section \<open>State\<close>

type_synonym Revision = nat

record StoreOptions =
  max_change_log_entries :: nat
  max_change_log_logical_bytes :: nat

record LogicalMemoryUsage =
  usage_entries :: nat
  usage_logical_bytes :: nat

record Change =
  change_revision :: Revision
  change_key :: DocumentKey
  change_before :: "Document option"
  change_after :: "Document option"

record CommitPoint =
  point_revision :: Revision
  point_commit_time :: Timestamp

record RetainedVersion =
  retained_references :: nat
  retained_logical_bytes :: nat

record CommitResult =
  result_revision :: Revision
  result_commit_time :: Timestamp

text \<open>Database with collection path, database with collection id, key with update time.\<close>

type_synonym CollectionKey = "DatabaseName \<times> string"
type_synonym CollectionGroupKey = "DatabaseName \<times> string"
type_synonym DocumentVersion = "DocumentKey \<times> Timestamp"
type_synonym CollectionIndex = "(CollectionKey, DocumentKey ord_set) ord_map"
type_synonym CollectionGroupIndex = "(CollectionGroupKey, DocumentKey ord_set) ord_map"

record State =
  options :: StoreOptions
  revision :: Revision
  last_commit_time :: Timestamp
  documents :: Documents
  collections :: "CollectionIndex option"
  collection_groups :: "CollectionGroupIndex option"
  change_log :: "Change list"
  change_floor :: Revision
  commit_times :: "CommitPoint list"
  history_floor :: CommitPoint
  current_documents :: LogicalMemoryUsage
  replay_versions :: "(DocumentVersion, RetainedVersion) ord_map"
  replay_versions_logical_bytes :: nat
  change_log_logical_bytes :: nat

record CommitPlan =
  plan_result :: CommitResult
  plan_documents :: Documents
  plan_changes :: "Change list"

datatype SnapshotError =
    ResetRequired Revision Revision
  | FutureRevision Revision Revision
  | ReadTimeExpired Timestamp Timestamp

record Snapshot =
  snapshot_revision :: Revision
  snapshot_documents :: Documents
  snapshot_collections :: CollectionIndex
  snapshot_collection_groups :: CollectionGroupIndex
  snapshot_usage :: LogicalMemoryUsage

definition clamp_options :: "StoreOptions \<Rightarrow> StoreOptions" where
  "clamp_options opts =
     \<lparr>max_change_log_entries = max (max_change_log_entries opts) 1,
      max_change_log_logical_bytes = max (max_change_log_logical_bytes opts) 1\<rparr>"

definition StoreOptions_default :: StoreOptions where
  "StoreOptions_default =
     \<lparr>max_change_log_entries = 4096, max_change_log_logical_bytes = 64 * 1024 * 1024\<rparr>"

definition epoch :: Timestamp where
  "epoch = Timestamp 0 0"

definition State_new :: "StoreOptions \<Rightarrow> State" where
  "State_new opts =
     \<lparr>options = clamp_options opts, revision = 0, last_commit_time = epoch, documents = [],
      collections = Some [], collection_groups = Some [], change_log = [], change_floor = 0,
      commit_times = [], history_floor = \<lparr>point_revision = 0, point_commit_time = epoch\<rparr>,
      current_documents = \<lparr>usage_entries = 0, usage_logical_bytes = 0\<rparr>,
      replay_versions = [], replay_versions_logical_bytes = 0, change_log_logical_bytes = 0\<rparr>"

definition State_from_persisted ::
    "StoreOptions \<Rightarrow> Revision \<Rightarrow> Timestamp \<Rightarrow> Documents \<Rightarrow> LogicalMemoryUsage \<Rightarrow> State" where
  "State_from_persisted opts r time docs usage =
     \<lparr>options = clamp_options opts, revision = r, last_commit_time = time, documents = docs,
      collections = None, collection_groups = None, change_log = [], change_floor = r,
      commit_times = [], history_floor = \<lparr>point_revision = r, point_commit_time = time\<rparr>,
      current_documents = usage,
      replay_versions = [], replay_versions_logical_bytes = 0, change_log_logical_bytes = 0\<rparr>"

section \<open>Planning a commit\<close>

type_synonym clock = "nat \<times> nat"

definition observed_time :: "clock \<Rightarrow> Timestamp" where
  "observed_time now =
     Timestamp (if int (fst now) \<le> i64_max then int (fst now) else i64_max) (snd now * 1000)"

definition next_commit_time :: "State \<Rightarrow> clock \<Rightarrow> Timestamp" where
  "next_commit_time st now =
     (if last_commit_time st < observed_time now then observed_time now
      else saturating_next_microsecond (last_commit_time st))"

fun plan_writes :: "Revision \<Rightarrow> Timestamp \<Rightarrow> Write list \<Rightarrow> Documents \<Rightarrow> Change list \<Rightarrow>
    CommitError + Documents \<times> Change list" where
  "plan_writes r commit_time [] docs changes = Inr (docs, changes)"
| "plan_writes r commit_time (write # writes) docs changes =
     result_bind (apply_write docs write commit_time) (\<lambda>(key, next_doc).
       let previous = map_of docs key;
           docs' = om_assign key next_doc docs;
           changes' =
             (if option_document_eq previous next_doc then changes
              else changes @ [\<lparr>change_revision = r, change_key = key,
                               change_before = previous, change_after = next_doc\<rparr>])
       in plan_writes r commit_time writes docs' changes')"

definition plan_with_documents ::
    "State \<Rightarrow> clock \<Rightarrow> Write list \<Rightarrow> Documents \<Rightarrow> CommitError + CommitPlan" where
  "plan_with_documents st now writes docs =
     (let commit_time = next_commit_time st now in
      case checked_add_u64 (revision st) 1 of
        None \<Rightarrow> Inl RevisionExhausted
      | Some r \<Rightarrow>
          result_bind (plan_writes r commit_time writes docs []) (\<lambda>(docs', changes).
          Inr \<lparr>plan_result = \<lparr>result_revision = r, result_commit_time = commit_time\<rparr>,
               plan_documents = docs', plan_changes = changes\<rparr>))"

definition plan :: "State \<Rightarrow> clock \<Rightarrow> Write list \<Rightarrow> CommitError + CommitPlan" where
  "plan st now writes = plan_with_documents st now writes (documents st)"

section \<open>Scope indexes\<close>

text \<open>
  A validated key always has an immediate collection, so the \<open>expect\<close> of the code is the
  unreachable empty case.
\<close>

definition collection_key :: "DocumentKey \<Rightarrow> CollectionKey" where
  "collection_key key =
     (key_database key,
      case rsplit_once (CHR ''/'') (key_path key) of
        Some (collection_path, _) \<Rightarrow> collection_path | None \<Rightarrow> [])"

definition collection_group_key :: "DocumentKey \<Rightarrow> CollectionGroupKey" where
  "collection_group_key key =
     (key_database key,
      case rsplit_once (CHR ''/'') (key_path key) of
        Some (collection_path, _) \<Rightarrow> last (split_char (CHR ''/'') collection_path) | None \<Rightarrow> [])"

definition update_collection_index :: "CollectionIndex \<Rightarrow> DocumentKey \<Rightarrow> bool \<Rightarrow> CollectionIndex" where
  "update_collection_index index key present = index_update collection_key index key present"

definition update_collection_group_index ::
    "CollectionGroupIndex \<Rightarrow> DocumentKey \<Rightarrow> bool \<Rightarrow> CollectionGroupIndex" where
  "update_collection_group_index index key present =
     index_update collection_group_key index key present"

section \<open>Accounting\<close>

definition change_metadata_logical_bytes :: "Change \<Rightarrow> nat" where
  "change_metadata_logical_bytes change = sat_add (document_key_logical_bytes (change_key change)) 10"

definition usage_add :: "DocumentKey \<Rightarrow> Document option \<Rightarrow> LogicalMemoryUsage \<Rightarrow> LogicalMemoryUsage" where
  "usage_add key document usage =
     (case document of
        None \<Rightarrow> usage
      | Some d \<Rightarrow>
          \<lparr>usage_entries = sat_add (usage_entries usage) 1,
           usage_logical_bytes =
             sat_add (usage_logical_bytes usage) (document_entry_logical_bytes key d)\<rparr>)"

definition usage_sub :: "DocumentKey \<Rightarrow> Document option \<Rightarrow> LogicalMemoryUsage \<Rightarrow> LogicalMemoryUsage" where
  "usage_sub key document usage =
     (case document of
        None \<Rightarrow> usage
      | Some d \<Rightarrow>
          \<lparr>usage_entries = sat_sub (usage_entries usage) 1,
           usage_logical_bytes =
             sat_sub (usage_logical_bytes usage) (document_entry_logical_bytes key d)\<rparr>)"

definition apply_document_transition :: "LogicalMemoryUsage \<Rightarrow> Change \<Rightarrow> LogicalMemoryUsage" where
  "apply_document_transition usage change =
     usage_add (change_key change) (change_after change)
       (usage_sub (change_key change) (change_before change) usage)"

definition apply_reverse_document_transition :: "LogicalMemoryUsage \<Rightarrow> Change \<Rightarrow> LogicalMemoryUsage" where
  "apply_reverse_document_transition usage change =
     usage_add (change_key change) (change_before change)
       (usage_sub (change_key change) (change_after change) usage)"

section \<open>The bounded change log\<close>

definition add_replay_version :: "State \<Rightarrow> DocumentKey \<Rightarrow> Document option \<Rightarrow> State" where
  "add_replay_version st key document =
     (case document of
        None \<Rightarrow> st
      | Some d \<Rightarrow>
          (let version = (key, update_time d);
               bytes = document_entry_logical_bytes key d
           in case map_of (replay_versions st) version of
                Some entry \<Rightarrow>
                  st\<lparr>replay_versions := om_insert version
                       (entry\<lparr>retained_references := sat_add (retained_references entry) 1\<rparr>)
                       (replay_versions st)\<rparr>
              | None \<Rightarrow>
                  st\<lparr>replay_versions := om_insert version
                       \<lparr>retained_references = 1, retained_logical_bytes = bytes\<rparr>
                       (replay_versions st),
                     replay_versions_logical_bytes :=
                       sat_add (replay_versions_logical_bytes st) bytes\<rparr>))"

definition remove_replay_version :: "State \<Rightarrow> DocumentKey \<Rightarrow> Document option \<Rightarrow> State" where
  "remove_replay_version st key document =
     (case document of
        None \<Rightarrow> st
      | Some d \<Rightarrow>
          (let version = (key, update_time d)
           in case map_of (replay_versions st) version of
                None \<Rightarrow> st
              | Some entry \<Rightarrow>
                  (let left = sat_sub (retained_references entry) 1 in
                   if left = 0 then
                     st\<lparr>replay_versions := om_remove version (replay_versions st),
                        replay_versions_logical_bytes :=
                          sat_sub (replay_versions_logical_bytes st) (retained_logical_bytes entry)\<rparr>
                   else
                     st\<lparr>replay_versions := om_insert version
                          (entry\<lparr>retained_references := left\<rparr>) (replay_versions st)\<rparr>)))"

definition over_limit :: "State \<Rightarrow> bool" where
  "over_limit st =
     (max_change_log_entries (options st) < length (change_log st)
      \<or> max_change_log_logical_bytes (options st) < replay_versions_logical_bytes st)"

definition drop_oldest :: "State \<Rightarrow> Change \<Rightarrow> Change list \<Rightarrow> State" where
  "drop_oldest st removed rest =
     (let st = st\<lparr>change_log := rest,
                  change_log_logical_bytes :=
                    sat_sub (change_log_logical_bytes st) (change_metadata_logical_bytes removed)\<rparr>;
          st = remove_replay_version st (change_key removed) (change_before removed);
          st = remove_replay_version st (change_key removed) (change_after removed)
      in st\<lparr>change_floor := max (change_floor st) (change_revision removed)\<rparr>)"

partial_function (option) trim_change_log :: "State \<Rightarrow> State option" where
  "trim_change_log st =
     (if over_limit st then
        (case change_log st of
           [] \<Rightarrow> trim_change_log st
         | removed # rest \<Rightarrow> trim_change_log (drop_oldest st removed rest))
      else Some st)"

definition append_change :: "State \<Rightarrow> Change \<Rightarrow> State" where
  "append_change st change =
     (let st = st\<lparr>change_log_logical_bytes :=
                    sat_add (change_log_logical_bytes st) (change_metadata_logical_bytes change)\<rparr>;
          st = add_replay_version st (change_key change) (change_before change);
          st = add_replay_version st (change_key change) (change_after change)
      in st\<lparr>change_log := change_log st @ [change]\<rparr>)"

definition push_change :: "State \<Rightarrow> Change \<Rightarrow> State option" where
  "push_change st change = trim_change_log (append_change st change)"

fun drop_points_over :: "nat \<Rightarrow> CommitPoint list \<Rightarrow> CommitPoint \<Rightarrow> CommitPoint list \<times> CommitPoint" where
  "drop_points_over limit [] floor_point = ([], floor_point)"
| "drop_points_over limit (point # points) floor_point =
     (if limit < length (point # points) then drop_points_over limit points point
      else (point # points, floor_point))"

fun drop_points_upto :: "Revision \<Rightarrow> CommitPoint list \<Rightarrow> CommitPoint \<Rightarrow> CommitPoint list \<times> CommitPoint" where
  "drop_points_upto r [] floor_point = ([], floor_point)"
| "drop_points_upto r (point # points) floor_point =
     (if point_revision point \<le> r then drop_points_upto r points point
      else (point # points, floor_point))"

definition push_commit_point :: "State \<Rightarrow> CommitPoint \<Rightarrow> State" where
  "push_commit_point st point =
     (let (times, floor_point) =
            drop_points_over (max_change_log_entries (options st))
              (commit_times st @ [point]) (history_floor st);
          (times, floor_point) = drop_points_upto (change_floor st) times floor_point
      in st\<lparr>commit_times := times, history_floor := floor_point\<rparr>)"

section \<open>Installing a commit\<close>

definition index_change :: "State \<Rightarrow> Change \<Rightarrow> State" where
  "index_change st change =
     st\<lparr>collections := map_option
          (\<lambda>index. update_collection_index index (change_key change) (change_after change \<noteq> None))
          (collections st),
        collection_groups := map_option
          (\<lambda>index. update_collection_group_index index (change_key change) (change_after change \<noteq> None))
          (collection_groups st),
        current_documents := apply_document_transition (current_documents st) change\<rparr>"

fun install_changes :: "State \<Rightarrow> Change list \<Rightarrow> State option" where
  "install_changes st [] = Some st"
| "install_changes st (change # changes) =
     (case push_change (index_change st change) change of
        None \<Rightarrow> None
      | Some st' \<Rightarrow> install_changes st' changes)"

definition install_metadata :: "State \<Rightarrow> CommitResult \<Rightarrow> Change list \<Rightarrow> State option" where
  "install_metadata st result changes =
     map_option
       (\<lambda>st. push_commit_point st
          \<lparr>point_revision = result_revision result, point_commit_time = result_commit_time result\<rparr>)
       (install_changes
          (st\<lparr>revision := result_revision result, last_commit_time := result_commit_time result\<rparr>)
          changes)"

definition install :: "State \<Rightarrow> CommitPlan \<Rightarrow> State option" where
  "install st p =
     install_metadata (st\<lparr>documents := plan_documents p\<rparr>) (plan_result p) (plan_changes p)"

definition install_disk :: "State \<Rightarrow> CommitPlan \<Rightarrow> State option" where
  "install_disk st p =
     install_metadata (st\<lparr>documents := []\<rparr>) (plan_result p) (plan_changes p)"

text \<open>
  \<open>Store::commit\<close> on the memory backend: the result, the changes handed to the observers and
  the state that the lock guards afterwards. An error leaves the state as it was.
\<close>

definition commit :: "State \<Rightarrow> clock \<Rightarrow> Write list \<Rightarrow>
    ((CommitError + CommitResult \<times> Change list) \<times> State) option" where
  "commit st now writes =
     (case plan st now writes of
        Inl e \<Rightarrow> Some (Inl e, st)
      | Inr p \<Rightarrow> map_option (\<lambda>st'. (Inr (plan_result p, plan_changes p), st')) (install st p))"

section \<open>Reading history\<close>

definition newer_changes :: "Revision \<Rightarrow> Change list \<Rightarrow> Change list" where
  "newer_changes r log = filter (\<lambda>change. r < change_revision change) log"

definition document_usage_at_revision :: "State \<Rightarrow> Revision \<Rightarrow> LogicalMemoryUsage" where
  "document_usage_at_revision st r =
     foldr (\<lambda>change usage. apply_reverse_document_transition usage change)
       (newer_changes r (change_log st)) (current_documents st)"

definition unapply_change ::
    "Change \<Rightarrow> Documents \<times> CollectionIndex \<times> CollectionGroupIndex \<Rightarrow>
     Documents \<times> CollectionIndex \<times> CollectionGroupIndex" where
  "unapply_change change = (\<lambda>(docs, colls, groups).
     (om_assign (change_key change) (change_before change) docs,
      update_collection_index colls (change_key change) (change_before change \<noteq> None),
      update_collection_group_index groups (change_key change) (change_before change \<noteq> None)))"

text \<open>\<open>None\<close> is the panic of a store that keeps no scope indexes.\<close>

definition snapshot_at_revision :: "State \<Rightarrow> Revision \<Rightarrow> (SnapshotError + Snapshot) option" where
  "snapshot_at_revision st r =
     (if revision st < r then Some (Inl (FutureRevision r (revision st)))
      else if r < change_floor st then Some (Inl (ResetRequired r (change_floor st)))
      else
        case (collections st, collection_groups st) of
          (Some colls, Some groups) \<Rightarrow>
            (let (docs, colls, groups) =
                   foldr unapply_change (newer_changes r (change_log st))
                     (documents st, colls, groups)
             in Some (Inr \<lparr>snapshot_revision = r, snapshot_documents = docs,
                           snapshot_collections = colls, snapshot_collection_groups = groups,
                           snapshot_usage = document_usage_at_revision st r\<rparr>))
        | _ \<Rightarrow> None)"

definition revision_at_time :: "State \<Rightarrow> Timestamp \<Rightarrow> Revision" where
  "revision_at_time st read_time =
     (case takeWhile (\<lambda>point. point_commit_time point \<le> read_time) (commit_times st) of
        [] \<Rightarrow> point_revision (history_floor st)
      | point # points \<Rightarrow> point_revision (last (point # points)))"

definition snapshot_at_time :: "State \<Rightarrow> Timestamp \<Rightarrow> (SnapshotError + Snapshot) option" where
  "snapshot_at_time st read_time =
     (if read_time < point_commit_time (history_floor st) then
        Some (Inl (ReadTimeExpired read_time (point_commit_time (history_floor st))))
      else snapshot_at_revision st (revision_at_time st read_time))"

definition snapshot :: "State \<Rightarrow> Snapshot" where
  "snapshot st =
     \<lparr>snapshot_revision = revision st, snapshot_documents = documents st,
      snapshot_collections = (case collections st of None \<Rightarrow> [] | Some index \<Rightarrow> index),
      snapshot_collection_groups = (case collection_groups st of None \<Rightarrow> [] | Some index \<Rightarrow> index),
      snapshot_usage = current_documents st\<rparr>"

definition changes_since :: "State \<Rightarrow> Revision \<Rightarrow> SnapshotError + Change list" where
  "changes_since st after =
     (if after < change_floor st then Inl (ResetRequired after (change_floor st))
      else Inr (newer_changes after (change_log st)))"

text \<open>What the registered observers are told of a commit: nothing when nothing changed.\<close>

definition notify_commit_observers :: "'observer list \<Rightarrow> CommitResult \<Rightarrow> Change list \<Rightarrow>
    ('observer \<times> CommitResult \<times> Change list) list" where
  "notify_commit_observers observers result changes =
     (if changes = [] then [] else map (\<lambda>observer. (observer, result, changes)) observers)"

end
