(* ===== verification/Store_Log.thy ===== *)
theory Store_Log
  imports Store
begin

text \<open>
  The bounded change log of the store. The reference counts of the retained document versions
  never exceed the number of times the log mentions a version, and the byte total never exceeds
  the sum over the retained versions. Both hold with saturating counters, and they are what
  makes the eviction loop end: an empty log retains nothing.
\<close>

section \<open>Versions the log mentions\<close>

definition document_versions :: "DocumentKey \<Rightarrow> Document option \<Rightarrow> DocumentVersion list" where
  "document_versions key document =
     (case document of None \<Rightarrow> [] | Some d \<Rightarrow> [(key, update_time d)])"

definition change_versions :: "Change \<Rightarrow> DocumentVersion list" where
  "change_versions change =
     document_versions (change_key change) (change_before change)
     @ document_versions (change_key change) (change_after change)"

definition log_versions :: "Change list \<Rightarrow> DocumentVersion list" where
  "log_versions log = concat (map change_versions log)"

text \<open>
  The counters against a list of mentions, for any type of versions: \<open>bytes_total\<close> is the
  running byte count kept beside the map.
\<close>

definition counters_ok :: "'v::linorder list \<Rightarrow> ('v, RetainedVersion) ord_map \<Rightarrow> nat \<Rightarrow> bool" where
  "counters_ok mentions m bytes_total =
     (om_ok m
      \<and> (\<forall>v entry. map_of m v = Some entry \<longrightarrow>
            0 < retained_references entry \<and> retained_references entry \<le> count_list mentions v)
      \<and> bytes_total \<le> om_total retained_logical_bytes m)"

definition replay_ok :: "DocumentVersion list \<Rightarrow> State \<Rightarrow> bool" where
  "replay_ok mentions st = counters_ok mentions (replay_versions st) (replay_versions_logical_bytes st)"

lemma log_versions_simps [simp]:
  "log_versions [] = []"
  "log_versions (c # log) = change_versions c @ log_versions log"
  "log_versions (log @ log') = log_versions log @ log_versions log'"
  by (simp_all add: log_versions_def)

lemma counters_ok_empty: "counters_ok [] m bytes_total \<Longrightarrow> m = [] \<and> bytes_total = 0"
proof -
  assume ok: "counters_ok [] m bytes_total"
  then have "map_of m v = None" for v by (cases "map_of m v") (fastforce simp: counters_ok_def)+
  then have "m = []" by (metis map_of_eq_empty_iff ext)
  then show ?thesis using ok by (simp add: counters_ok_def)
qed

lemma counters_ok_new:
  assumes "counters_ok mentions m bytes_total" "map_of m v = None"
  shows "counters_ok (mentions @ [v])
    (om_insert v \<lparr>retained_references = 1, retained_logical_bytes = bytes\<rparr> m) (sat_add bytes_total bytes)"
  using assms om_total_insert [of m retained_logical_bytes v
      "\<lparr>retained_references = 1, retained_logical_bytes = bytes\<rparr>"]
  by (auto simp: counters_ok_def om_simps sat_add_def trans_le_add1)

lemma counters_ok_again:
  assumes "counters_ok mentions m bytes_total" "map_of m v = Some entry"
  shows "counters_ok (mentions @ [v])
    (om_insert v (entry\<lparr>retained_references := sat_add (retained_references entry) 1\<rparr>) m) bytes_total"
  using assms om_total_insert [of m retained_logical_bytes v
      "entry\<lparr>retained_references := sat_add (retained_references entry) 1\<rparr>"]
  by (auto simp: counters_ok_def om_simps sat_add_def u64_max_def trans_le_add1 min.coboundedI1)

lemma counters_ok_absent:
  assumes "counters_ok (v # mentions) m bytes_total" "map_of m v = None"
  shows "counters_ok mentions m bytes_total"
  using assms by (auto simp: counters_ok_def split: if_splits) (metis option.distinct(1))

lemma counters_ok_release:
  assumes "counters_ok (v # mentions) m bytes_total" "map_of m v = Some entry"
    "0 < sat_sub (retained_references entry) 1"
  shows "counters_ok mentions
    (om_insert v (entry\<lparr>retained_references := sat_sub (retained_references entry) 1\<rparr>) m) bytes_total"
  using assms om_total_insert [of m retained_logical_bytes v
      "entry\<lparr>retained_references := sat_sub (retained_references entry) 1\<rparr>"]
  by (fastforce simp: counters_ok_def om_simps sat_sub_def)

lemma counters_ok_last:
  assumes "counters_ok (v # mentions) m bytes_total" "map_of m v = Some entry"
  shows "counters_ok mentions (om_remove v m) (sat_sub bytes_total (retained_logical_bytes entry))"
  using assms om_total_remove [of m retained_logical_bytes v]
  by (fastforce simp: counters_ok_def om_simps sat_sub_def split: if_splits)

lemma replay_ok_add:
  assumes "replay_ok mentions st"
  shows "replay_ok (mentions @ document_versions key document) (add_replay_version st key document)"
  using assms counters_ok_new counters_ok_again
  by (auto simp: replay_ok_def add_replay_version_def document_versions_def Let_def
      split: option.splits)

lemma replay_ok_remove:
  assumes "replay_ok (document_versions key document @ mentions) st"
  shows "replay_ok mentions (remove_replay_version st key document)"
  using assms counters_ok_absent counters_ok_release counters_ok_last
  by (auto simp: replay_ok_def remove_replay_version_def document_versions_def Let_def
      split: option.splits)

section \<open>The eviction loop\<close>

text \<open>What pushing a change leaves alone.\<close>

definition frame where
  "frame st = (options st, revision st, last_commit_time st, documents st, collections st,
     collection_groups st, commit_times st, history_floor st, current_documents st)"

lemma replay_frame [simp]:
  "frame (add_replay_version st key document) = frame st"
  "frame (remove_replay_version st key document) = frame st"
  "change_log (add_replay_version st key document) = change_log st"
  "change_log (remove_replay_version st key document) = change_log st"
  "change_floor (add_replay_version st key document) = change_floor st"
  "change_floor (remove_replay_version st key document) = change_floor st"
  by (auto simp: frame_def add_replay_version_def remove_replay_version_def Let_def
      split: option.splits)

lemma frame_update [simp]:
  "frame (st\<lparr>change_log := log\<rparr>) = frame st"
  "frame (st\<lparr>change_floor := r\<rparr>) = frame st"
  "frame (st\<lparr>change_log_logical_bytes := n\<rparr>) = frame st"
  by (simp_all add: frame_def)

lemma drop_oldest_simps [simp]:
  "frame (drop_oldest st removed rest) = frame st"
  "change_log (drop_oldest st removed rest) = rest"
  "change_floor (drop_oldest st removed rest) = max (change_floor st) (change_revision removed)"
  by (simp_all add: drop_oldest_def Let_def)

lemma append_change_simps [simp]:
  "frame (append_change st change) = frame st"
  "change_log (append_change st change) = change_log st @ [change]"
  "change_floor (append_change st change) = change_floor st"
  by (simp_all add: append_change_def Let_def)

lemma replay_ok_update [simp]:
  "replay_ok mentions (st\<lparr>change_log := log\<rparr>) = replay_ok mentions st"
  "replay_ok mentions (st\<lparr>change_floor := r\<rparr>) = replay_ok mentions st"
  "replay_ok mentions (st\<lparr>change_log_logical_bytes := n\<rparr>) = replay_ok mentions st"
  by (simp_all add: replay_ok_def)

lemma replay_ok_drop_oldest:
  "replay_ok (log_versions (removed # rest)) st \<Longrightarrow> replay_ok (log_versions rest) (drop_oldest st removed rest)"
  by (simp add: drop_oldest_def Let_def change_versions_def replay_ok_remove)

lemma replay_ok_append:
  assumes "replay_ok (log_versions (change_log st)) st"
  shows "replay_ok (log_versions (change_log st @ [change])) (append_change st change)"
proof -
  let ?st = "st\<lparr>change_log_logical_bytes :=
    sat_add (change_log_logical_bytes st) (change_metadata_logical_bytes change)\<rparr>"
  have "replay_ok (log_versions (change_log st)) ?st" using assms by simp
  from replay_ok_add [OF replay_ok_add [OF this]] show ?thesis
    by (simp add: append_change_def Let_def change_versions_def)
qed

lemma empty_log_not_over: "change_log st = [] \<Longrightarrow> replay_ok [] st \<Longrightarrow> \<not> over_limit st"
  using counters_ok_empty by (fastforce simp: over_limit_def replay_ok_def)

text \<open>Evicting drops a prefix of the log and raises the floor to the revisions it held.\<close>

definition trimmed :: "State \<Rightarrow> State \<Rightarrow> bool" where
  "trimmed st st' =
     (frame st' = frame st
      \<and> (\<exists>removed. change_log st = removed @ change_log st'
            \<and> change_floor st' = fold max (map change_revision removed) (change_floor st)))"

lemma trimmed_refl [simp]: "trimmed st st"
  by (auto simp: trimmed_def)

lemma trimmed_drop:
  assumes "change_log st = removed # rest" "trimmed (drop_oldest st removed rest) st'"
  shows "trimmed st st'"
proof -
  from assms(2) obtain more where "rest = more @ change_log st'"
    "change_floor st' = fold max (map change_revision more) (max (change_floor st) (change_revision removed))"
    "frame st' = frame st"
    by (auto simp: trimmed_def)
  then show ?thesis using assms(1)
    by (auto simp: trimmed_def max.commute intro!: exI [of _ "removed # more"])
qed

lemma trim_returns:
  "replay_ok (log_versions (change_log st)) st \<Longrightarrow>
    \<exists>st'. trim_change_log st = Some st' \<and> trimmed st st'
      \<and> replay_ok (log_versions (change_log st')) st' \<and> \<not> over_limit st'"
proof (induction "change_log st" arbitrary: st)
  case Nil
  then have "\<not> over_limit st" using empty_log_not_over [of st] by simp
  then show ?case using Nil.prems by (simp add: trim_change_log.simps)
next
  case (Cons removed rest)
  show ?case
  proof (cases "over_limit st")
    case True
    have "replay_ok (log_versions rest) (drop_oldest st removed rest)"
      using Cons by (intro replay_ok_drop_oldest) simp
    then obtain st' where "trim_change_log (drop_oldest st removed rest) = Some st'"
      "trimmed (drop_oldest st removed rest) st'" "replay_ok (log_versions (change_log st')) st'"
      "\<not> over_limit st'"
      using Cons.hyps(1) [of "drop_oldest st removed rest"] by auto
    moreover have "trim_change_log st = trim_change_log (drop_oldest st removed rest)"
      using True Cons.hyps(2) [symmetric] by (subst trim_change_log.simps) simp
    ultimately show ?thesis using trimmed_drop Cons.hyps(2) by metis
  qed (use Cons.prems in \<open>simp add: trim_change_log.simps\<close>)
qed

lemma push_change_returns:
  assumes "replay_ok (log_versions (change_log st)) st"
  obtains st' where "push_change st change = Some st'" "trimmed (append_change st change) st'"
    "replay_ok (log_versions (change_log st')) st'" "\<not> over_limit st'"
  using trim_returns [of "append_change st change"] replay_ok_append [OF assms]
  by (auto simp: push_change_def)

section \<open>Installing changes\<close>

definition log_ok :: "State \<Rightarrow> bool" where
  "log_ok st = (replay_ok (log_versions (change_log st)) st \<and> \<not> over_limit st)"

lemma index_change_simps [simp]:
  "change_log (index_change st c) = change_log st"
  "change_floor (index_change st c) = change_floor st"
  "replay_ok mentions (index_change st c) = replay_ok mentions st"
  by (simp_all add: index_change_def replay_ok_def)

lemma frame_index_change: "frame s = frame s' \<Longrightarrow> frame (index_change s c) = frame (index_change s' c)"
  by (simp add: frame_def index_change_def)

lemma frame_index_changes:
  "frame s = frame s' \<Longrightarrow>
    frame (fold (\<lambda>c s. index_change s c) cs s) = frame (fold (\<lambda>c s. index_change s c) cs s')"
proof (induction cs arbitrary: s s')
  case (Cons c cs)
  from Cons.IH [OF frame_index_change [OF Cons.prems]] show ?case by simp
qed simp

text \<open>
  Installing always returns; the new log is a suffix of the old log with the changes appended,
  within the limits, and the floor is the highest revision that left it.
\<close>

lemma install_changes_returns:
  "log_ok st \<Longrightarrow>
    \<exists>st' removed. install_changes st cs = Some st' \<and> log_ok st'
      \<and> change_log st @ cs = removed @ change_log st'
      \<and> change_floor st' = fold max (map change_revision removed) (change_floor st)
      \<and> frame st' = frame (fold (\<lambda>c s. index_change s c) cs st)"
proof (induction cs arbitrary: st)
  case Nil
  then show ?case by auto
next
  case (Cons c cs)
  then have "replay_ok (log_versions (change_log (index_change st c))) (index_change st c)"
    by (simp add: log_ok_def)
  from push_change_returns [OF this, of c] obtain st1 where st1:
    "push_change (index_change st c) c = Some st1" "trimmed (append_change (index_change st c) c) st1"
    "log_ok st1"
    by (auto simp: log_ok_def)
  from st1(2) obtain dropped where dropped:
    "change_log st @ [c] = dropped @ change_log st1" "frame st1 = frame (index_change st c)"
    "change_floor st1 = fold max (map change_revision dropped) (change_floor st)"
    by (auto simp: trimmed_def)
  from Cons.IH [OF st1(3)] obtain st' removed where st':
    "install_changes st1 cs = Some st'" "log_ok st'" "change_log st1 @ cs = removed @ change_log st'"
    "change_floor st' = fold max (map change_revision removed) (change_floor st1)"
    "frame st' = frame (fold (\<lambda>c s. index_change s c) cs st1)"
    by auto
  have "change_log st @ c # cs = (dropped @ removed) @ change_log st'"
    using dropped(1) st'(3) by (metis append.assoc append_Cons append_Nil)
  moreover have "change_floor st' = fold max (map change_revision (dropped @ removed)) (change_floor st)"
    using dropped(3) st'(4) by simp
  moreover have "frame st' = frame (fold (\<lambda>c s. index_change s c) (c # cs) st)"
    using st'(5) frame_index_changes [OF dropped(2)] by simp
  moreover have "install_changes st (c # cs) = Some st'"
    using st1(1) st'(1) by simp
  ultimately show ?case using st'(2) by blast
qed

end
