(* ===== verification/Store_History.thy ===== *)
theory Store_History
  imports Store_Log
begin

text \<open>
  The store over time. A run is a sequence of commits, accepted or rejected, from an empty
  store; its history lists the documents and the commit time of every revision. The invariants
  here say what the bounded log, the scope indexes and the commit-time index mean in terms of
  that history.
\<close>

section \<open>What a plan records\<close>

definition change_transition :: "Change \<Rightarrow> (DocumentKey, Document) transition" where
  "change_transition change = (change_key change, change_before change, change_after change)"

abbreviation transitions :: "Change list \<Rightarrow> (DocumentKey, Document) transition list" where
  "transitions changes \<equiv> map change_transition changes"

lemma keys_transitions [simp]: "fst ` change_transition ` C = change_key ` C"
  by (simp add: change_transition_def image_image)

text \<open>
  A write keeps the document it found, or deletes it, or stamps the new one with the commit
  time.
\<close>

lemma apply_write_outcome:
  assumes "apply_write docs w t = Inr (k, next_doc)"
  shows "next_doc = map_of docs k \<or> next_doc = None \<or> (\<exists>d. next_doc = Some d \<and> update_time d = t)"
  using assms by (cases w) (auto simp: Let_def split: if_splits)

text \<open>
  Equality of documents as the code compares them is coarser than identity: it does not see
  the sign of a zero. An unrecorded difference therefore needs a document that this very commit
  has stamped, and then an earlier change of the same commit records its key.
\<close>

definition stamped_recorded :: "Timestamp \<Rightarrow> Documents \<Rightarrow> Change list \<Rightarrow> bool" where
  "stamped_recorded t docs changes =
     (\<forall>k d. map_of docs k = Some d \<longrightarrow> update_time d = t \<longrightarrow> k \<in> change_key ` set changes)"

lemma option_document_eq_cases:
  assumes "option_document_eq a b"
  obtains "a = None" "b = None" | p q where "a = Some p" "b = Some q" "update_time p = update_time q"
  using assms by (cases "(a, b)" rule: option_document_eq.cases) (auto simp: document_eq_def)

lemma plan_writes_step:
  assumes ok: "om_ok docs" and stamped: "stamped_recorded t docs changes"
    and w: "apply_write docs w t = Inr (k, next_doc)"
    and changes': "changes' = (if option_document_eq (map_of docs k) next_doc then changes
      else changes @ [\<lparr>change_revision = r, change_key = k,
                        change_before = map_of docs k, change_after = next_doc\<rparr>])"
  shows "undo om_assign (transitions changes') (om_assign k next_doc docs)
      = undo om_assign (transitions changes) docs"
    and "stamped_recorded t (om_assign k next_doc docs) changes'"
proof -
  note outcome = apply_write_outcome [OF w]
  show "undo om_assign (transitions changes') (om_assign k next_doc docs)
      = undo om_assign (transitions changes) docs"
  proof (cases "option_document_eq (map_of docs k) next_doc")
    case False
    then show ?thesis using changes' om.assign_back [OF ok, of k next_doc]
      by (simp add: change_transition_def)
  next
    case eq: True
    show ?thesis
    proof (cases "next_doc = map_of docs k")
      case True
      then show ?thesis using changes' eq om.assign_back [OF ok, of k "map_of docs k"]
          om.assign_again [OF ok, of k] by simp
    next
      case False
      with eq outcome obtain p q where "map_of docs k = Some p" "next_doc = Some q"
        "update_time p = update_time q" "update_time q = t"
        by (elim option_document_eq_cases) auto
      then have "k \<in> fst ` set (transitions changes)"
        using stamped by (auto simp: stamped_recorded_def)
      then show ?thesis using changes' eq om.undo_assign_touched [OF ok] by simp
    qed
  qed
  show "stamped_recorded t (om_assign k next_doc docs) changes'"
    using stamped changes'
    by (auto simp: stamped_recorded_def om_simps split: if_splits elim!: option_document_eq_cases)
qed

lemma plan_writes_undo:
  "plan_writes r t writes docs changes = Inr (docs', changes') \<Longrightarrow> om_ok docs \<Longrightarrow>
    stamped_recorded t docs changes \<Longrightarrow>
    om_ok docs' \<and> undo om_assign (transitions changes') docs' = undo om_assign (transitions changes) docs"
proof (induction writes arbitrary: docs changes)
  case (Cons w writes)
  from Cons.prems(1) obtain k next_doc where w: "apply_write docs w t = Inr (k, next_doc)"
    by (auto simp: Let_def)
  define cs where "cs = (if option_document_eq (map_of docs k) next_doc then changes
      else changes @ [\<lparr>change_revision = r, change_key = k,
                        change_before = map_of docs k, change_after = next_doc\<rparr>])"
  note step = plan_writes_step [OF Cons.prems(2,3) w cs_def]
  have "plan_writes r t writes (om_assign k next_doc docs) cs = Inr (docs', changes')"
    using Cons.prems(1) w by (simp add: Let_def cs_def)
  from Cons.IH [OF this _ step(2)] step(1) Cons.prems(2) show ?case by simp
qed simp

text \<open>The recorded changes carry the new revision, and they maintain every index exactly.\<close>

definition index_changes :: "(DocumentKey \<Rightarrow> 'c::linorder) \<Rightarrow> Change list \<Rightarrow>
    ('c, DocumentKey ord_set) ord_map \<Rightarrow> ('c, DocumentKey ord_set) ord_map" where
  "index_changes scope changes index =
     fold (\<lambda>c i. index_update scope i (change_key c) (change_after c \<noteq> None)) changes index"

lemma index_changes_simps:
  "index_changes scope [] = (\<lambda>index. index)"
  "index_changes scope (c # cs) =
    (\<lambda>index. index_changes scope cs (index_update scope index (change_key c) (change_after c \<noteq> None)))"
  by (auto simp: index_changes_def)

lemma index_ok_same_keys:
  assumes "om_ok m" "map_of m k = Some p" "index_ok scope m index"
  shows "index_ok scope (om_insert k q m) index"
proof -
  have "scope_keys scope (om_insert k q m) = scope_keys scope m"
  proof
    fix c show "scope_keys scope (om_insert k q m) c = scope_keys scope m c"
      using assms(1,2) by (intro os_ext) (auto simp: set_scope_keys om_simps)
  qed
  then show ?thesis using assms(3) by (simp add: index_ok_def)
qed

lemma plan_writes_ok: "plan_writes r t writes docs changes = Inr (docs', changes') \<Longrightarrow> om_ok docs \<Longrightarrow> om_ok docs'"
proof (induction writes arbitrary: docs changes)
  case (Cons w writes)
  then show ?case by (auto simp: Let_def simp del: om_assign.simps intro: Cons.IH [OF _ om_ok_assign])
qed simp

lemma plan_writes_changes:
  "plan_writes r t writes docs changes = Inr (docs', changes') \<Longrightarrow> om_ok docs \<Longrightarrow>
    \<exists>more. changes' = changes @ more \<and> (\<forall>c\<in>set more. change_revision c = r)
      \<and> (\<forall>index. index_ok scope docs index \<longrightarrow> index_ok scope docs' (index_changes scope more index))"
proof (induction writes arbitrary: docs changes)
  case Nil
  then show ?case by (simp add: index_changes_def)
next
  case (Cons w writes)
  from Cons.prems(1) obtain k next_doc where w: "apply_write docs w t = Inr (k, next_doc)"
    by (auto simp: Let_def)
  let ?docs = "om_assign k next_doc docs"
  let ?c = "\<lparr>change_revision = r, change_key = k, change_before = map_of docs k, change_after = next_doc\<rparr>"
  show ?case
  proof (cases "option_document_eq (map_of docs k) next_doc")
    case True
    then have "index_ok scope ?docs index" if "index_ok scope docs index" for index
      using that Cons.prems(2) index_ok_same_keys
      by (elim option_document_eq_cases) (auto simp: om_remove_absent)
    moreover from Cons.prems w True have "plan_writes r t writes ?docs changes = Inr (docs', changes')"
      by (simp add: Let_def)
    from Cons.IH [OF this] Cons.prems(2) obtain more where
      "changes' = changes @ more" "\<forall>c\<in>set more. change_revision c = r"
      "\<forall>index. index_ok scope ?docs index \<longrightarrow> index_ok scope docs' (index_changes scope more index)"
      by auto
    ultimately show ?thesis by blast
  next
    case False
    with Cons.prems w have "plan_writes r t writes ?docs (changes @ [?c]) = Inr (docs', changes')"
      by (simp add: Let_def)
    from Cons.IH [OF this] Cons.prems(2) obtain more where more:
      "changes' = changes @ ?c # more" "\<forall>c\<in>set more. change_revision c = r"
      "\<And>index. index_ok scope ?docs index \<Longrightarrow> index_ok scope docs' (index_changes scope more index)"
      by auto
    show ?thesis
    proof (intro exI [of _ "?c # more"] conjI allI impI)
      fix index assume "index_ok scope docs index"
      from more(3) [OF index_update_ok [OF Cons.prems(2) this]]
      show "index_ok scope docs' (index_changes scope (?c # more) index)"
        by (simp add: index_changes_def)
    qed (use more in auto)
  qed
qed

section \<open>The effect of a commit\<close>

lemma fold_index_change:
  "collections (fold (\<lambda>c s. index_change s c) cs st) =
    map_option (index_changes collection_key cs) (collections st)"
  "collection_groups (fold (\<lambda>c s. index_change s c) cs st) =
    map_option (index_changes collection_group_key cs) (collection_groups st)"
  "options (fold (\<lambda>c s. index_change s c) cs st) = options st"
  "revision (fold (\<lambda>c s. index_change s c) cs st) = revision st"
  "last_commit_time (fold (\<lambda>c s. index_change s c) cs st) = last_commit_time st"
  "documents (fold (\<lambda>c s. index_change s c) cs st) = documents st"
  "commit_times (fold (\<lambda>c s. index_change s c) cs st) = commit_times st"
  "history_floor (fold (\<lambda>c s. index_change s c) cs st) = history_floor st"
  by (induction cs arbitrary: st)
    (simp_all add: index_changes_simps index_change_def update_collection_index_def
      update_collection_group_index_def option.map_comp o_def option.map_ident)

lemma frame_eqD:
  assumes "frame s = frame s'"
  shows "options s = options s'" "revision s = revision s'" "last_commit_time s = last_commit_time s'"
    "documents s = documents s'" "collections s = collections s'"
    "collection_groups s = collection_groups s'" "commit_times s = commit_times s'"
    "history_floor s = history_floor s'"
  using assms by (auto simp: frame_def)

lemma push_commit_point_simps [simp]:
  "options (push_commit_point st p) = options st"
  "revision (push_commit_point st p) = revision st"
  "last_commit_time (push_commit_point st p) = last_commit_time st"
  "documents (push_commit_point st p) = documents st"
  "collections (push_commit_point st p) = collections st"
  "collection_groups (push_commit_point st p) = collection_groups st"
  "change_log (push_commit_point st p) = change_log st"
  "change_floor (push_commit_point st p) = change_floor st"
  "log_ok (push_commit_point st p) = log_ok st"
  by (simp_all add: push_commit_point_def log_ok_def replay_ok_def over_limit_def split: prod.splits)

lemma log_ok_update [simp]:
  "log_ok (st\<lparr>documents := docs\<rparr>) = log_ok st"
  "log_ok (st\<lparr>revision := r\<rparr>) = log_ok st"
  "log_ok (st\<lparr>last_commit_time := t\<rparr>) = log_ok st"
  by (simp_all add: log_ok_def replay_ok_def over_limit_def)

text \<open>What an accepted commit does, in terms of its plan.\<close>

definition committed :: "State \<Rightarrow> clock \<Rightarrow> Write list \<Rightarrow> Change list \<Rightarrow> State \<Rightarrow> bool" where
  "committed st now writes changes st' =
     (revision st' = Suc (revision st) \<and> last_commit_time st' = next_commit_time st now
      \<and> plan_writes (Suc (revision st)) (next_commit_time st now) writes (documents st) []
          = Inr (documents st', changes)
      \<and> options st' = options st \<and> log_ok st'
      \<and> collections st' = map_option (index_changes collection_key changes) (collections st)
      \<and> collection_groups st' = map_option (index_changes collection_group_key changes) (collection_groups st)
      \<and> (\<exists>removed. change_log st @ changes = removed @ change_log st'
            \<and> change_floor st' = fold max (map change_revision removed) (change_floor st))
      \<and> (\<exists>mid. commit_times mid = commit_times st \<and> history_floor mid = history_floor st
            \<and> change_floor mid = change_floor st' \<and> options mid = options st
            \<and> st' = push_commit_point mid
                \<lparr>point_revision = revision st', point_commit_time = last_commit_time st'\<rparr>))"

lemma install_returns:
  assumes "log_ok st"
    and "plan st now writes = Inr p"
  shows "\<exists>st'. install st p = Some st' \<and> committed st now writes (plan_changes p) st'
    \<and> plan_result p = \<lparr>result_revision = revision st', result_commit_time = last_commit_time st'\<rparr>"
proof -
  let ?r = "Suc (revision st)" and ?t = "next_commit_time st now"
  let ?base = "st\<lparr>documents := plan_documents p, revision := ?r, last_commit_time := ?t\<rparr>"
  from assms(2) have p: "plan_result p = \<lparr>result_revision = ?r, result_commit_time = ?t\<rparr>"
    "plan_writes ?r ?t writes (documents st) [] = Inr (plan_documents p, plan_changes p)"
    by (auto simp: plan_def plan_with_documents_def Let_def checked_add_u64_def
        split: option.splits if_splits)
  from assms(1) have "log_ok ?base" by simp
  from install_changes_returns [OF this, of "plan_changes p"] obtain mid removed where mid:
    "install_changes ?base (plan_changes p) = Some mid" "log_ok mid"
    "change_log st @ plan_changes p = removed @ change_log mid"
    "change_floor mid = fold max (map change_revision removed) (change_floor st)"
    "frame mid = frame (fold (\<lambda>c s. index_change s c) (plan_changes p) ?base)"
    by auto
  note fr = frame_eqD [OF mid(5), unfolded fold_index_change]
  let ?st' = "push_commit_point mid \<lparr>point_revision = ?r, point_commit_time = ?t\<rparr>"
  have "install st p = Some ?st'"
    using mid(1) p(1) by (simp add: install_def install_metadata_def)
  moreover have "committed st now writes (plan_changes p) ?st'"
    unfolding committed_def using mid(2-4) fr p(2)
    by (intro conjI exI [of _ removed] exI [of _ mid]) simp_all
  ultimately show ?thesis using p(1) fr by (intro exI [of _ ?st']) simp
qed

lemma commit_returns:
  assumes "log_ok st"
  obtains e where "commit st now writes = Some (Inl e, st)"
  | st' changes where
      "commit st now writes = Some (Inr (\<lparr>result_revision = revision st',
          result_commit_time = last_commit_time st'\<rparr>, changes), st')"
      "committed st now writes changes st'"
  using assms install_returns [of st now writes]
  by (cases "plan st now writes") (auto simp: commit_def)

lemma commit_committed:
  assumes "log_ok st" "commit st now writes = Some (Inr (result, changes), st')"
  shows "committed st now writes changes st'
    \<and> result = \<lparr>result_revision = revision st', result_commit_time = last_commit_time st'\<rparr>"
  using commit_returns [OF assms(1), of now writes] assms(2) by fastforce

lemma fold_max_le: "fold max xs (a :: nat) \<le> b \<longleftrightarrow> a \<le> b \<and> (\<forall>x\<in>set xs. x \<le> b)"
  by (induction xs arbitrary: a) auto

lemma fold_max_ge: "(a :: nat) \<le> fold max xs a"
  using fold_max_le [of xs a "fold max xs a"] by simp

lemma committedD:
  assumes "committed st now writes changes st'"
  shows "revision st' = Suc (revision st)" "last_commit_time st' = next_commit_time st now"
    "change_floor st \<le> change_floor st'" "log_ok st'"
  using assms unfolding committed_def by (auto simp: fold_max_ge)

section \<open>The commit-time index\<close>

text \<open>
  The floor and the retained points name every revision from the floor to the newest one, each
  with the time of its commit.
\<close>

definition points_cover :: "(Revision \<Rightarrow> Timestamp) \<Rightarrow> CommitPoint \<Rightarrow> CommitPoint list \<Rightarrow> Revision \<Rightarrow> bool" where
  "points_cover time floor_point points r =
     (map point_revision points = [Suc (point_revision floor_point)..<Suc r]
      \<and> point_revision floor_point \<le> r
      \<and> (\<forall>p\<in>set (floor_point # points). point_commit_time p = time (point_revision p)))"

lemma points_cover_pop:
  assumes "points_cover time floor_point (p # points) r"
  shows "points_cover time p points r" "point_revision p = Suc (point_revision floor_point)"
proof -
  have "[Suc (point_revision floor_point)..<Suc r] = point_revision p # map point_revision points"
    using assms by (simp add: points_cover_def)
  then have p: "point_revision p = Suc (point_revision floor_point)" "Suc (point_revision floor_point) \<le> r"
    "map point_revision points = [Suc (Suc (point_revision floor_point))..<Suc r]"
    by (auto simp: upt_eq_Cons_conv simp del: upt_Suc)
  then show "points_cover time p points r"
    using assms unfolding points_cover_def by (metis list.set_intros(2))
  show "point_revision p = Suc (point_revision floor_point)" by (rule p(1))
qed

lemma points_cover_drop_over:
  "points_cover time floor_point points r \<Longrightarrow> drop_points_over limit points floor_point = (points', floor') \<Longrightarrow>
    points_cover time floor' points' r \<and> length points' \<le> limit"
  by (induction limit points floor_point rule: drop_points_over.induct)
    (auto split: if_splits dest: points_cover_pop(1))

lemma points_cover_drop_upto:
  "points_cover time floor_point points r \<Longrightarrow> drop_points_upto c points floor_point = (points', floor') \<Longrightarrow>
    points_cover time floor' points' r \<and> length points' \<le> length points
      \<and> (\<forall>p. points' \<noteq> [] \<longrightarrow> c < point_revision (hd points'))"
proof (induction c points floor_point rule: drop_points_upto.induct)
  case (2 c p points floor_point)
  then show ?case using points_cover_pop(1) [OF 2(2)]
    by (cases "point_revision p \<le> c") (auto intro: le_SucI)
qed auto

lemma points_cover_append:
  assumes "points_cover time floor_point points r" "point_revision p = Suc r"
    "point_commit_time p = time (Suc r)"
  shows "points_cover time floor_point (points @ [p]) (Suc r)"
  using assms by (auto simp: points_cover_def)

lemma push_commit_point_cover:
  assumes "points_cover time (history_floor mid) (commit_times mid) r" "change_floor mid \<le> Suc r"
    "point_revision p = Suc r" "point_commit_time p = time (Suc r)"
  shows "points_cover time (history_floor (push_commit_point mid p)) (commit_times (push_commit_point mid p)) (Suc r)
    \<and> change_floor mid \<le> point_revision (history_floor (push_commit_point mid p))
    \<and> length (commit_times (push_commit_point mid p)) \<le> max_change_log_entries (options mid)"
proof -
  obtain points1 floor1 where first: "drop_points_over (max_change_log_entries (options mid))
      (commit_times mid @ [p]) (history_floor mid) = (points1, floor1)" by fastforce
  obtain points2 floor2 where second: "drop_points_upto (change_floor mid) points1 floor1 = (points2, floor2)"
    by fastforce
  have 1: "points_cover time floor1 points1 (Suc r)" "length points1 \<le> max_change_log_entries (options mid)"
    using points_cover_drop_over [OF points_cover_append [OF assms(1,3,4)] first] by auto
  have 2: "points_cover time floor2 points2 (Suc r)" "length points2 \<le> length points1"
    "points2 \<noteq> [] \<Longrightarrow> change_floor mid < point_revision (hd points2)"
    using points_cover_drop_upto [OF 1(1) second] by auto
  have "change_floor mid \<le> point_revision floor2"
  proof (cases points2)
    case Nil
    then have "\<not> point_revision floor2 < Suc r"
      using 2(1) by (auto simp: points_cover_def eq_commute [of "[]"] simp del: upt_Suc)
    then show ?thesis using assms(2) by simp
  next
    case (Cons q qs)
    then have "[Suc (point_revision floor2)..<Suc (Suc r)] = point_revision q # map point_revision qs"
      using 2(1) by (simp add: points_cover_def del: upt_Suc)
    then show ?thesis using 2(3) Cons by (simp add: upt_eq_Cons_conv del: upt_Suc)
  qed
  then show ?thesis using 1 2 first second by (simp add: push_commit_point_def)
qed

section \<open>Commit times\<close>

definition clock_ok :: "clock \<Rightarrow> bool" where
  "clock_ok now = (snd now < 1000000)"

text \<open>The representable end of time has not been reached.\<close>

definition ticking :: "State \<Rightarrow> bool" where
  "ticking st = (seconds (last_commit_time st) < i64_max)"

lemma observed_time_ok: "clock_ok now \<Longrightarrow> timestamp_ok (observed_time now)"
  by (auto simp: observed_time_def clock_ok_def timestamp_ok_def in_i64_def i64_max_def i64_min_def)

lemma next_commit_time_ok:
  "timestamp_ok (last_commit_time st) \<Longrightarrow> clock_ok now \<Longrightarrow> timestamp_ok (next_commit_time st now)"
  using next_microsecond_ok [of "last_commit_time st"] observed_time_ok [of now]
  by (simp add: next_commit_time_def)

lemma next_commit_time_greater:
  "timestamp_ok (last_commit_time st) \<Longrightarrow> ticking st \<Longrightarrow> last_commit_time st < next_commit_time st now"
  by (auto simp: next_commit_time_def ticking_def timestamp_ok_def in_i64_def intro: next_microsecond_greater)

lemma next_commit_time_seconds:
  assumes "timestamp_ok (last_commit_time st)"
  shows "seconds (last_commit_time st) \<le> seconds (next_commit_time st now)"
  using assms by (auto simp: next_commit_time_def less_Timestamp_iff saturating_next_microsecond_def Let_def
      sat_add_i64_def clamp_i64_def timestamp_ok_def in_i64_def)

section \<open>Runs\<close>

type_synonym history = "(Documents \<times> Timestamp) list"

inductive store_run :: "StoreOptions \<Rightarrow> history \<Rightarrow> State \<Rightarrow> bool" for opts where
  run_new: "store_run opts [([], epoch)] (State_new opts)"
| run_commit: "store_run opts hist st \<Longrightarrow> clock_ok now \<Longrightarrow>
    commit st now writes = Some (Inr (result, changes), st') \<Longrightarrow>
    store_run opts (hist @ [(documents st', last_commit_time st')]) st'"
| run_reject: "store_run opts hist st \<Longrightarrow> clock_ok now \<Longrightarrow>
    commit st now writes = Some (Inl e, st') \<Longrightarrow> store_run opts hist st'"

definition store_ok :: "history \<Rightarrow> State \<Rightarrow> bool" where
  "store_ok hist st =
     (length hist = Suc (revision st) \<and> hist ! revision st = (documents st, last_commit_time st)
      \<and> om_ok (documents st) \<and> log_ok st \<and> timestamp_ok (last_commit_time st)
      \<and> change_floor st \<le> point_revision (history_floor st)
      \<and> length (commit_times st) \<le> max_change_log_entries (options st)
      \<and> (\<forall>c\<in>set (change_log st). change_revision c \<le> revision st)
      \<and> points_cover (\<lambda>r. snd (hist ! r)) (history_floor st) (commit_times st) (revision st)
      \<and> (\<exists>index. collections st = Some index \<and> index_ok collection_key (documents st) index)
      \<and> (\<exists>index. collection_groups st = Some index
            \<and> index_ok collection_group_key (documents st) index))"

lemma store_okD:
  assumes "store_ok hist st"
  shows "length hist = Suc (revision st)" "hist ! revision st = (documents st, last_commit_time st)"
    "om_ok (documents st)" "log_ok st" "timestamp_ok (last_commit_time st)"
    "change_floor st \<le> point_revision (history_floor st)" "change_floor st \<le> revision st"
    "\<And>c. c \<in> set (change_log st) \<Longrightarrow> change_revision c \<le> revision st"
    "points_cover (\<lambda>r. snd (hist ! r)) (history_floor st) (commit_times st) (revision st)"
    "length (commit_times st) \<le> max_change_log_entries (options st)"
  using assms by (auto simp: store_ok_def points_cover_def)

lemma log_ok_new: "log_ok (State_new opts)"
  by (simp add: log_ok_def State_new_def replay_ok_def counters_ok_def over_limit_def)

lemma store_ok_new: "store_ok [([], epoch)] (State_new opts)"
  using log_ok_new [of opts]
  by (simp add: store_ok_def State_new_def points_cover_def epoch_def timestamp_ok_def in_i64_def
      i64_max_def i64_min_def)

lemma points_cover_cong:
  assumes "points_cover time floor_point points r" "\<And>s. s \<le> r \<Longrightarrow> time s = time' s"
  shows "points_cover time' floor_point points r"
proof -
  have "set (map point_revision points) = set [Suc (point_revision floor_point)..<Suc r]"
    using assms(1) by (simp only: points_cover_def)
  then have "point_revision p \<le> r" if "p \<in> set points" for p
    using that by (metis atLeastLessThan_iff image_eqI less_Suc_eq_le set_map set_upt)
  then show ?thesis using assms by (auto simp: points_cover_def)
qed

lemma committed_changes:
  assumes "om_ok (documents st)" "committed st now writes changes st'"
  shows "\<And>c. c \<in> set changes \<Longrightarrow> change_revision c = revision st'"
    and "index_ok scope (documents st) index \<Longrightarrow>
      index_ok scope (documents st') (index_changes scope changes index)"
  using assms plan_writes_changes [of "Suc (revision st)" "next_commit_time st now" writes
      "documents st" "[]" "documents st'" changes scope]
  by (auto simp: committed_def)

lemma store_ok_commit:
  assumes ok: "store_ok hist st" and clock: "clock_ok now" and com: "committed st now writes changes st'"
  shows "store_ok (hist @ [(documents st', last_commit_time st')]) st'"
proof -
  note o = store_okD [OF ok]
  let ?time = "\<lambda>r. snd ((hist @ [(documents st', last_commit_time st')]) ! r)"
  obtain removed where removed: "change_log st @ changes = removed @ change_log st'"
    "change_floor st' = fold max (map change_revision removed) (change_floor st)"
    using com by (auto simp: committed_def)
  have revs: "change_revision c \<le> revision st'" if "c \<in> set (removed @ change_log st')" for c
  proof -
    have "c \<in> set (change_log st) \<or> c \<in> set changes" using that removed(1) by (metis Un_iff set_append)
    then show ?thesis
      using o(8) committed_changes(1) [OF o(3) com] com by (fastforce simp: committed_def)
  qed
  then have floor: "change_floor st' \<le> revision st'"
    using o(7) com by (auto simp: removed(2) fold_max_le committed_def)
  define p where "p = \<lparr>point_revision = revision st', point_commit_time = last_commit_time st'\<rparr>"
  obtain mid where mid: "commit_times mid = commit_times st" "history_floor mid = history_floor st"
    "change_floor mid = change_floor st'" "st' = push_commit_point mid p" "options mid = options st"
    using com unfolding committed_def p_def by blast
  have rev': "revision st' = Suc (revision st)" "?time (revision st') = last_commit_time st'"
    using com o(1) by (auto simp: committed_def nth_append)
  have "points_cover ?time (history_floor mid) (commit_times mid) (revision st)"
    using o(9) o(1) mid(1,2) by (auto simp: nth_append intro: points_cover_cong)
  moreover have "options st' = options mid" using com mid(5) by (simp add: committed_def)
  ultimately have "points_cover ?time (history_floor st') (commit_times st') (revision st')"
    "change_floor st' \<le> point_revision (history_floor st')"
    "length (commit_times st') \<le> max_change_log_entries (options st')"
    using push_commit_point_cover [of ?time mid "revision st" p, folded mid(4)] floor mid(3) rev'
    by (simp_all add: p_def)
  moreover have "om_ok (documents st')"
    using com plan_writes_ok [OF _ o(3)] by (auto simp: committed_def)
  moreover have "log_ok st'" "timestamp_ok (last_commit_time st')"
    using com next_commit_time_ok [OF o(5) clock] by (auto simp: committed_def)
  moreover have
    "\<exists>index. collections st' = Some index \<and> index_ok collection_key (documents st') index"
    "\<exists>index. collection_groups st' = Some index \<and> index_ok collection_group_key (documents st') index"
    using ok com committed_changes(2) [OF o(3) com] by (auto simp: committed_def store_ok_def)
  ultimately show ?thesis
    using revs o(1) rev' unfolding store_ok_def by (auto simp: nth_append)
qed

text \<open>
  Before the end of time: undoing the newer changes of the log gives the documents of any
  revision at or above the floor, no document is stamped later than the last commit, and
  commit times strictly increase.
\<close>

definition history_ok :: "history \<Rightarrow> State \<Rightarrow> bool" where
  "history_ok hist st =
     ((\<forall>r. change_floor st \<le> r \<longrightarrow> r \<le> revision st \<longrightarrow>
         undo om_assign (transitions (newer_changes r (change_log st))) (documents st) = fst (hist ! r))
      \<and> (\<forall>k d. map_of (documents st) k = Some d \<longrightarrow> update_time d \<le> last_commit_time st)
      \<and> sorted_wrt (<) (map snd hist))"

lemma plan_writes_stamps:
  "plan_writes r t writes docs changes = Inr (docs', changes') \<Longrightarrow>
    (\<forall>k d. map_of docs k = Some d \<longrightarrow> update_time d \<le> t) \<Longrightarrow>
    (\<forall>k d. map_of docs' k = Some d \<longrightarrow> update_time d \<le> t)"
proof (induction writes arbitrary: docs changes)
  case (Cons w writes)
  from Cons.prems(1) obtain k next_doc changes1 where w: "apply_write docs w t = Inr (k, next_doc)"
    and rest: "plan_writes r t writes (om_assign k next_doc docs) changes1 = Inr (docs', changes')"
    by (auto simp: Let_def)
  have "\<forall>j d. map_of (om_assign k next_doc docs) j = Some d \<longrightarrow> update_time d \<le> t"
    using apply_write_outcome [OF w] Cons.prems(2) by (auto simp: get_om_assign)
  from Cons.IH [OF rest this] show ?case .
qed simp

lemma newer_changes_append [simp]:
  "newer_changes r (log @ log') = newer_changes r log @ newer_changes r log'"
  by (simp add: newer_changes_def)

lemma newer_changes_none: "\<forall>c\<in>set log. change_revision c \<le> r \<Longrightarrow> newer_changes r log = []"
  by (auto simp: newer_changes_def filter_empty_conv)

lemma newer_changes_all: "\<forall>c\<in>set log. r < change_revision c \<Longrightarrow> newer_changes r log = log"
  by (auto simp: newer_changes_def)

lemma committed_newer:
  assumes "om_ok (documents st)" "committed st now writes changes st'" "change_floor st' \<le> r" "r \<le> revision st"
  shows "newer_changes r (change_log st') = newer_changes r (change_log st) @ changes"
proof -
  obtain removed where removed: "change_log st @ changes = removed @ change_log st'"
    "change_floor st' = fold max (map change_revision removed) (change_floor st)"
    using assms(2) by (auto simp: committed_def)
  have "newer_changes r removed = []"
    using assms(3) by (intro newer_changes_none) (simp add: removed(2) fold_max_le)
  moreover have "newer_changes r changes = changes"
    using committed_changes(1) [OF assms(1,2)] assms(2,4)
    by (intro newer_changes_all) (auto simp: committed_def)
  ultimately show ?thesis using arg_cong [OF removed(1), of "newer_changes r"] by simp
qed

lemma committed_undo:
  assumes "store_ok hist st" "history_ok hist st" "ticking st" "committed st now writes changes st'"
  shows "undo om_assign (transitions changes) (documents st') = documents st"
proof -
  note o = store_okD [OF assms(1)]
  have "update_time d < next_commit_time st now" if "map_of (documents st) k = Some d" for k d
    using that assms(2) next_commit_time_greater [OF o(5) assms(3), of now]
    by (fastforce simp: history_ok_def)
  then have "stamped_recorded (next_commit_time st now) (documents st) []"
    by (fastforce simp: stamped_recorded_def)
  with plan_writes_undo [OF _ o(3) this] assms(4) show ?thesis by (auto simp: committed_def)
qed

lemma history_ok_commit:
  assumes ok: "store_ok hist st" "history_ok hist st" and tick: "ticking st"
    and com: "committed st now writes changes st'"
    and ok': "store_ok (hist @ [(documents st', last_commit_time st')]) st'"
  shows "history_ok (hist @ [(documents st', last_commit_time st')]) st'"
proof -
  note o = store_okD [OF ok(1)] and o' = store_okD [OF ok']
  let ?t = "next_commit_time st now"
  have later: "last_commit_time st < ?t" using next_commit_time_greater [OF o(5) tick] .
  note st' = committedD [OF com]
  have "undo om_assign (transitions (newer_changes r (change_log st'))) (documents st')
      = fst ((hist @ [(documents st', last_commit_time st')]) ! r)"
    if "change_floor st' \<le> r" "r \<le> revision st'" for r
  proof (cases "r \<le> revision st")
    case True
    with that st'(3) ok(2) have "undo om_assign (transitions (newer_changes r (change_log st))) (documents st)
        = fst (hist ! r)"
      by (auto simp: history_ok_def)
    then show ?thesis
      using True o(1) committed_newer [OF o(3) com that(1) True] committed_undo [OF ok tick com]
      by (simp add: nth_append)
  next
    case False
    then have "r = revision st'" using that st'(1) by simp
    then show ?thesis using o'(2,8) newer_changes_none [of "change_log st'" r] by simp
  qed
  moreover have "\<forall>k d. map_of (documents st') k = Some d \<longrightarrow> update_time d \<le> ?t"
    using com plan_writes_stamps ok(2) later order.trans [OF _ less_imp_le [OF later]]
    unfolding committed_def history_ok_def by metis
  moreover have "sorted_wrt (<) (map snd (hist @ [(documents st', ?t)]))"
  proof -
    have "snd h \<le> last_commit_time st" if h: "h \<in> set hist" for h
    proof -
      obtain i where "i < length hist" "h = hist ! i" using h by (metis in_set_conv_nth)
      then show ?thesis using ok(2) o(1,2) sorted_wrt_nth_less [of "(<)" "map snd hist" i "revision st"]
        by (cases "i = revision st") (auto simp: history_ok_def)
    qed
    then show ?thesis using ok(2) later by (fastforce simp: history_ok_def sorted_wrt_append)
  qed
  ultimately show ?thesis using st'(2) by (simp add: history_ok_def)
qed

lemma store_run_ok: "store_run opts hist st \<Longrightarrow> store_ok hist st \<and> (ticking st \<longrightarrow> history_ok hist st)"
proof (induction rule: store_run.induct)
  case run_new
  show ?case using store_ok_new [of opts] by (simp add: history_ok_def State_new_def newer_changes_def)
next
  case (run_commit hist st now writes result changes st')
  then have ok: "store_ok hist st" by simp
  have com: "committed st now writes changes st'"
    using commit_committed [OF store_okD(4) [OF ok] run_commit.hyps(3)] by simp
  note ok' = store_ok_commit [OF ok run_commit.hyps(2) com]
  have "ticking st" if "ticking st'"
    using that com next_commit_time_seconds [OF store_okD(5) [OF ok], of now]
    by (auto simp: ticking_def committed_def)
  then show ?case using ok' history_ok_commit [OF ok _ _ com ok'] run_commit.IH by blast
next
  case (run_reject hist st now writes e st')
  then have "st' = st" by (auto simp: commit_def split: sum.splits)
  then show ?case using run_reject by simp
qed

section \<open>Replaying the log forwards\<close>

text \<open>
  What a listener that applies the changes sees: the document itself, or one the code's
  equality cannot tell from it.
\<close>

definition same_document :: "Document option \<Rightarrow> Document option \<Rightarrow> bool" where
  "same_document a b = (a = b \<or> option_document_eq a b)"

definition same_documents :: "Documents \<Rightarrow> Documents \<Rightarrow> bool" where
  "same_documents docs docs' = (\<forall>k. same_document (map_of docs k) (map_of docs' k))"

lemma same_document_trans: "same_document a b \<Longrightarrow> same_document b c \<Longrightarrow> same_document a c"
  by (auto simp: same_document_def intro: option_document_eq_trans)

lemma same_documents_refl [simp]: "same_documents docs docs"
  by (simp add: same_documents_def same_document_def)

lemma same_documents_trans:
  "same_documents a b \<Longrightarrow> same_documents b c \<Longrightarrow> same_documents a c"
  by (meson same_document_trans same_documents_def)

lemma same_documents_redo:
  "same_documents docs docs' \<Longrightarrow>
    same_documents (redo om_assign (transitions changes) docs) (redo om_assign (transitions changes) docs')"
proof (induction changes arbitrary: docs docs')
  case (Cons c changes)
  have "same_documents (om_assign (change_key c) (change_after c) docs)
      (om_assign (change_key c) (change_after c) docs')"
    using Cons.prems by (auto simp: same_documents_def get_om_assign same_document_def)
  from Cons.IH [OF this] show ?case by (simp add: change_transition_def)
qed simp

lemma redo_transition:
  "redo om_assign (transitions (changes @ [c])) m =
    om_assign (change_key c) (change_after c) (redo om_assign (transitions changes) m)"
  by (simp add: change_transition_def)

lemma plan_writes_redo:
  "plan_writes r t writes docs changes = Inr (docs', changes') \<Longrightarrow>
    same_documents (redo om_assign (transitions changes) start) docs \<Longrightarrow>
    same_documents (redo om_assign (transitions changes') start) docs'"
proof (induction writes arbitrary: docs changes)
  case (Cons w writes)
  from Cons.prems(1) obtain k next_doc where w: "apply_write docs w t = Inr (k, next_doc)"
    by (auto simp: Let_def)
  let ?docs = "om_assign k next_doc docs"
  let ?c = "\<lparr>change_revision = r, change_key = k, change_before = map_of docs k, change_after = next_doc\<rparr>"
  show ?case
  proof (cases "option_document_eq (map_of docs k) next_doc")
    case True
    have "same_documents (redo om_assign (transitions changes) start) ?docs"
      unfolding same_documents_def get_om_assign
    proof
      fix j
      show "same_document (map_of (redo om_assign (transitions changes) start) j) (((map_of docs)(k := next_doc)) j)"
        using Cons.prems(2) True same_document_trans [of _ "map_of docs k" next_doc]
        by (cases "j = k") (auto simp: same_documents_def same_document_def)
    qed
    with Cons True w show ?thesis by (simp add: Let_def)
  next
    case False
    have "same_documents (redo om_assign (transitions (changes @ [?c])) start) ?docs"
      using Cons.prems(2) unfolding redo_transition
      by (auto simp: same_documents_def get_om_assign same_document_def)
    from Cons.IH [OF _ this] False Cons.prems(1) w show ?thesis by (simp add: Let_def)
  qed
qed simp

definition replay_history_ok :: "history \<Rightarrow> State \<Rightarrow> bool" where
  "replay_history_ok hist st =
     (\<forall>r. change_floor st \<le> r \<longrightarrow> r \<le> revision st \<longrightarrow>
        same_documents (redo om_assign (transitions (newer_changes r (change_log st))) (fst (hist ! r)))
          (documents st))"

lemma replay_history_ok_commit:
  assumes ok: "store_ok hist st" "replay_history_ok hist st"
    and com: "committed st now writes changes st'"
    and ok': "store_ok (hist @ [(documents st', last_commit_time st')]) st'"
  shows "replay_history_ok (hist @ [(documents st', last_commit_time st')]) st'"
  unfolding replay_history_ok_def
proof (intro allI impI)
  fix r assume r: "change_floor st' \<le> r" "r \<le> revision st'"
  note o = store_okD [OF ok(1)] and o' = store_okD [OF ok'] and st' = committedD [OF com]
  let ?hist = "hist @ [(documents st', last_commit_time st')]"
  show "same_documents (redo om_assign (transitions (newer_changes r (change_log st'))) (fst (?hist ! r)))
      (documents st')"
  proof (cases "r \<le> revision st")
    case True
    let ?old = "redo om_assign (transitions (newer_changes r (change_log st))) (fst (hist ! r))"
    have "same_documents ?old (documents st)"
      using True r(1) st'(3) ok(2) by (auto simp: replay_history_ok_def)
    then have "same_documents (redo om_assign (transitions changes) ?old)
        (redo om_assign (transitions changes) (documents st))"
      by (rule same_documents_redo)
    moreover have "same_documents (redo om_assign (transitions changes) (documents st)) (documents st')"
      using com plan_writes_redo [where changes = "[]" and start = "documents st"]
      by (auto simp: committed_def)
    ultimately show ?thesis
      using True o(1) committed_newer [OF o(3) com r(1) True] same_documents_trans
      by (simp add: nth_append)
  next
    case False
    then have "r = revision st'" using r st'(1) by simp
    then show ?thesis using o'(2,8) newer_changes_none [of "change_log st'" r] by simp
  qed
qed

lemma store_run_replay: "store_run opts hist st \<Longrightarrow> replay_history_ok hist st"
proof (induction rule: store_run.induct)
  case run_new
  show ?case by (simp add: replay_history_ok_def State_new_def newer_changes_def)
next
  case (run_commit hist st now writes result changes st')
  have ok: "store_ok hist st" using store_run_ok [OF run_commit.hyps(1)] by simp
  have com: "committed st now writes changes st'"
    using commit_committed [OF store_okD(4) [OF ok] run_commit.hyps(3)] by simp
  show ?case
    using replay_history_ok_commit [OF ok run_commit.IH com] store_ok_commit [OF ok run_commit.hyps(2) com] .
next
  case (run_reject hist st now writes e st')
  then show ?case by (auto simp: commit_def split: sum.splits)
qed

lemma store_run_options: "store_run opts hist st \<Longrightarrow> options st = clamp_options opts"
proof (induction rule: store_run.induct)
  case (run_commit hist st now writes result changes st')
  have "log_ok st" using store_okD(4) store_run_ok [OF run_commit.hyps(1)] by blast
  from commit_committed [OF this run_commit.hyps(3)] run_commit.IH show ?case
    by (auto simp: committed_def)
next
  case (run_reject hist st now writes e st')
  then show ?case by (auto simp: commit_def split: sum.splits)
qed (simp add: State_new_def)

end
