(* ===== verification/Sort_By.thy ===== *)
theory Sort_By
  imports Prelude "HOL-Library.Multiset"
begin

text \<open>
  \<open>slice::sort_by\<close>: a stable sort by a comparison function, as insertion. The facts hold for
  any comparison that meets the \<open>comparator\<close> contract: the result is ordered, is a
  rearrangement, keeps equal elements in their order, and is the only list that does all three.
\<close>

fun insert_by :: "('a \<Rightarrow> 'a \<Rightarrow> ordering) \<Rightarrow> 'a \<Rightarrow> 'a list \<Rightarrow> 'a list" where
  "insert_by compare x [] = [x]"
| "insert_by compare x (y # ys) =
     (if compare x y = Greater then y # insert_by compare x ys else x # y # ys)"

fun sort_by :: "('a \<Rightarrow> 'a \<Rightarrow> ordering) \<Rightarrow> 'a list \<Rightarrow> 'a list" where
  "sort_by compare [] = []"
| "sort_by compare (x # xs) = insert_by compare x (sort_by compare xs)"

definition sorted_by :: "('a \<Rightarrow> 'a \<Rightarrow> ordering) \<Rightarrow> 'a list \<Rightarrow> bool" where
  "sorted_by compare xs = sorted_wrt (\<lambda>a b. compare a b \<noteq> Greater) xs"

lemma mset_insert_by [simp]: "mset (insert_by compare x ys) = add_mset x (mset ys)"
  by (induction ys) auto

lemma mset_sort_by [simp]: "mset (sort_by compare xs) = mset xs"
  by (induction xs) auto

lemma set_insert_by [simp]: "set (insert_by compare x ys) = insert x (set ys)"
  by (induction ys) auto

lemma set_sort_by [simp]: "set (sort_by compare xs) = set xs"
  by (induction xs) auto

lemma length_sort_by [simp]: "length (sort_by compare xs) = length xs"
  using mset_sort_by mset_eq_length by blast

lemma distinct_sort_by [simp]: "distinct (sort_by compare xs) = distinct xs"
  using mset_sort_by mset_eq_imp_distinct_iff by blast

lemma sorted_by_simps [simp]:
  "sorted_by compare []"
  "sorted_by compare (x # xs) = ((\<forall>y\<in>set xs. compare x y \<noteq> Greater) \<and> sorted_by compare xs)"
  by (simp_all add: sorted_by_def)

lemma sorted_by_append:
  "sorted_by compare (xs @ ys) =
    (sorted_by compare xs \<and> sorted_by compare ys \<and> (\<forall>x\<in>set xs. \<forall>y\<in>set ys. compare x y \<noteq> Greater))"
  by (auto simp: sorted_by_def sorted_wrt_append)

lemma insert_by_map:
  "insert_by compare (f x) (map f ys) = map f (insert_by (\<lambda>a b. compare (f a) (f b)) x ys)"
  by (induction ys) auto

text \<open>Sorting by a key commutes with extracting the key.\<close>

lemma sort_by_map: "sort_by compare (map f xs) = map f (sort_by (\<lambda>a b. compare (f a) (f b)) xs)"
  by (induction xs) (auto simp: insert_by_map)

context comparator
begin

lemma sorted_insert_by:
  assumes "dom_ok x" "\<forall>y\<in>set ys. dom_ok y" "sorted_by compare ys"
  shows "sorted_by compare (insert_by compare x ys)"
  using assms
proof (induction ys)
  case (Cons y ys)
  show ?case
  proof (cases "compare x y = Greater")
    case True
    then have "compare y x \<noteq> Greater" using Cons.prems swap [of x y] by simp
    with Cons True show ?thesis by auto
  next
    case False
    then have "compare x z \<noteq> Greater" if "z \<in> set ys" for z
      using that Cons.prems trans_le [of x y z] by auto
    with Cons False show ?thesis by auto
  qed
qed simp

lemma sorted_sort_by: "\<forall>x\<in>set xs. dom_ok x \<Longrightarrow> sorted_by compare (sort_by compare xs)"
  by (induction xs) (auto intro: sorted_insert_by)

lemma filter_equal_insert_by:
  assumes "dom_ok a" "dom_ok x" "\<forall>y\<in>set ys. dom_ok y"
  shows "filter (\<lambda>y. compare a y = Equal) (insert_by compare x ys)
    = filter (\<lambda>y. compare a y = Equal) (x # ys)"
  using assms
proof (induction ys)
  case (Cons y ys)
  have "compare x y = Equal" if "compare a x = Equal" "compare a y = Equal"
    using that Cons.prems equal_sym [of a x] equal_trans [of x a y] by auto
  with Cons show ?case by auto
qed simp

lemma stable_sort_by:
  "dom_ok a \<Longrightarrow> \<forall>x\<in>set xs. dom_ok x \<Longrightarrow>
    filter (\<lambda>y. compare a y = Equal) (sort_by compare xs) = filter (\<lambda>y. compare a y = Equal) xs"
proof (induction xs)
  case (Cons x xs)
  then show ?case using filter_equal_insert_by [of a x "sort_by compare xs"] by auto
qed simp

lemma sorted_head_equal:
  assumes "sorted_by compare (x # xs)" "sorted_by compare (y # ys)" "\<forall>z\<in>set (x # xs). dom_ok z"
    "\<forall>z\<in>set (y # ys). dom_ok z" "x \<in> set (y # ys)" "y \<in> set (x # xs)"
  shows "compare x y = Equal"
proof -
  have xx: "compare x x = Equal" "compare y y = Equal" using assms(3,4) refl by auto
  have "compare x y \<noteq> Greater" using assms(1,6) xx by auto
  moreover have "compare y x \<noteq> Greater" using assms(2,5) xx by auto
  ultimately show ?thesis using swap [of x y] assms(3,4) by (cases "compare x y") auto
qed

text \<open>A stable ordered rearrangement is unique.\<close>

lemma sorted_stable_unique:
  assumes "sorted_by compare xs" "sorted_by compare ys" "\<forall>x\<in>set xs. dom_ok x" "\<forall>y\<in>set ys. dom_ok y"
    "\<And>a. dom_ok a \<Longrightarrow> filter (\<lambda>y. compare a y = Equal) xs = filter (\<lambda>y. compare a y = Equal) ys"
  shows "xs = ys"
  using assms
proof (induction xs arbitrary: ys)
  case Nil
  then show ?case
  proof (cases ys)
    case (Cons y ys')
    then have "filter (\<lambda>z. compare y z = Equal) ys \<noteq> []" using Nil.prems(4) refl [of y] by auto
    then show ?thesis using Nil.prems(4) Nil.prems(5) [of y] Cons by auto
  qed simp
next
  case (Cons x xs)
  have mem: "z \<in> set (x # xs) \<longleftrightarrow> z \<in> set ys" if "dom_ok z" for z
    using Cons.prems(5) [OF that] refl [OF that] by (metis (mono_tags, lifting) mem_Collect_eq set_filter)
  obtain y ys' where ys: "ys = y # ys'" using mem [of x] Cons.prems(3) by (cases ys) auto
  have "compare x y = Equal"
    using sorted_head_equal [of x xs y ys'] Cons.prems ys mem by auto
  then have "x = y" using Cons.prems(5) [of x] Cons.prems(3) ys refl [of x] by simp
  moreover have "xs = ys'"
  proof (rule Cons.IH)
    fix a assume "dom_ok a"
    then show "filter (\<lambda>z. compare a z = Equal) xs = filter (\<lambda>z. compare a z = Equal) ys'"
      using Cons.prems(5) [of a] ys \<open>x = y\<close> by (auto split: if_splits)
  qed (use Cons.prems ys in auto)
  ultimately show ?case using ys by simp
qed

lemma sort_by_sorted_id:
  assumes "sorted_by compare xs" "\<forall>x\<in>set xs. dom_ok x"
  shows "sort_by compare xs = xs"
  by (rule sorted_stable_unique) (use assms in \<open>simp_all add: stable_sort_by sorted_sort_by\<close>)

end

end
