(* ===== verification/Snapshots.thy ===== *)
theory Snapshots
  imports Store_History Sort_By
begin

text \<open>
  Reading a snapshot of \<open>core-store\<close>: point reads, the collection and collection-group
  iterations that go through the scope indexes, the list of databases, and the preview of a
  write set. The iterations are proved equal to a scan of all documents.
\<close>

section \<open>Operations\<close>

definition Snapshot_get :: "Snapshot \<Rightarrow> DocumentKey \<Rightarrow> Document option" where
  "Snapshot_get s key = map_of (snapshot_documents s) key"

definition iter_documents :: "Snapshot \<Rightarrow> DatabaseName \<Rightarrow> (DocumentKey \<times> Document) list" where
  "iter_documents s database =
     filter (\<lambda>entry. key_database (fst entry) = database) (snapshot_documents s)"

definition compare_key_paths :: "DocumentKey \<Rightarrow> DocumentKey \<Rightarrow> ordering" where
  "compare_key_paths left right = compare_resource_paths (key_path left) (key_path right)"

definition iter_collection :: "Snapshot \<Rightarrow> DatabaseName \<Rightarrow> string \<Rightarrow> (DocumentKey \<times> Document) list" where
  "iter_collection s database collection_path =
     (let keys = (case map_of (snapshot_collections s) (database, collection_path) of
                    None \<Rightarrow> [] | Some keys \<Rightarrow> keys);
          keys = sort_by compare_key_paths keys
      in List.map_filter
           (\<lambda>key. map_option (Pair key) (map_of (snapshot_documents s) key)) keys)"

definition ancestor_matches :: "string \<Rightarrow> string \<Rightarrow> bool" where
  "ancestor_matches ancestor document_path =
     (case strip_prefix ancestor document_path of
        None \<Rightarrow> False
      | Some suffix \<Rightarrow>
          (case strip_prefix ''/'' suffix of
             None \<Rightarrow> False
           | Some descendant \<Rightarrow> 2 \<le> length (split_char (CHR ''/'') descendant)))"

definition iter_collection_group ::
    "Snapshot \<Rightarrow> DatabaseName \<Rightarrow> string \<Rightarrow> string option \<Rightarrow> (DocumentKey \<times> Document) list" where
  "iter_collection_group s database collection_id ancestor =
     (let keys = (case map_of (snapshot_collection_groups s) (database, collection_id) of
                    None \<Rightarrow> [] | Some keys \<Rightarrow> keys);
          keys = sort_by compare_key_paths keys
      in List.map_filter
           (\<lambda>key. if (case ancestor of None \<Rightarrow> True | Some a \<Rightarrow> ancestor_matches a (key_path key))
                  then map_option (Pair key) (map_of (snapshot_documents s) key) else None) keys)"

definition databases :: "Snapshot \<Rightarrow> string \<Rightarrow> DatabaseName list" where
  "databases s project =
     os_of_list (map key_database
       (filter (\<lambda>key. project_id (key_database key) = project) (map fst (snapshot_documents s))))"

record WritePreview =
  preview_snapshot :: Snapshot
  pending :: "(DocumentKey, Document option) ord_map"

fun preview_documents :: "Snapshot \<Rightarrow> DocumentKey list \<Rightarrow> Documents \<Rightarrow> Documents" where
  "preview_documents s [] docs = docs"
| "preview_documents s (key # keys) docs =
     preview_documents s keys
       (case Snapshot_get s key of Some d \<Rightarrow> om_insert key d docs | None \<Rightarrow> docs)"

fun preview_loop :: "Write list \<Rightarrow> Timestamp \<Rightarrow> Documents \<Rightarrow> (DocumentKey, Document option) ord_map \<Rightarrow>
    CommitError + (DocumentKey, Document option) ord_map" where
  "preview_loop [] time docs updates = Inr updates"
| "preview_loop (write # writes) time docs updates =
     result_bind (apply_write docs write time) (\<lambda>(key, next_doc).
       preview_loop writes time (om_assign key next_doc docs) (om_insert key next_doc updates))"

definition preview_writes :: "Snapshot \<Rightarrow> Write list \<Rightarrow> Timestamp \<Rightarrow> CommitError + WritePreview" where
  "preview_writes s writes request_time =
     (let keys = os_of_list (map write_key writes);
          docs = preview_documents s keys []
      in result_bind (preview_loop writes request_time docs [])
           (\<lambda>updates. Inr \<lparr>preview_snapshot = s, pending = updates\<rparr>))"

definition WritePreview_get :: "WritePreview \<Rightarrow> DocumentKey \<Rightarrow> Document option" where
  "WritePreview_get preview key =
     (case map_of (pending preview) key of
        Some document \<Rightarrow> document | None \<Rightarrow> Snapshot_get (preview_snapshot preview) key)"

section \<open>Index iterations are scans\<close>

text \<open>The indexes of a snapshot describe its own documents.\<close>

definition snapshot_ok :: "Snapshot \<Rightarrow> bool" where
  "snapshot_ok s =
     (om_ok (snapshot_documents s)
      \<and> index_ok collection_key (snapshot_documents s) (snapshot_collections s)
      \<and> index_ok collection_group_key (snapshot_documents s) (snapshot_collection_groups s))"

definition scan :: "(DocumentKey \<Rightarrow> bool) \<Rightarrow> Snapshot \<Rightarrow> (DocumentKey \<times> Document) list" where
  "scan P s = sort_by (\<lambda>a b. compare_key_paths (fst a) (fst b))
     (filter (\<lambda>entry. P (fst entry)) (snapshot_documents s))"

lemma map_filter_present:
  assumes "om_ok docs" "set entries \<subseteq> set docs"
  shows "List.map_filter (\<lambda>key. map_option (Pair key) (map_of docs key)) (map fst entries) = entries"
  using assms(2)
proof (induction entries)
  case (Cons e entries)
  then have "map_of docs (fst e) = Some (snd e)" using om_get_Some_iff [OF assms(1)] by simp
  with Cons show ?case by (simp add: List.map_filter_simps)
qed (simp add: List.map_filter_simps)

lemma map_filter_guard:
  "List.map_filter (\<lambda>x. if P x then f x else None) xs = List.map_filter f (filter P xs)"
  by (induction xs) (auto simp: List.map_filter_simps split: option.splits)

lemma index_entry:
  "index_ok scope m index \<Longrightarrow>
    (case map_of index c of None \<Rightarrow> [] | Some keys \<Rightarrow> keys) = scope_keys scope m c"
  by (simp add: index_ok_def)

lemma sort_scope_keys:
  "sort_by compare_key_paths (scope_keys scope m c) =
    map fst (sort_by (\<lambda>a b. compare_key_paths (fst a) (fst b)) (filter (\<lambda>e. scope (fst e) = c) m))"
  by (simp add: scope_keys_def filter_map o_def sort_by_map)

lemma filter_sort_by_map:
  "filter P (map fst xs) = map fst (filter (\<lambda>e. P (fst e)) xs)"
  by (simp add: filter_map o_def)

interpretation key_paths: comparator compare_key_paths "\<lambda>_. True"
  using paths.on_key [of key_path] by (simp add: compare_key_paths_def [abs_def])

lemma iter_collection_scan:
  assumes "snapshot_ok s"
  shows "iter_collection s db path = scan (\<lambda>k. collection_key k = (db, path)) s"
proof -
  have ok: "om_ok (snapshot_documents s)"
    "index_ok collection_key (snapshot_documents s) (snapshot_collections s)"
    using assms by (auto simp: snapshot_ok_def)
  show ?thesis
    using map_filter_present [OF ok(1), of "scan (\<lambda>k. collection_key k = (db, path)) s"]
    by (auto simp: iter_collection_def scan_def index_entry [OF ok(2)] sort_scope_keys)
qed

lemma filter_sort_by:
  assumes "comparator compare (\<lambda>_. True)"
  shows "filter P (sort_by compare xs) = sort_by compare (filter P xs)"
proof (rule comparator.sorted_stable_unique [OF assms])
  have s: "sorted_by compare (sort_by compare xs)"
    using comparator.sorted_sort_by [OF assms, where xs = xs] by simp
  show "sorted_by compare (filter P (sort_by compare xs))"
    using s unfolding sorted_by_def by (rule sorted_wrt_filter)
  show "sorted_by compare (sort_by compare (filter P xs))"
    using comparator.sorted_sort_by [OF assms, where xs = "filter P xs"] by simp
  fix a
  have "filter (\<lambda>y. compare a y = Equal) (sort_by compare xs) = filter (\<lambda>y. compare a y = Equal) xs"
    using comparator.stable_sort_by [OF assms, where a = a and xs = xs] by simp
  then have "filter P (filter (\<lambda>y. compare a y = Equal) (sort_by compare xs))
      = filter P (filter (\<lambda>y. compare a y = Equal) xs)" by simp
  then show "filter (\<lambda>y. compare a y = Equal) (filter P (sort_by compare xs))
      = filter (\<lambda>y. compare a y = Equal) (sort_by compare (filter P xs))"
    using comparator.stable_sort_by [OF assms, where a = a and xs = "filter P xs"] by (simp add: conj_commute)
qed simp_all

lemma iter_collection_group_scan:
  assumes "snapshot_ok s"
  shows "iter_collection_group s db collection_id ancestor =
    scan (\<lambda>k. collection_group_key k = (db, collection_id)
      \<and> (case ancestor of None \<Rightarrow> True | Some a \<Rightarrow> ancestor_matches a (key_path k))) s"
proof -
  have ok: "om_ok (snapshot_documents s)"
    "index_ok collection_group_key (snapshot_documents s) (snapshot_collection_groups s)"
    using assms by (auto simp: snapshot_ok_def)
  define below where "below k = (case ancestor of None \<Rightarrow> True | Some a \<Rightarrow> ancestor_matches a (key_path k))" for k
  let ?entries = "scan (\<lambda>k. collection_group_key k = (db, collection_id) \<and> below k) s"
  have cmp: "comparator (\<lambda>a b. compare_key_paths (fst a) (fst b)) (\<lambda>_ :: DocumentKey \<times> Document. True)"
    using key_paths.on_key [of fst] by simp
  have "filter below (sort_by compare_key_paths (scope_keys collection_group_key (snapshot_documents s) (db, collection_id)))
      = map fst ?entries"
    by (simp add: sort_scope_keys filter_sort_by_map filter_sort_by [OF cmp] scan_def conj_commute)
  then show ?thesis
    using map_filter_present [OF ok(1), of ?entries]
    unfolding iter_collection_group_def index_entry [OF ok(2)] Let_def below_def [symmetric] map_filter_guard
    by (auto simp: scan_def)
qed

lemma set_databases: "set (databases s project) =
    {key_database k | k. k \<in> dom (map_of (snapshot_documents s)) \<and> project_id (key_database k) = project}"
  by (auto simp: databases_def dom_map_of_conv_image_fst)

section \<open>Previews\<close>

text \<open>A write reads only the document it names.\<close>

lemma apply_write_local:
  "map_of docs (write_key w) = map_of docs' (write_key w) \<Longrightarrow> apply_write docs w t = apply_write docs' w t"
  by (cases w) auto

lemma preview_documents_get:
  "map_of (preview_documents s keys docs) k =
    (if k \<in> set keys \<and> Snapshot_get s k \<noteq> None then Snapshot_get s k else map_of docs k)"
  by (induction s keys docs rule: preview_documents.induct) (auto simp: om_simps split: option.splits)

definition overlay :: "(DocumentKey, Document option) ord_map \<Rightarrow> Documents \<Rightarrow> DocumentKey \<Rightarrow> Document option" where
  "overlay updates base k = (case map_of updates k of Some d \<Rightarrow> d | None \<Rightarrow> map_of base k)"

lemma overlay_insert: "overlay (om_insert k x updates) base = (overlay updates base)(k := x)"
  by (auto simp: overlay_def om_simps fun_eq_iff)

text \<open>
  The preview keeps the touched documents apart, the plan rewrites all of them; both run the
  same writes and agree on every key or fail with the same error.
\<close>

definition preview_agrees :: "Documents \<Rightarrow> CommitError + Documents \<times> Change list \<Rightarrow>
    CommitError + (DocumentKey, Document option) ord_map \<Rightarrow> bool" where
  "preview_agrees base planned previewed =
     (case planned of
        Inl e \<Rightarrow> previewed = Inl e
      | Inr (docs', _) \<Rightarrow> \<exists>updates. previewed = Inr updates \<and> overlay updates base = map_of docs')"

lemma preview_plan:
  assumes "overlay updates base = map_of docs" "\<forall>k. k \<in> K \<longrightarrow> map_of small k = map_of docs k"
    "\<forall>w\<in>set writes. write_key w \<in> K"
  shows "preview_agrees base (plan_writes r t writes docs changes) (preview_loop writes t small updates)"
  using assms
proof (induction writes arbitrary: small docs updates changes)
  case (Cons w writes)
  have same: "apply_write small w t = apply_write docs w t"
    using Cons.prems(2,3) by (intro apply_write_local) simp
  show ?case
  proof (cases "apply_write docs w t")
    case (Inl e)
    then show ?thesis using same by (simp add: preview_agrees_def)
  next
    case (Inr out)
    obtain k next_doc where out: "out = (k, next_doc)" by (cases out)
    have "overlay (om_insert k next_doc updates) base = map_of (om_assign k next_doc docs)"
      using Cons.prems(1) by (simp add: overlay_insert get_om_assign)
    moreover have "\<forall>j. j \<in> K \<longrightarrow>
        map_of (om_assign k next_doc small) j = map_of (om_assign k next_doc docs) j"
      using Cons.prems(2) by (simp add: get_om_assign)
    ultimately show ?thesis
      using Cons.IH [of "om_insert k next_doc updates" "om_assign k next_doc docs"
          "om_assign k next_doc small"] Cons.prems(3) same Inr out
      by (simp add: Let_def)
  qed
qed (simp add: preview_agrees_def)

end
