(* ===== verification/Store_Props.thy ===== *)
theory Store_Props
  imports Snapshots
begin

text \<open>
  What the store promises its readers, over every run of commits from an empty store: time
  travel by revision and by time, replay of changes, termination and bounds of the change log,
  exact indexes and previews. A small concrete store at the end of each section shows that the
  hypotheses hold.
\<close>

section \<open>A concrete store\<close>

lemmas store_eval =
  commit_def plan_def plan_with_documents_def next_commit_time_def observed_time_def State_new_def
  clamp_options_def epoch_def Let_def checked_add_u64_def u64_max_def i64_max_def install_def
  install_metadata_def push_change_def index_change_def append_change_def push_commit_point_def
  add_replay_version_def apply_document_transition_def usage_add_def usage_sub_def
  update_collection_index_def update_collection_group_index_def index_update_def collection_key_def
  collection_group_key_def change_metadata_logical_bytes_def document_entry_logical_bytes_def
  document_key_logical_bytes_def document_logical_bytes_def fields_logical_bytes_def
  database_name_logical_bytes_def sat_add_def sat_sub_def trim_change_log.simps over_limit_def
  drop_oldest_def remove_replay_version_def less_Timestamp_iff saturating_next_microsecond_def
  om_remove_def os_remove_def less_DocumentKey_def key_tuple_def less_DatabaseName_def database_tuple_def

definition demo_database :: DatabaseName where
  "demo_database = DatabaseName ''p'' ''d''"

definition demo_a :: DocumentKey where
  "demo_a = DocumentKey demo_database ''c/a''"

definition demo_b :: DocumentKey where
  "demo_b = DocumentKey demo_database ''c/b''"

definition demo_options :: StoreOptions where
  "demo_options = \<lparr>max_change_log_entries = 2, max_change_log_logical_bytes = 1000\<rparr>"

definition demo_writes1 :: "Write list" where
  "demo_writes1 = [Create demo_a [(''x'', Integer 1)]]"

definition demo_writes2 :: "Write list" where
  "demo_writes2 = [Delete demo_a NoPrecondition, Create demo_b []]"

definition demo_document :: Document where
  "demo_document = Document [(''x'', Integer 1)] (Timestamp 1 5000) (Timestamp 1 5000)"

definition demo_empty_document :: Document where
  "demo_empty_document = Document [] (Timestamp 1 6000) (Timestamp 1 6000)"

definition demo_state1 :: State where
  "demo_state1 =
     \<lparr>options = demo_options, revision = 1, last_commit_time = Timestamp 1 5000,
      documents = [(demo_a, demo_document)],
      collections = Some [((demo_database, ''c''), [demo_a])],
      collection_groups = Some [((demo_database, ''c''), [demo_a])],
      change_log = [\<lparr>change_revision = 1, change_key = demo_a, change_before = None,
        change_after = Some demo_document\<rparr>],
      change_floor = 0,
      commit_times = [\<lparr>point_revision = 1, point_commit_time = Timestamp 1 5000\<rparr>],
      history_floor = \<lparr>point_revision = 0, point_commit_time = epoch\<rparr>,
      current_documents = \<lparr>usage_entries = 1, usage_logical_bytes = 38\<rparr>,
      replay_versions = [((demo_a, Timestamp 1 5000),
        \<lparr>retained_references = 1, retained_logical_bytes = 38\<rparr>)],
      replay_versions_logical_bytes = 38, change_log_logical_bytes = 15\<rparr>"

definition demo_state2 :: State where
  "demo_state2 =
     \<lparr>options = demo_options, revision = 2, last_commit_time = Timestamp 1 6000,
      documents = [(demo_b, demo_empty_document)],
      collections = Some [((demo_database, ''c''), [demo_b])],
      collection_groups = Some [((demo_database, ''c''), [demo_b])],
      change_log = [\<lparr>change_revision = 2, change_key = demo_a, change_before = Some demo_document,
          change_after = None\<rparr>,
        \<lparr>change_revision = 2, change_key = demo_b, change_before = None,
          change_after = Some demo_empty_document\<rparr>],
      change_floor = 1,
      commit_times = [\<lparr>point_revision = 2, point_commit_time = Timestamp 1 6000\<rparr>],
      history_floor = \<lparr>point_revision = 1, point_commit_time = Timestamp 1 5000\<rparr>,
      current_documents = \<lparr>usage_entries = 1, usage_logical_bytes = 29\<rparr>,
      replay_versions = [((demo_a, Timestamp 1 5000),
          \<lparr>retained_references = 1, retained_logical_bytes = 38\<rparr>),
        ((demo_b, Timestamp 1 6000), \<lparr>retained_references = 1, retained_logical_bytes = 29\<rparr>)],
      replay_versions_logical_bytes = 67, change_log_logical_bytes = 30\<rparr>"

definition demo_history :: history where
  "demo_history = [([], epoch), (documents demo_state1, last_commit_time demo_state1),
     (documents demo_state2, last_commit_time demo_state2)]"

lemmas demo_defs = demo_database_def demo_a_def demo_b_def demo_options_def demo_writes1_def
  demo_writes2_def demo_document_def demo_empty_document_def demo_state1_def demo_state2_def

lemma demo_state1_eval:
  "\<exists>result changes. commit (State_new demo_options) (1, 5) demo_writes1 = Some (Inr (result, changes), demo_state1)"
  by (simp add: demo_defs store_eval)

lemma demo_state2_eval:
  "\<exists>result changes. commit demo_state1 (1, 5) demo_writes2 = Some (Inr (result, changes), demo_state2)"
  by (simp add: demo_defs store_eval)

lemma demo_commit: "\<exists>result st'. commit demo_state2 (0, 0) demo_writes1 = Some (Inr result, st')"
  by (simp add: demo_defs store_eval)

lemma demo_run: "store_run demo_options demo_history demo_state2"
proof -
  obtain result changes where 1:
    "commit (State_new demo_options) (1, 5) demo_writes1 = Some (Inr (result, changes), demo_state1)"
    using demo_state1_eval by blast
  obtain result' changes' where 2: "commit demo_state1 (1, 5) demo_writes2 = Some (Inr (result', changes'), demo_state2)"
    using demo_state2_eval by blast
  have "clock_ok (1, 5)" by (simp add: clock_ok_def)
  from run_commit [OF run_commit [OF run_new this 1] this 2] show ?thesis
    by (simp add: demo_history_def)
qed

lemma demo_facts:
  "ticking demo_state2" "change_floor demo_state2 = 1" "revision demo_state2 = 2"
  "point_commit_time (history_floor demo_state2) = Timestamp 1 5000"
  "documents demo_state1 = [(demo_a, demo_document)]"
  by (simp_all add: demo_state1_def demo_state2_def ticking_def i64_max_def)

section \<open>Time travel\<close>

text \<open>Undoing changes one by one keeps the indexes in step with the documents.\<close>

lemma foldr_unapply:
  assumes "om_ok docs" "index_ok collection_key docs colls" "index_ok collection_group_key docs groups"
    "foldr unapply_change changes (docs, colls, groups) = (docs', colls', groups')"
  shows "docs' = undo om_assign (transitions changes) docs \<and> om_ok docs'
    \<and> index_ok collection_key docs' colls' \<and> index_ok collection_group_key docs' groups'"
  using assms(4)
proof (induction changes arbitrary: docs' colls' groups')
  case Nil
  then show ?case using assms(1-3) by simp
next
  case (Cons c changes)
  obtain d i g where fold: "foldr unapply_change changes (docs, colls, groups) = (d, i, g)"
    by (cases "foldr unapply_change changes (docs, colls, groups)")
  note IH = Cons.IH [OF fold]
  have step: "unapply_change c (d, i, g) = (docs', colls', groups')" using Cons.prems fold by simp
  have eqs: "docs' = om_assign (change_key c) (change_before c) d"
    "colls' = index_update collection_key i (change_key c) (change_before c \<noteq> None)"
    "groups' = index_update collection_group_key g (change_key c) (change_before c \<noteq> None)"
    using step by (simp_all add: unapply_change_def update_collection_index_def
        update_collection_group_index_def)
  have "undo om_assign (transitions (c # changes)) docs = docs'"
    using IH eqs(1) by (simp add: change_transition_def [of c])
  moreover have "om_ok docs'" "index_ok collection_key docs' colls'" "index_ok collection_group_key docs' groups'"
    unfolding eqs using IH by (blast intro: index_update_ok om_ok_assign)+
  ultimately show ?case by simp
qed

lemma snapshot_of_run:
  assumes run: "store_run opts hist st" "ticking st" and r: "change_floor st \<le> r" "r \<le> revision st"
  shows "\<exists>s. snapshot_at_revision st r = Some (Inr s) \<and> snapshot_revision s = r
    \<and> snapshot_documents s = fst (hist ! r) \<and> snapshot_ok s"
proof -
  have ok: "store_ok hist st" "history_ok hist st" using store_run_ok [OF run(1)] run(2) by auto
  obtain colls groups where index: "collections st = Some colls" "collection_groups st = Some groups"
    "index_ok collection_key (documents st) colls" "index_ok collection_group_key (documents st) groups"
    using ok(1) by (auto simp: store_ok_def)
  obtain d i g where fold: "foldr unapply_change (newer_changes r (change_log st))
      (documents st, colls, groups) = (d, i, g)"
    by (cases "foldr unapply_change (newer_changes r (change_log st)) (documents st, colls, groups)")
  have "d = fst (hist ! r)" "om_ok d" "index_ok collection_key d i" "index_ok collection_group_key d g"
    using foldr_unapply [OF store_okD(3) [OF ok(1)] index(3,4) fold] ok(2) r
    by (auto simp: history_ok_def)
  then show ?thesis using r index(1,2) fold by (simp add: snapshot_at_revision_def snapshot_ok_def)
qed

text \<open>
  C1: Time travel by revision. In every run of commits from an empty store, a snapshot at any
  revision between the change floor and the current revision is granted and holds exactly the
  documents the store had at that revision, with collection and collection-group indexes that
  describe those documents exactly.
\<close>

theorem snapshot_at_revision_exact:
  assumes "store_run opts hist st" "ticking st" "change_floor st \<le> r" "r \<le> revision st"
  shows "\<exists>s. snapshot_at_revision st r = Some (Inr s) \<and> snapshot_revision s = r
    \<and> snapshot_documents s = fst (hist ! r)
    \<and> index_ok collection_key (fst (hist ! r)) (snapshot_collections s)
    \<and> index_ok collection_group_key (fst (hist ! r)) (snapshot_collection_groups s)"
  using snapshot_of_run [OF assms] by (metis snapshot_ok_def)

theorem snapshot_at_revision_exact_witness:
  "\<exists>s. snapshot_at_revision demo_state2 1 = Some (Inr s)
    \<and> snapshot_documents s = [(demo_a, demo_document)]"
  using snapshot_at_revision_exact [OF demo_run demo_facts(1), of 1] demo_facts(2,3,5)
  by (auto simp: demo_history_def)

text \<open>The index of commit times, read point by point.\<close>

fun latest :: "Timestamp \<Rightarrow> CommitPoint \<Rightarrow> CommitPoint list \<Rightarrow> Revision" where
  "latest read_time floor_point [] = point_revision floor_point"
| "latest read_time floor_point (p # points) =
     (if point_commit_time p \<le> read_time then latest read_time p points
      else point_revision floor_point)"

lemma revision_at_time_latest:
  "revision_at_time st read_time = latest read_time (history_floor st) (commit_times st)"
proof -
  have "latest read_time floor_point points =
      (case takeWhile (\<lambda>p. point_commit_time p \<le> read_time) points of
         [] \<Rightarrow> point_revision floor_point | p # ps \<Rightarrow> point_revision (last (p # ps)))"
    for floor_point points
    by (induction points arbitrary: floor_point) (auto split: list.splits)
  then show ?thesis by (simp add: revision_at_time_def)
qed

lemma latest_correct:
  assumes "points_cover time floor_point points n" "time (point_revision floor_point) \<le> read_time"
    "\<And>i j. i < j \<Longrightarrow> j \<le> n \<Longrightarrow> time i < time j"
  shows "point_revision floor_point \<le> latest read_time floor_point points
    \<and> latest read_time floor_point points \<le> n \<and> time (latest read_time floor_point points) \<le> read_time
    \<and> (\<forall>q. latest read_time floor_point points < q \<longrightarrow> q \<le> n \<longrightarrow> read_time < time q)"
  using assms(1,2)
proof (induction points arbitrary: floor_point)
  case Nil
  then have "point_revision floor_point = n" by (auto simp: points_cover_def split: if_splits)
  then show ?case using Nil by auto
next
  case (Cons p points)
  note cover = points_cover_pop(1) [OF Cons.prems(1)]
  have p: "point_revision p = Suc (point_revision floor_point)" "point_revision p \<le> n"
    "point_commit_time p = time (point_revision p)"
    using points_cover_pop(2) [OF Cons.prems(1)] cover by (auto simp: points_cover_def)
  show ?case
  proof (cases "point_commit_time p \<le> read_time")
    case True
    then show ?thesis using Cons.IH [OF cover] p by auto
  next
    case False
    have "read_time < time q" if "point_revision floor_point < q" "q \<le> n" for q
      using that False p assms(3) [of "point_revision p" q] by (cases "q = point_revision p") auto
    then show ?thesis using False Cons.prems(2) p by auto
  qed
qed

text \<open>
  C2: Time travel by time. A read at a time no older than the history floor is always granted:
  it sees the documents of the latest revision committed at or before that time, and every
  later revision was committed after it. In particular the commit-time index never sends a
  read to a revision the change log has forgotten.
\<close>

theorem snapshot_at_time_exact:
  assumes run: "store_run opts hist st" "ticking st"
    and time: "point_commit_time (history_floor st) \<le> read_time"
  shows "\<exists>s. snapshot_at_time st read_time = Some (Inr s) \<and> snapshot_revision s \<le> revision st
    \<and> snapshot_documents s = fst (hist ! snapshot_revision s)
    \<and> snd (hist ! snapshot_revision s) \<le> read_time
    \<and> (\<forall>q. snapshot_revision s < q \<longrightarrow> q \<le> revision st \<longrightarrow> read_time < snd (hist ! q))"
proof -
  have ok: "store_ok hist st" "history_ok hist st" using store_run_ok [OF run(1)] run(2) by auto
  note o = store_okD [OF ok(1)]
  let ?r = "latest read_time (history_floor st) (commit_times st)"
  have "snd (hist ! i) < snd (hist ! j)" if "i < j" "j \<le> revision st" for i j
    using ok(2) o(1) that sorted_wrt_nth_less [of "(<)" "map snd hist" i j] by (simp add: history_ok_def)
  moreover have "snd (hist ! point_revision (history_floor st)) \<le> read_time"
    using o(9) time by (simp add: points_cover_def)
  ultimately have latest: "point_revision (history_floor st) \<le> ?r" "?r \<le> revision st"
    "snd (hist ! ?r) \<le> read_time" "\<forall>q. ?r < q \<longrightarrow> q \<le> revision st \<longrightarrow> read_time < snd (hist ! q)"
    using latest_correct [OF o(9), of read_time] by blast+
  then have "change_floor st \<le> ?r" using o(6) by simp
  from snapshot_of_run [OF run this latest(2)] show ?thesis
    using latest time by (auto simp: snapshot_at_time_def revision_at_time_latest)
qed

theorem snapshot_at_time_exact_witness:
  "\<exists>s. snapshot_at_time demo_state2 (Timestamp 1 5500) = Some (Inr s) \<and> snapshot_revision s \<le> 2
    \<and> snapshot_documents s = fst (demo_history ! snapshot_revision s)"
  using snapshot_at_time_exact [OF demo_run demo_facts(1), of "Timestamp 1 5500"] demo_facts(3,4)
  by (auto simp: less_eq_Timestamp_def timestamp_tuple_def)

text \<open>
  C8: Commit times strictly increase along every run until the clock reaches the largest
  representable second, whatever the wall clock does: it may stall or go backwards.
\<close>

theorem commit_times_increase:
  assumes "store_run opts hist st" "ticking st" "i < j" "j < length hist"
  shows "snd (hist ! i) < snd (hist ! j)"
  using assms store_run_ok [OF assms(1)] sorted_wrt_nth_less [of "(<)" "map snd hist" i j]
  by (simp add: history_ok_def)

theorem commit_times_increase_witness: "snd (demo_history ! 1) < snd (demo_history ! 2)"
  using commit_times_increase [OF demo_run demo_facts(1), of 1 2] by (simp add: demo_history_def)

section \<open>Replay\<close>

text \<open>
  C4: Replay of changes. A listener that holds the documents of some revision at or above the
  change floor and applies \<open>changes_since\<close> that revision in order ends with the current
  documents, up to the equality the code itself uses on documents. No assumption on the clock
  is needed.
\<close>

theorem changes_since_replay:
  assumes "store_run opts hist st" "change_floor st \<le> after" "after \<le> revision st"
  shows "\<exists>changes. changes_since st after = Inr changes
    \<and> same_documents (redo om_assign (transitions changes) (fst (hist ! after))) (documents st)"
  using assms store_run_replay [OF assms(1)] by (auto simp: changes_since_def replay_history_ok_def)

theorem changes_since_replay_witness:
  "\<exists>changes. changes_since demo_state2 1 = Inr changes
    \<and> same_documents (redo om_assign (transitions changes) (documents demo_state1)) (documents demo_state2)"
  using changes_since_replay [OF demo_run, of 1] demo_facts(2,3) by (simp add: demo_history_def)

section \<open>Termination and bounds\<close>

text \<open>
  C3: A commit always returns, although the eviction loop of the change log has no bound of its
  own: it ends even when a counter saturates. Afterwards the log holds no more changes, the
  retained versions no more bytes and the commit-time index no more points than the options
  allow.
\<close>

theorem commit_terminates_within_limits:
  assumes "store_run opts hist st" "clock_ok now"
  shows "\<exists>outcome st'. commit st now writes = Some (outcome, st')
    \<and> length (change_log st') \<le> max (max_change_log_entries opts) 1
    \<and> replay_versions_logical_bytes st' \<le> max (max_change_log_logical_bytes opts) 1
    \<and> length (commit_times st') \<le> max (max_change_log_entries opts) 1"
proof -
  have st: "store_ok hist st" using store_run_ok [OF assms(1)] by simp
  note ok = store_okD(4) [OF st]
  have limits: "store_ok h st' \<Longrightarrow> options st' = options st \<Longrightarrow>
      length (change_log st') \<le> max (max_change_log_entries opts) 1
      \<and> replay_versions_logical_bytes st' \<le> max (max_change_log_logical_bytes opts) 1
      \<and> length (commit_times st') \<le> max (max_change_log_entries opts) 1" for h st'
    using store_run_options [OF assms(1)] store_okD(4,10) [of h st']
    by (auto simp: over_limit_def log_ok_def clamp_options_def not_less)
  show ?thesis
  proof (rule commit_returns [OF ok, of now writes])
    fix e assume "commit st now writes = Some (Inl e, st)"
    then show ?thesis using limits [OF st] by auto
  next
    fix st' changes
    assume "commit st now writes = Some (Inr (\<lparr>result_revision = revision st',
        result_commit_time = last_commit_time st'\<rparr>, changes), st')" "committed st now writes changes st'"
    then show ?thesis
      using limits [OF store_ok_commit [OF st assms(2)]] by (auto simp: committed_def)
  qed
qed

theorem commit_terminates_within_limits_witness:
  "\<exists>outcome st'. commit demo_state2 (0, 0) demo_writes1 = Some (outcome, st') \<and> length (change_log st') \<le> 2"
  using commit_terminates_within_limits [OF demo_run, of "(0, 0)" demo_writes1]
  by (auto simp: clock_ok_def demo_options_def)

section \<open>Index reads\<close>

lemma scan_entries:
  assumes "snapshot_ok s"
  shows "set (scan P s) = {(k, d). map_of (snapshot_documents s) k = Some d \<and> P k}"
    and "distinct (map fst (scan P s))"
    and "sorted_by compare_key_paths (map fst (scan P s))"
proof -
  have ok: "om_ok (snapshot_documents s)" using assms by (simp add: snapshot_ok_def)
  show "set (scan P s) = {(k, d). map_of (snapshot_documents s) k = Some d \<and> P k}"
    using om_get_Some_iff [OF ok] by (auto simp: scan_def)
  have keys: "map fst (scan P s) = sort_by compare_key_paths (filter P (map fst (snapshot_documents s)))"
    by (simp add: scan_def sort_by_map [symmetric] filter_map o_def)
  then show "distinct (map fst (scan P s))" using om_ok_distinct [OF ok] by simp
  show "sorted_by compare_key_paths (map fst (scan P s))"
    using keys key_paths.sorted_sort_by by simp
qed

text \<open>
  C6: Reading a collection through the index, at any retained revision of a run, yields exactly
  the documents of that revision whose immediate parent is the collection: none is missing,
  none is stale, none appears twice, and they come in resource-path order.
\<close>

theorem iter_collection_exact:
  assumes "store_run opts hist st" "ticking st" "change_floor st \<le> r" "r \<le> revision st"
  shows "\<exists>s. snapshot_at_revision st r = Some (Inr s)
    \<and> set (iter_collection s db path) =
        {(k, d). map_of (fst (hist ! r)) k = Some d \<and> collection_key k = (db, path)}
    \<and> distinct (map fst (iter_collection s db path))
    \<and> sorted_by compare_key_paths (map fst (iter_collection s db path))"
proof -
  obtain s where s: "snapshot_at_revision st r = Some (Inr s)" "snapshot_revision s = r"
    "snapshot_documents s = fst (hist ! r)" "snapshot_ok s"
    using snapshot_of_run [OF assms] by blast
  show ?thesis
    unfolding s(3) [symmetric] using s(1) scan_entries [OF s(4)]
    by (intro exI [of _ s]) (simp add: iter_collection_scan [OF s(4)])
qed

theorem iter_collection_exact_witness:
  "\<exists>s. snapshot_at_revision demo_state2 1 = Some (Inr s)
    \<and> set (iter_collection s demo_database ''c'') = {(k, d). map_of (documents demo_state1) k = Some d
        \<and> collection_key k = (demo_database, ''c'')}"
  using iter_collection_exact [OF demo_run demo_facts(1), of 1 demo_database "''c''"] demo_facts(2,3)
  by (auto simp: demo_history_def)

text \<open>
  C7: The same for a collection group, optionally below an ancestor document: exactly the
  documents of the revision whose immediate collection has the id and whose path lies below
  the ancestor, in resource-path order.
\<close>

theorem iter_collection_group_exact:
  assumes "store_run opts hist st" "ticking st" "change_floor st \<le> r" "r \<le> revision st"
  shows "\<exists>s. snapshot_at_revision st r = Some (Inr s)
    \<and> set (iter_collection_group s db collection_id ancestor) =
        {(k, d). map_of (fst (hist ! r)) k = Some d \<and> collection_group_key k = (db, collection_id)
          \<and> (case ancestor of None \<Rightarrow> True | Some a \<Rightarrow> ancestor_matches a (key_path k))}
    \<and> distinct (map fst (iter_collection_group s db collection_id ancestor))
    \<and> sorted_by compare_key_paths (map fst (iter_collection_group s db collection_id ancestor))"
proof -
  obtain s where s: "snapshot_at_revision st r = Some (Inr s)" "snapshot_revision s = r"
    "snapshot_documents s = fst (hist ! r)" "snapshot_ok s"
    using snapshot_of_run [OF assms] by blast
  show ?thesis
    unfolding s(3) [symmetric] using s(1) scan_entries [OF s(4)]
    by (intro exI [of _ s]) (simp add: iter_collection_group_scan [OF s(4)])
qed

theorem iter_collection_group_exact_witness:
  "\<exists>s. snapshot_at_revision demo_state2 1 = Some (Inr s)
    \<and> set (iter_collection_group s demo_database ''c'' None) = {(k, d). map_of (documents demo_state1) k = Some d
        \<and> collection_group_key k = (demo_database, ''c'')}"
  using iter_collection_group_exact [OF demo_run demo_facts(1), of 1 demo_database "''c''" None] demo_facts(2,3)
  by (auto simp: demo_history_def)

section \<open>Previews\<close>

lemma preview_snapshot_plan:
  "preview_agrees (snapshot_documents s) (plan_writes r t writes (snapshot_documents s) [])
    (preview_loop writes t (preview_documents s (os_of_list (map write_key writes)) []) [])"
  by (rule preview_plan [where K = "write_key ` set writes"])
    (auto simp: overlay_def preview_documents_get Snapshot_get_def fun_eq_iff)

lemma preview_get_overlay:
  "WritePreview_get \<lparr>preview_snapshot = s, pending = updates\<rparr> k = overlay updates (snapshot_documents s) k"
  by (simp add: WritePreview_get_def overlay_def Snapshot_get_def split: option.split)

text \<open>
  C5: A preview is the commit it announces. Taken at the commit time the store is about to
  choose, \<open>preview_writes\<close> fails with the error the commit fails with, and otherwise reads
  every document, touched or not, as the store holds it after the commit.
\<close>

theorem preview_writes_agrees:
  assumes "store_run opts hist st" "revision st < u64_max"
    "commit st now writes = Some (outcome, st')"
    "preview_writes (snapshot st) writes (next_commit_time st now) = preview"
  shows "case outcome of
      Inl e \<Rightarrow> preview = Inl e
    | Inr _ \<Rightarrow> \<exists>p. preview = Inr p \<and> (\<forall>k. WritePreview_get p k = map_of (documents st') k)"
proof -
  have ok: "log_ok st" using store_run_ok [OF assms(1)] store_okD(4) by blast
  let ?planned = "plan_writes (Suc (revision st)) (next_commit_time st now) writes (documents st) []"
  have agrees: "preview_agrees (documents st) ?planned
      (preview_loop writes (next_commit_time st now)
        (preview_documents (snapshot st) (os_of_list (map write_key writes)) []) [])"
    using preview_snapshot_plan [of "snapshot st"] by (simp add: snapshot_def)
  show ?thesis
  proof (cases outcome)
    case (Inl e)
    have "?planned = Inl e"
    proof (cases "plan st now writes")
      case (Inl f)
      then show ?thesis
        using assms(2,3) \<open>outcome = Inl e\<close>
        by (auto simp: commit_def plan_def plan_with_documents_def checked_add_u64_def Let_def
            split: option.splits if_splits)
    next
      case (Inr p)
      then show ?thesis using assms(3) \<open>outcome = Inl e\<close> by (auto simp: commit_def)
    qed
    then show ?thesis using agrees assms(4) Inl by (simp add: preview_agrees_def preview_writes_def Let_def)
  next
    case (Inr result)
    then have "?planned = Inr (documents st', snd result)"
      using commit_committed [OF ok, of now writes "fst result" "snd result" st'] assms(3)
      by (simp add: committed_def)
    then obtain updates where "overlay updates (documents st) = map_of (documents st')"
      "preview = Inr \<lparr>preview_snapshot = snapshot st, pending = updates\<rparr>"
      using agrees assms(4) by (auto simp: preview_agrees_def preview_writes_def Let_def)
    then show ?thesis using Inr by (simp add: preview_get_overlay) (simp add: snapshot_def)
  qed
qed

theorem preview_writes_agrees_witness:
  "\<exists>p. preview_writes (snapshot demo_state2) demo_writes1 (next_commit_time demo_state2 (0, 0)) = Inr p
    \<and> (\<exists>st' result. commit demo_state2 (0, 0) demo_writes1 = Some (Inr result, st')
      \<and> (\<forall>k. WritePreview_get p k = map_of (documents st') k))"
proof -
  obtain result st' where c: "commit demo_state2 (0, 0) demo_writes1 = Some (Inr result, st')"
    using demo_commit by blast
  have "revision demo_state2 < u64_max" by (simp add: demo_facts(3) u64_max_def)
  from preview_writes_agrees [OF demo_run this c refl] c show ?thesis by auto
qed

section \<open>Commits without effect\<close>

text \<open>
  C39: A \<open>Verify\<close> write, which never changes a document, is reported to the observers and
  logged as a change exactly when the verified document contains a NaN: the derived equality
  that suppresses changes without effect is not reflexive there.
\<close>

theorem verify_reports_nan:
  assumes "om_ok docs" "map_of docs k = Some d"
  shows "plan_writes r t [Verify k NoPrecondition] docs [] =
    Inr (docs, if document_has_nan d
      then [\<lparr>change_revision = r, change_key = k, change_before = Some d, change_after = Some d\<rparr>] else [])"
  using assms by (simp add: document_eq_refl_iff om_insert_same Let_def)

theorem verify_reports_nan_witness:
  "plan_writes 7 epoch [Verify demo_a NoPrecondition]
      [(demo_a, Document [(''x'', Double f64_nan)] epoch epoch)] [] =
    Inr ([(demo_a, Document [(''x'', Double f64_nan)] epoch epoch)],
      [\<lparr>change_revision = 7, change_key = demo_a,
        change_before = Some (Document [(''x'', Double f64_nan)] epoch epoch),
        change_after = Some (Document [(''x'', Double f64_nan)] epoch epoch)\<rparr>])"
proof -
  have "document_has_nan (Document [(''x'', Double f64_nan)] epoch epoch)"
    by (simp add: document_has_nan_def f64_nan_def f64_eval)
  then show ?thesis
    using verify_reports_nan [of "[(demo_a, Document [(''x'', Double f64_nan)] epoch epoch)]" demo_a _ 7 epoch]
    by (simp add: om_ok_Cons)
qed

end
