(* ===== verification/Compare.thy ===== *)
theory Compare
  imports Writes
begin

text \<open>
  The value order of \<open>query-engine\<close> (\<open>query-engine/src/lib.rs\<close>): Firestore's cross-type order
  on values, in the Standard edition on the indexed prefix of long strings only. It is proved to
  be a total preorder on well-formed values, and its ties are characterised.
\<close>

section \<open>Definitions\<close>

datatype DatabaseEdition = Standard | Enterprise

definition STANDARD_INDEXED_VALUE_BYTES :: nat where
  "STANDARD_INDEXED_VALUE_BYTES = 1500"

fun type_rank :: "Value \<Rightarrow> nat" where
  "type_rank Null = 0"
| "type_rank (Boolean _) = 1"
| "type_rank (Integer _) = 2"
| "type_rank (Double _) = 2"
| "type_rank (TimestampValue _) = 3"
| "type_rank (StringValue _) = 4"
| "type_rank (Bytes _) = 5"
| "type_rank (Reference _) = 6"
| "type_rank (GeoPoint _ _) = 7"
| "type_rank (Array _) = 8"
| "type_rank (Vector _) = 9"
| "type_rank (MapValue _) = 10"

text \<open>The \<open>expect\<close> on two doubles that are not NaN cannot fail.\<close>

definition compare_doubles :: "f64 \<Rightarrow> f64 \<Rightarrow> ordering" where
  "compare_doubles left right =
     (case (f64_is_nan left, f64_is_nan right) of
        (True, True) \<Rightarrow> Equal
      | (True, False) \<Rightarrow> Less
      | (False, True) \<Rightarrow> Greater
      | (False, False) \<Rightarrow> the (f64_partial_cmp left right))"

definition qe_compare_integer_double :: "int \<Rightarrow> f64 \<Rightarrow> ordering" where
  "qe_compare_integer_double integer double =
     (if f64_is_nan double then Greater
      else if two_pow_63 \<le> f64_scaled double then Less
      else if f64_scaled double < - two_pow_63 then Greater
      else (case cmp integer (f64_as_i64 double) of
              Equal \<Rightarrow> if 0 < f64_fract double then Less
                       else if f64_fract double < 0 then Greater
                       else Equal
            | unequal \<Rightarrow> unequal))"

definition compare_indexed_bytes :: "string \<Rightarrow> string \<Rightarrow> DatabaseEdition \<Rightarrow> ordering" where
  "compare_indexed_bytes left right edition =
     (case edition of
        Standard \<Rightarrow> cmp (take (min (length left) STANDARD_INDEXED_VALUE_BYTES) left)
                      (take (min (length right) STANDARD_INDEXED_VALUE_BYTES) right)
      | Enterprise \<Rightarrow> cmp left right)"

definition compare_vectors :: "f64 list \<Rightarrow> f64 list \<Rightarrow> ordering" where
  "compare_vectors left right =
     (case cmp (length left) (length right) of
        Equal \<Rightarrow> lex_compare compare_doubles left right
      | unequal \<Rightarrow> unequal)"

text \<open>
  One equation per left value. Where the code first compares type ranks and returns when they
  differ, the last branch of each equation does; within a rank the remaining branches are the
  code's match. \<open>compare_arrays\<close> and \<open>compare_maps\<close> walk both sides in step and then compare
  lengths, which is \<open>lex_compare\<close>.
\<close>

fun compare_values :: "DatabaseEdition \<Rightarrow> Value \<Rightarrow> Value \<Rightarrow> ordering" where
  "compare_values ed Null right = cmp 0 (type_rank right)"
| "compare_values ed (Boolean a) right =
     (case right of Boolean b \<Rightarrow> cmp a b | _ \<Rightarrow> cmp 1 (type_rank right))"
| "compare_values ed (Integer a) right =
     (case right of Integer b \<Rightarrow> cmp a b | Double b \<Rightarrow> qe_compare_integer_double a b
      | _ \<Rightarrow> cmp 2 (type_rank right))"
| "compare_values ed (Double a) right =
     (case right of Double b \<Rightarrow> compare_doubles a b
      | Integer b \<Rightarrow> reverse_ordering (qe_compare_integer_double b a)
      | _ \<Rightarrow> cmp 2 (type_rank right))"
| "compare_values ed (TimestampValue a) right =
     (case right of TimestampValue b \<Rightarrow> cmp a b | _ \<Rightarrow> cmp 3 (type_rank right))"
| "compare_values ed (StringValue a) right =
     (case right of StringValue b \<Rightarrow> compare_indexed_bytes a b ed | _ \<Rightarrow> cmp 4 (type_rank right))"
| "compare_values ed (Bytes a) right =
     (case right of Bytes b \<Rightarrow> compare_indexed_bytes a b ed | _ \<Rightarrow> cmp 5 (type_rank right))"
| "compare_values ed (Reference a) right =
     (case right of Reference b \<Rightarrow> compare_resource_paths a b | _ \<Rightarrow> cmp 6 (type_rank right))"
| "compare_values ed (GeoPoint a b) right =
     (case right of GeoPoint c d \<Rightarrow> then_with (compare_doubles a c) (compare_doubles b d)
      | _ \<Rightarrow> cmp 7 (type_rank right))"
| "compare_values ed (Array xs) right =
     (case right of Array ys \<Rightarrow> lex_compare (compare_values ed) xs ys | _ \<Rightarrow> cmp 8 (type_rank right))"
| "compare_values ed (Vector xs) right =
     (case right of Vector ys \<Rightarrow> compare_vectors xs ys | _ \<Rightarrow> cmp 9 (type_rank right))"
| "compare_values ed (MapValue xs) right =
     (case right of MapValue ys \<Rightarrow>
        lex_compare (\<lambda>x y. then_with (cmp (fst x) (fst y)) (compare_values ed (snd x) (snd y))) xs ys
      | _ \<Rightarrow> cmp 10 (type_rank right))"

lemma compare_values_rank:
  "type_rank a \<noteq> type_rank b \<Longrightarrow> compare_values ed a b = cmp (type_rank a) (type_rank b)"
  by (cases a; cases b) auto

section \<open>Numbers\<close>

definition double_key :: "f64 \<Rightarrow> nat \<times> int" where
  "double_key d = (if f64_is_nan d then (0, 0) else (1, f64_scaled d))"

fun number_key :: "Value \<Rightarrow> nat \<times> int" where
  "number_key (Integer n) = (1, n * f64_unit)"
| "number_key (Double d) = double_key d"
| "number_key _ = (0, 0)"

lemma compare_doubles_key: "compare_doubles a b = cmp (double_key a) (double_key b)"
  by (auto simp: compare_doubles_def double_key_def f64_partial_cmp_def cmp_def less_prod_def')

lemma compare_integer_double_key:
  assumes "in_i64 n"
  shows "qe_compare_integer_double n d = cmp (number_key (Integer n)) (double_key d)"
proof (cases "f64_is_nan d")
  case True
  then show ?thesis by (simp add: qe_compare_integer_double_def double_key_def cmp_def less_prod_def')
next
  case False
  then have "qe_compare_integer_double n d = compare_integer_double n d"
    by (simp add: qe_compare_integer_double_def compare_integer_double_def)
  then show ?thesis
    using compare_integer_double_exact [OF assms False] False
    by (auto simp: double_key_def cmp_def less_prod_def')
qed

lemma rank_inv:
  "type_rank v = 0 \<longleftrightarrow> v = Null"
  "type_rank v = 1 \<longleftrightarrow> (\<exists>b. v = Boolean b)"
  "type_rank v = 2 \<longleftrightarrow> (\<exists>n. v = Integer n) \<or> (\<exists>d. v = Double d)"
  "type_rank v = 3 \<longleftrightarrow> (\<exists>t. v = TimestampValue t)"
  "type_rank v = 4 \<longleftrightarrow> (\<exists>x. v = StringValue x)"
  "type_rank v = 5 \<longleftrightarrow> (\<exists>x. v = Bytes x)"
  "type_rank v = 6 \<longleftrightarrow> (\<exists>x. v = Reference x)"
  "type_rank v = 7 \<longleftrightarrow> (\<exists>x y. v = GeoPoint x y)"
  "type_rank v = 8 \<longleftrightarrow> (\<exists>xs. v = Array xs)"
  "type_rank v = 9 \<longleftrightarrow> (\<exists>xs. v = Vector xs)"
  "type_rank v = 10 \<longleftrightarrow> (\<exists>xs. v = MapValue xs)"
  by (cases v; simp)+

lemma cmp_number_integers:
  "cmp (number_key (Integer m)) (number_key (Integer n)) = cmp m n"
  by (auto simp: cmp_def less_prod_def')

lemma compare_numbers:
  assumes "type_rank a = 2" "type_rank b = 2" "value_ok a" "value_ok b"
  shows "compare_values ed a b = cmp (number_key a) (number_key b)"
proof -
  consider m n where "a = Integer m" "b = Integer n" | m d where "a = Integer m" "b = Double d"
    | d m where "a = Double d" "b = Integer m" | d e where "a = Double d" "b = Double e"
    using assms(1,2) unfolding rank_inv by blast
  then show ?thesis
  proof cases
    case 1
    then show ?thesis using cmp_number_integers by simp
  next
    case 2
    then show ?thesis using assms(3) compare_integer_double_key by simp
  next
    case (3 d m)
    then have "compare_values ed a b = reverse_ordering (cmp (number_key b) (number_key a))"
      using assms(4) compare_integer_double_key by simp
    then show ?thesis using cmp_swap by metis
  next
    case 4
    then show ?thesis by (simp add: compare_doubles_key)
  qed
qed

section \<open>A total preorder\<close>

interpretation doubles: comparator compare_doubles "\<lambda>_. True"
  using cmp.on_key [of double_key] by (simp add: compare_doubles_key [abs_def])

definition geo_compare :: "f64 \<times> f64 \<Rightarrow> f64 \<times> f64 \<Rightarrow> ordering" where
  "geo_compare p q = then_with (compare_doubles (fst p) (fst q)) (compare_doubles (snd p) (snd q))"

interpretation geo: comparator geo_compare "\<lambda>_. True"
  unfolding geo_compare_def [abs_def]
proof (rule comparator_then)
  show "comparator (\<lambda>a b :: f64 \<times> f64. compare_doubles (fst a) (fst b)) (\<lambda>_. True)"
    using doubles.on_key [of fst] by simp
qed (use doubles.swap doubles.trans_le in blast)+

lemma compare_vectors_then:
  "compare_vectors a b = then_with (cmp (length a) (length b)) (lex_compare compare_doubles a b)"
  by (auto simp: compare_vectors_def cmp_def)

interpretation vectors: comparator compare_vectors "\<lambda>_. True"
  unfolding compare_vectors_then [abs_def]
proof (rule comparator_then)
  show "comparator (\<lambda>a b :: f64 list. cmp (length a) (length b)) (\<lambda>_. True)"
    using cmp.on_key [of length] by simp
qed (use doubles.lex_swap doubles.lex_trans in blast)+

definition indexed_bytes :: "DatabaseEdition \<Rightarrow> string \<Rightarrow> string" where
  "indexed_bytes ed x =
     (case ed of Standard \<Rightarrow> take (min (length x) STANDARD_INDEXED_VALUE_BYTES) x | Enterprise \<Rightarrow> x)"

lemma compare_indexed_bytes_key: "compare_indexed_bytes a b ed = cmp (indexed_bytes ed a) (indexed_bytes ed b)"
  by (cases ed) (simp_all add: compare_indexed_bytes_def indexed_bytes_def)

definition entry_compare :: "DatabaseEdition \<Rightarrow> string \<times> Value \<Rightarrow> string \<times> Value \<Rightarrow> ordering" where
  "entry_compare ed x y = then_with (cmp (fst x) (fst y)) (compare_values ed (snd x) (snd y))"

lemma entries_comparator:
  assumes "comparator (compare_values ed) P"
  shows "comparator (entry_compare ed) (\<lambda>x. P (snd x))"
  unfolding entry_compare_def [abs_def]
proof (rule comparator_then)
  show "comparator (\<lambda>a b :: string \<times> Value. cmp (fst a) (fst b)) (\<lambda>x. P (snd x))"
    by (rule comparator_subset [OF cmp.on_key]) simp
qed (use comparator.swap [OF assms] comparator.trans_le [OF assms] in blast)+

lemma compare_containers:
  "compare_values ed (Array xs) (Array ys) = lex_compare (compare_values ed) xs ys"
  "compare_values ed (MapValue ms) (MapValue ns) = lex_compare (entry_compare ed) ms ns"
  "compare_values ed (Vector ds) (Vector es) = compare_vectors ds es"
  "compare_values ed (GeoPoint a b) (GeoPoint c d) = geo_compare (a, b) (c, d)"
  by (simp_all add: entry_compare_def [abs_def] geo_compare_def)

text \<open>The order on values below a size, so that containers can rely on their elements.\<close>

definition value_below :: "nat \<Rightarrow> Value \<Rightarrow> bool" where
  "value_below n v = (value_ok v \<and> size v < n)"

lemma value_below_elements:
  "value_below (Suc n) (Array xs) \<Longrightarrow> \<forall>x\<in>set xs. value_below n x"
  "value_below (Suc n) (MapValue ms) \<Longrightarrow> \<forall>x\<in>set ms. value_below n (snd x)"
proof -
  assume *: "value_below (Suc n) (Array xs)"
  show "\<forall>x\<in>set xs. value_below n x"
  proof
    fix x assume x: "x \<in> set xs"
    then have "size x < size (Array xs)" by (induction xs) auto
    then show "value_below n x" using * x by (auto simp: value_below_def)
  qed
next
  assume *: "value_below (Suc n) (MapValue ms)"
  show "\<forall>x\<in>set ms. value_below n (snd x)"
  proof
    fix x assume x: "x \<in> set ms"
    then have "size (snd x) < size (MapValue ms)"
      by (induction ms) (auto simp: size_prod_simp)
    then show "value_below n (snd x)" using * x by (auto simp: value_below_def)
  qed
qed

lemma same_rank_swap:
  assumes below: "comparator (compare_values ed) (value_below n)"
    and ab: "value_below (Suc n) a" "value_below (Suc n) b" "type_rank a = type_rank b"
  shows "compare_values ed b a = reverse_ordering (compare_values ed a b)"
proof -
  have ok: "value_ok a" "value_ok b" using ab by (auto simp: value_below_def)
  show ?thesis
  proof (cases a)
    case Null
    then show ?thesis using ab(3) rank_inv(1) [of b] by simp
  next
    case (Boolean x)
    then show ?thesis using ab(3) rank_inv(2) [of b] by (auto intro: cmp_swap)
  next
    case (Integer x)
    then show ?thesis
      using ab(3) ok compare_numbers [of a b ed] compare_numbers [of b a ed] cmp_swap by simp
  next
    case (Double x)
    then show ?thesis
      using ab(3) ok compare_numbers [of a b ed] compare_numbers [of b a ed] cmp_swap by simp
  next
    case (TimestampValue x)
    then show ?thesis using ab(3) rank_inv(4) [of b] by (auto intro: cmp_swap)
  next
    case (StringValue x)
    then show ?thesis using ab(3) rank_inv(5) [of b] by (auto simp: compare_indexed_bytes_key intro: cmp_swap)
  next
    case (Bytes x)
    then show ?thesis using ab(3) rank_inv(6) [of b] by (auto simp: compare_indexed_bytes_key intro: cmp_swap)
  next
    case (Reference x)
    then show ?thesis using ab(3) rank_inv(7) [of b] by (auto intro: paths.swap)
  next
    case (GeoPoint x y)
    then obtain z w where "b = GeoPoint z w" using ab(3) rank_inv(8) [of b] by auto
    then show ?thesis using GeoPoint geo.swap compare_containers(4) by metis
  next
    case (Array xs)
    then obtain ys where b: "b = Array ys" using ab(3) rank_inv(9) [of b] by auto
    show ?thesis unfolding Array b compare_containers
      using comparator.lex_swap [OF below] value_below_elements(1) ab(1,2) Array b by blast
  next
    case (Vector xs)
    then obtain ys where "b = Vector ys" using ab(3) rank_inv(10) [of b] by auto
    then show ?thesis using Vector vectors.swap compare_containers(3) by metis
  next
    case (MapValue xs)
    then obtain ys where b: "b = MapValue ys" using ab(3) rank_inv(11) [of b] by auto
    show ?thesis unfolding MapValue b compare_containers
      using comparator.lex_swap [OF entries_comparator [OF below]] value_below_elements(2) ab(1,2)
        MapValue b by blast
  qed
qed

lemma same_rank_trans:
  assumes below: "comparator (compare_values ed) (value_below n)"
    and abc: "value_below (Suc n) a" "value_below (Suc n) b" "value_below (Suc n) c"
      "type_rank b = type_rank a" "type_rank c = type_rank a"
    and le: "compare_values ed a b \<noteq> Greater" "compare_values ed b c \<noteq> Greater"
  shows "compare_values ed a c \<noteq> Greater"
proof -
  have ok: "value_ok a" "value_ok b" "value_ok c" using abc by (auto simp: value_below_def)
  have numbers: "compare_values ed a c \<noteq> Greater" if "type_rank a = 2"
    using that abc(4,5) ok le compare_numbers [of a b ed] compare_numbers [of b c ed]
      compare_numbers [of a c ed] cmp.trans_le [of "number_key a" "number_key b" "number_key c"]
    by simp
  show ?thesis
  proof (cases a)
    case (GeoPoint x y)
    then obtain p q r s where "b = GeoPoint p q" "c = GeoPoint r s"
      using abc(4,5) rank_inv(8) by fastforce
    then show ?thesis
      using GeoPoint le geo.trans_le [of "(x, y)" "(p, q)" "(r, s)"]
      by (simp add: compare_containers del: compare_values.simps)
  next
    case (Array xs)
    then obtain ys zs where bc: "b = Array ys" "c = Array zs" using abc(4,5) rank_inv(9) by fastforce
    show ?thesis
      using comparator.lex_trans [OF below, of xs ys zs] value_below_elements(1) abc(1-3) le
      unfolding Array bc compare_containers by blast
  next
    case (Vector xs)
    then obtain ys zs where "b = Vector ys" "c = Vector zs" using abc(4,5) rank_inv(10) by fastforce
    then show ?thesis
      using Vector le vectors.trans_le [of xs ys zs] by (simp add: compare_containers del: compare_values.simps)
  next
    case (MapValue xs)
    then obtain ys zs where bc: "b = MapValue ys" "c = MapValue zs" using abc(4,5) rank_inv(11) by fastforce
    show ?thesis
      using comparator.lex_trans [OF entries_comparator [OF below], of xs ys zs]
        value_below_elements(2) abc(1-3) le
      unfolding MapValue bc compare_containers by blast
  next
    case Null
    then show ?thesis using abc(4,5) rank_inv(1) by simp
  next
    case (Boolean x)
    then obtain y z where "b = Boolean y" "c = Boolean z" using abc(4,5) rank_inv(2) by fastforce
    then show ?thesis using Boolean le cmp.trans_le [of x y z] by simp
  next
    case (TimestampValue x)
    then obtain y z where "b = TimestampValue y" "c = TimestampValue z"
      using abc(4,5) rank_inv(4) by fastforce
    then show ?thesis using TimestampValue le cmp.trans_le [of x y z] by simp
  next
    case (StringValue x)
    then obtain y z where "b = StringValue y" "c = StringValue z" using abc(4,5) rank_inv(5) by fastforce
    then show ?thesis
      using StringValue le cmp.trans_le [of "indexed_bytes ed x" "indexed_bytes ed y" "indexed_bytes ed z"]
      by (simp add: compare_indexed_bytes_key)
  next
    case (Bytes x)
    then obtain y z where "b = Bytes y" "c = Bytes z" using abc(4,5) rank_inv(6) by fastforce
    then show ?thesis
      using Bytes le cmp.trans_le [of "indexed_bytes ed x" "indexed_bytes ed y" "indexed_bytes ed z"]
      by (simp add: compare_indexed_bytes_key)
  next
    case (Reference x)
    then obtain y z where "b = Reference y" "c = Reference z" using abc(4,5) rank_inv(7) by fastforce
    then show ?thesis using Reference le paths.trans_le [of x y z] by simp
  qed (use numbers in simp_all)
qed

lemma compare_values_below: "comparator (compare_values ed) (value_below n)"
proof (induction n)
  case 0
  show ?case by (rule comparator.intro) (simp_all add: value_below_def)
next
  case (Suc n)
  have "comparator (\<lambda>a b. then_with (cmp (type_rank a) (type_rank b)) (compare_values ed a b))
      (value_below (Suc n))"
  proof (rule comparator_then)
    show "comparator (\<lambda>a b. cmp (type_rank a) (type_rank b)) (value_below (Suc n))"
      by (rule comparator_subset [OF cmp.on_key]) simp
  next
    fix a b assume "value_below (Suc n) a" "value_below (Suc n) b" "cmp (type_rank a) (type_rank b) = Equal"
    then show "compare_values ed b a = reverse_ordering (compare_values ed a b)"
      by (intro same_rank_swap [OF Suc]) simp_all
  next
    fix a b c assume "value_below (Suc n) a" "value_below (Suc n) b" "value_below (Suc n) c"
      "cmp (type_rank a) (type_rank b) = Equal" "cmp (type_rank b) (type_rank c) = Equal"
      "compare_values ed a b \<noteq> Greater" "compare_values ed b c \<noteq> Greater"
    then show "compare_values ed a c \<noteq> Greater"
      by (intro same_rank_trans [OF Suc, of a b c]) simp_all
  qed
  moreover have "then_with (cmp (type_rank a) (type_rank b)) (compare_values ed a b) = compare_values ed a b"
    for a b
    using compare_values_rank [of a b ed] by (cases "type_rank a = type_rank b") (simp_all add: cmp_def)
  ultimately show ?case by simp
qed

interpretation vals: comparator "compare_values ed" value_ok
proof (rule comparator.intro)
  fix a b assume "value_ok a" "value_ok b"
  then show "compare_values ed b a = reverse_ordering (compare_values ed a b)"
    using comparator.swap [OF compare_values_below, of "Suc (max (size a) (size b))" a b]
    by (simp add: value_below_def)
next
  fix a b c assume "value_ok a" "value_ok b" "value_ok c"
    "compare_values ed a b \<noteq> Greater" "compare_values ed b c \<noteq> Greater"
  then show "compare_values ed a c \<noteq> Greater"
    using comparator.trans_le [OF compare_values_below, of "Suc (max (size a) (max (size b) (size c)))" a b c]
    by (simp add: value_below_def)
qed

section \<open>Ties\<close>

text \<open>
  Two references tie when their paths denote the same resource, which for canonical paths is
  equality. With that, values tie in the Enterprise edition exactly when Firestore equality
  holds of them.
\<close>

fun canonical_refs :: "Value \<Rightarrow> bool" where
  "canonical_refs (Reference path) = canonical_path path"
| "canonical_refs (Array vs) = (\<forall>v\<in>set vs. canonical_refs v)"
| "canonical_refs (MapValue m) = (\<forall>e\<in>set m. canonical_refs (snd e))"
| "canonical_refs _ = True"

lemma doubles_equal_compare: "(compare_doubles a b = Equal) = doubles_equal a b"
  by (auto simp: compare_doubles_key double_key_def doubles_equal_def f64_eq_def)

lemma numbers_equal:
  assumes "type_rank a = 2" "type_rank b = 2" "value_ok a" "value_ok b"
  shows "(number_key a = number_key b) = values_equal a b"
  using assms unfolding rank_inv
  by (auto simp: double_key_def doubles_equal_def f64_eq_def integer_double_equal_iff split: if_splits)

lemma values_equal_rank: "values_equal a b \<Longrightarrow> type_rank a = type_rank b"
  by (cases a; cases b) auto

lemma list_all2_cong_on:
  assumes "\<And>x y. x \<in> set xs \<Longrightarrow> y \<in> set ys \<Longrightarrow> P x y = Q x y"
  shows "list_all2 P xs ys = list_all2 Q xs ys"
  using assms by (auto simp: list_all2_conv_all_nth)

lemma enterprise_ties:
  assumes "value_ok a" "value_ok b" "canonical_refs a" "canonical_refs b"
  shows "(compare_values Enterprise a b = Equal) = values_equal a b"
  using assms
proof (induction a arbitrary: b)
  case (Array xs)
  show ?case
  proof (cases "\<exists>ys. b = Array ys")
    case True
    then obtain ys where ys: "b = Array ys" by blast
    have "list_all2 (\<lambda>x y. compare_values Enterprise x y = Equal) xs ys = list_all2 values_equal xs ys"
      by (rule list_all2_cong_on, rule Array.IH) (use Array.prems ys in auto)
    then show ?thesis unfolding ys compare_containers lex_compare_Equal by simp
  next
    case False
    then show ?thesis using compare_values_rank [of "Array xs" b Enterprise] rank_inv(9) [of b]
      by (cases b) auto
  qed
next
  case (MapValue ms)
  show ?case
  proof (cases "\<exists>ns. b = MapValue ns")
    case True
    then obtain ns where ns: "b = MapValue ns" by blast
    have "list_all2 (\<lambda>x y. entry_compare Enterprise x y = Equal) ms ns = list_all2 entries_equal ms ns"
    proof (rule list_all2_cong_on)
      fix x y assume xy: "x \<in> set ms" "y \<in> set ns"
      have "(compare_values Enterprise (snd x) (snd y) = Equal) = values_equal (snd x) (snd y)"
        by (rule MapValue.IH [OF xy(1)]) (use MapValue.prems ns xy in \<open>auto simp: snds.simps\<close>)
      then show "(entry_compare Enterprise x y = Equal) = entries_equal x y" by (simp add: entry_compare_def)
    qed
    then show ?thesis unfolding ns compare_containers lex_compare_Equal by simp
  next
    case False
    then show ?thesis using compare_values_rank [of "MapValue ms" b Enterprise] rank_inv(11) [of b]
      by (cases b) auto
  qed
next
  case (Vector ds)
  have "(compare_vectors ds es = Equal) = list_all2 doubles_equal ds es" for es
    by (auto simp: compare_vectors_then lex_compare_Equal doubles_equal_compare list_all2_lengthD)
  then show ?case by (cases b) auto
next
  case (Reference x)
  then show ?case using canonical_paths_equal paths.refl by (cases b) auto
next
  case (Integer n)
  then show ?case
    using compare_numbers [of "Integer n" b Enterprise] numbers_equal [of "Integer n" b] values_equal_rank [of "Integer n" b]
    by (cases "type_rank b = 2") (auto simp: compare_values_rank simp del: compare_values.simps values_equal.simps)
next
  case (Double d)
  then show ?case
    using compare_numbers [of "Double d" b Enterprise] numbers_equal [of "Double d" b] values_equal_rank [of "Double d" b]
    by (cases "type_rank b = 2") (auto simp: compare_values_rank simp del: compare_values.simps values_equal.simps)
qed (auto simp: compare_indexed_bytes_def doubles_equal_compare split: Value.splits)

end
