(* ===== verification/Bounded_Select.thy ===== *)
theory Bounded_Select
  imports Sort_By
begin

text \<open>
  \<open>slice::binary_search_by\<close> as the standard library runs it, and the selection loop the query
  engine builds on it: every candidate goes to its place in an ordered vector that gives up its
  last, or its first, element once it is longer than a bound. The loop is proved to compute the
  first, or the last, elements of the whole sorted sequence.
\<close>

section \<open>Binary search\<close>

text \<open>
  \<open>verdict i\<close> is how the element at position \<open>i\<close> compares to what is looked for. The loop
  halves the window \<open>base .. base + width\<close> down to one position.
\<close>

function search_base :: "(nat \<Rightarrow> ordering) \<Rightarrow> nat \<Rightarrow> nat \<Rightarrow> nat" where
  "search_base verdict width base =
     (if 1 < width then
        (let half = width div 2; mid = base + half
         in search_base verdict (width - half) (if verdict mid = Greater then base else mid))
      else base)"
  by pat_completeness auto

termination by (relation "measure (\<lambda>(verdict, width, base). width)") auto

declare search_base.simps [simp del]

text \<open>\<open>Ok\<close> is the position of an equal element, \<open>Err\<close> the position to insert at.\<close>

definition binary_search_by :: "('a \<Rightarrow> ordering) \<Rightarrow> 'a list \<Rightarrow> nat + nat" where
  "binary_search_by f xs =
     (if xs = [] then Inl 0
      else (let base = search_base (\<lambda>i. f (xs ! i)) (length xs) 0 in
            case f (xs ! base) of
              Equal \<Rightarrow> Inr base
            | Less \<Rightarrow> Inl (base + 1)
            | Greater \<Rightarrow> Inl base))"

definition insertion_index :: "nat + nat \<Rightarrow> nat" where
  "insertion_index result = (case result of Inr index \<Rightarrow> index | Inl index \<Rightarrow> index)"

definition insert_at :: "nat \<Rightarrow> 'a \<Rightarrow> 'a list \<Rightarrow> 'a list" where
  "insert_at i x xs = take i xs @ x # drop i xs"

text \<open>The verdicts of a slice ordered for the search: no \<open>Greater\<close> before a verdict that is not.\<close>

definition verdicts_ordered :: "(nat \<Rightarrow> ordering) \<Rightarrow> nat \<Rightarrow> bool" where
  "verdicts_ordered verdict n =
     (\<forall>i j. i < j \<longrightarrow> j < n \<longrightarrow>
        (verdict i = Greater \<longrightarrow> verdict j = Greater) \<and> (verdict j = Less \<longrightarrow> verdict i = Less))"

lemma verdicts_orderedD:
  "verdicts_ordered verdict n \<Longrightarrow> verdict i = Greater \<Longrightarrow> i \<le> j \<Longrightarrow> j < n \<Longrightarrow> verdict j = Greater"
  unfolding verdicts_ordered_def order_le_less by blast

lemma search_base_window:
  assumes "verdicts_ordered verdict n" "0 < width" "base + width \<le> n"
    "\<forall>i<base. verdict i \<noteq> Greater" "\<forall>i<n. base + width \<le> i \<longrightarrow> verdict i = Greater"
  shows "search_base verdict width base < base + width
    \<and> (\<forall>i < search_base verdict width base. verdict i \<noteq> Greater)
    \<and> (\<forall>i<n. search_base verdict width base < i \<longrightarrow> verdict i = Greater)"
  using assms
proof (induction verdict width base rule: search_base.induct)
  case (1 verdict width base)
  show ?case
  proof (cases "1 < width")
    case True
    define half where "half = width div 2"
    have half: "0 < half" "half < width" using True by (auto simp: half_def)
    let ?base = "if verdict (base + half) = Greater then base else base + half"
    have step: "search_base verdict width base = search_base verdict (width - half) ?base"
      using True by (simp add: search_base.simps [of verdict width base] half_def Let_def)
    have mid: "base + half < n" using 1(4) half by simp
    have low: "verdict i \<noteq> Greater" if "i < ?base" for i
    proof (cases "verdict (base + half) = Greater")
      case True
      then show ?thesis using 1(5) that by simp
    next
      case False
      then show ?thesis using verdicts_orderedD [OF 1(2) _ _ mid, of i] that by auto
    qed
    have high: "verdict i = Greater" if "i < n" "?base + (width - half) \<le> i" for i
    proof (cases "verdict (base + half) = Greater")
      case True
      then have "base + half \<le> i" using that half half_def by auto
      then show ?thesis using verdicts_orderedD [OF 1(2) True] that(1) by simp
    next
      case False
      then show ?thesis using 1(6) that half by auto
    qed
    have "search_base verdict (width - half) ?base < ?base + (width - half)
        \<and> (\<forall>i < search_base verdict (width - half) ?base. verdict i \<noteq> Greater)
        \<and> (\<forall>i<n. search_base verdict (width - half) ?base < i \<longrightarrow> verdict i = Greater)"
    proof (rule 1(1) [OF True half_def refl 1(2)])
      show "0 < width - half" using half by simp
      show "?base + (width - half) \<le> n" using 1(4) half by auto
      show "\<forall>i<?base. verdict i \<noteq> Greater" using low by blast
      show "\<forall>i<n. ?base + (width - half) \<le> i \<longrightarrow> verdict i = Greater" using high by blast
    qed
    moreover have "?base + (width - half) \<le> base + width" using half by auto
    ultimately show ?thesis unfolding step by (blast intro: order.strict_trans2)
  next
    case False
    then have "width = 1" "search_base verdict width base = base"
      using 1(3) by (simp_all add: search_base.simps [of verdict width base])
    then show ?thesis using 1(5,6) by simp
  qed
qed

text \<open>Everything before the returned position is at most, everything from it at least equal.\<close>

lemma binary_search_splits:
  assumes "verdicts_ordered (\<lambda>i. f (xs ! i)) (length xs)"
  defines "i \<equiv> insertion_index (binary_search_by f xs)"
  shows "i \<le> length xs" "\<forall>y\<in>set (take i xs). f y \<noteq> Greater" "\<forall>y\<in>set (drop i xs). f y \<noteq> Less"
proof -
  have "i \<le> length xs \<and> (\<forall>j<i. f (xs ! j) \<noteq> Greater) \<and> (\<forall>j<length xs. i \<le> j \<longrightarrow> f (xs ! j) \<noteq> Less)"
  proof (cases "xs = []")
    case False
    define base where "base = search_base (\<lambda>i. f (xs ! i)) (length xs) 0"
    have base: "base < length xs" "\<forall>j<base. f (xs ! j) \<noteq> Greater"
      "\<forall>j<length xs. base < j \<longrightarrow> f (xs ! j) = Greater"
      using search_base_window [OF assms(1), of "length xs" 0] False by (auto simp: base_def)
    show ?thesis
      using False base
      by (auto simp: i_def insertion_index_def binary_search_by_def base_def [symmetric] less_Suc_eq
          order_le_less split: ordering.splits)
  qed (simp add: i_def insertion_index_def binary_search_by_def)
  then show "i \<le> length xs" "\<forall>y\<in>set (take i xs). f y \<noteq> Greater" "\<forall>y\<in>set (drop i xs). f y \<noteq> Less"
    by (auto simp: in_set_conv_nth)
qed

context comparator
begin

lemma verdicts_of_sorted:
  assumes "sorted_by compare xs" "\<forall>y\<in>set xs. dom_ok y" "dom_ok x"
  shows "verdicts_ordered (\<lambda>i. compare (xs ! i) x) (length xs)"
  unfolding verdicts_ordered_def
proof (intro allI impI)
  fix i j assume ij: "i < j" "j < length xs"
  have ok: "dom_ok (xs ! i)" "dom_ok (xs ! j)" using assms(2) ij by auto
  have le: "compare (xs ! i) (xs ! j) \<noteq> Greater"
    using assms(1) ij by (simp add: sorted_by_def sorted_wrt_iff_nth_less)
  show "(compare (xs ! i) x = Greater \<longrightarrow> compare (xs ! j) x = Greater)
      \<and> (compare (xs ! j) x = Less \<longrightarrow> compare (xs ! i) x = Less)"
    using trans_le [OF ok assms(3) le] le_less_trans [OF ok assms(3) le] by auto
qed

text \<open>Inserting at the position found keeps the vector ordered.\<close>

lemma sorted_insert_at_search:
  assumes "sorted_by compare xs" "\<forall>y\<in>set xs. dom_ok y" "dom_ok x"
  shows "sorted_by compare (insert_at (insertion_index (binary_search_by (\<lambda>y. compare y x) xs)) x xs)"
proof -
  define i where "i = insertion_index (binary_search_by (\<lambda>y. compare y x) xs)"
  note split = binary_search_splits [OF verdicts_of_sorted [OF assms], folded i_def]
  have "sorted_by compare (take i xs)" "sorted_by compare (drop i xs)"
    "\<forall>a\<in>set (take i xs). \<forall>b\<in>set (drop i xs). compare a b \<noteq> Greater"
    using assms(1) sorted_by_append [of compare "take i xs" "drop i xs"] by simp_all
  moreover have "compare x y \<noteq> Greater" if "y \<in> set (drop i xs)" for y
    using split(3) that swap [of y x] assms(2,3) set_drop_subset by fastforce
  ultimately show ?thesis
    using split(2) by (simp add: insert_at_def sorted_by_append i_def [symmetric])
qed

lemma insert_by_split:
  assumes "\<forall>y\<in>set ys. compare x y = Greater" "\<forall>z\<in>set zs. compare x z \<noteq> Greater"
  shows "insert_by compare x (ys @ zs) = ys @ x # zs"
  using assms(1)
proof (induction ys)
  case Nil
  then show ?case using assms(2) by (cases zs) auto
qed simp

text \<open>Without a tie there is one place for the new element, and the search finds it.\<close>

lemma insert_at_search:
  assumes "sorted_by compare xs" "\<forall>y\<in>set xs. dom_ok y" "dom_ok x" "\<forall>y\<in>set xs. compare x y \<noteq> Equal"
  shows "insert_at (insertion_index (binary_search_by (\<lambda>y. compare y x) xs)) x xs = insert_by compare x xs"
proof -
  define i where "i = insertion_index (binary_search_by (\<lambda>y. compare y x) xs)"
  note split = binary_search_splits [OF verdicts_of_sorted [OF assms(1-3)], folded i_def]
  have rev_verdict: "compare x y = reverse_ordering (compare y x)" if "y \<in> set xs" for y
    using swap [of y x] that assms(2,3) by simp
  have "\<forall>y\<in>set (take i xs). compare x y = Greater"
  proof
    fix y assume "y \<in> set (take i xs)"
    then have "compare y x \<noteq> Greater" "y \<in> set xs" using split(2) by (simp, auto dest: in_set_takeD)
    then show "compare x y = Greater" using rev_verdict [of y] assms(4) by (cases "compare y x") auto
  qed
  moreover have "\<forall>y\<in>set (drop i xs). compare x y \<noteq> Greater"
  proof
    fix y assume "y \<in> set (drop i xs)"
    then have "compare y x \<noteq> Less" "y \<in> set xs" using split(3) by (simp, auto dest: in_set_dropD)
    then show "compare x y \<noteq> Greater" using rev_verdict [of y] by simp
  qed
  ultimately show ?thesis
    using insert_by_split [of "take i xs" x "drop i xs"] by (simp add: insert_at_def i_def [symmetric])
qed

end

section \<open>Bounded selection\<close>

definition last_n :: "nat \<Rightarrow> 'a list \<Rightarrow> 'a list" where
  "last_n n xs = drop (length xs - n) xs"

text \<open>One step of the loop: insert, then drop from one end what exceeds the bound.\<close>

definition select_first :: "('a \<Rightarrow> 'a \<Rightarrow> ordering) \<Rightarrow> nat \<Rightarrow> 'a \<Rightarrow> 'a list \<Rightarrow> 'a list" where
  "select_first compare bound x selected =
     (let selected = insert_at (insertion_index (binary_search_by (\<lambda>y. compare y x) selected)) x selected
      in if bound < length selected then butlast selected else selected)"

definition select_last :: "('a \<Rightarrow> 'a \<Rightarrow> ordering) \<Rightarrow> nat \<Rightarrow> 'a \<Rightarrow> 'a list \<Rightarrow> 'a list" where
  "select_last compare bound x selected =
     (let selected = insert_at (insertion_index (binary_search_by (\<lambda>y. compare y x) selected)) x selected
      in if bound < length selected then tl selected else selected)"

text \<open>No two of the candidates tie.\<close>

definition no_ties :: "('a \<Rightarrow> 'a \<Rightarrow> ordering) \<Rightarrow> 'a list \<Rightarrow> bool" where
  "no_ties compare xs = sorted_wrt (\<lambda>a b. compare a b \<noteq> Equal) xs"

lemma mset_single_eq: "mset xs = mset ys \<Longrightarrow> ys = [] \<or> ys = [z] \<Longrightarrow> xs = ys"
  by auto

lemma length_insert_by [simp]: "length (insert_by compare x ys) = Suc (length ys)"
  by (induction ys) auto

lemma take_insert_by:
  "take n (insert_by compare x (take n ys)) = take n (insert_by compare x ys)"
proof (induction ys arbitrary: n)
  case (Cons y ys)
  then show ?case by (cases n) (auto simp: take_Cons')
qed simp

lemma length_last_n [simp]: "length (last_n n xs) = min n (length xs)"
  by (auto simp: last_n_def)

lemma last_n_short [simp]: "length xs \<le> n \<Longrightarrow> last_n n xs = xs"
  by (simp add: last_n_def)

lemma last_n_append: "length ys = n \<Longrightarrow> last_n n (xs @ ys) = ys"
  by (simp add: last_n_def)

lemma set_last_n: "set (last_n n xs) \<subseteq> set xs"
  by (simp add: last_n_def set_drop_subset)

lemma set_fold_insert_by: "set (fold (insert_by compare) xs ys) = set xs \<union> set ys"
  by (induction xs arbitrary: ys) auto

context comparator
begin

lemma insert_by_append_left:
  assumes "\<forall>a\<in>set as. compare x a = Greater"
  shows "insert_by compare x (as @ bs) = as @ insert_by compare x bs"
  using assms by (induction as) auto

lemma insert_by_append_right:
  assumes "a \<in> set as" "compare x a \<noteq> Greater"
  shows "insert_by compare x (as @ bs) = insert_by compare x as @ bs"
  using assms by (induction as) auto

lemma last_n_insert_by:
  assumes "sorted_by compare ys" "\<forall>y\<in>set ys. dom_ok y" "dom_ok x" "0 < n"
  shows "last_n n (insert_by compare x (last_n n ys)) = last_n n (insert_by compare x ys)"
proof (cases "length ys \<le> n")
  case False
  define as bs where "as = take (length ys - n) ys" and "bs = drop (length ys - n) ys"
  have ys: "ys = as @ bs" and len: "length bs = n" using False by (auto simp: as_def bs_def)
  have last: "last_n n ys = bs" using ys len by (simp add: last_n_append)
  show ?thesis
  proof (cases "\<forall>a\<in>set as. compare x a = Greater")
    case True
    obtain c cs where ins: "insert_by compare x bs = c # cs" "length cs = n"
      using len length_insert_by [of compare x bs] by (cases "insert_by compare x bs") auto
    have "last_n n (as @ c # cs) = cs" using ins(2) last_n_append [of cs n "as @ [c]"] by simp
    then show ?thesis
      using ins insert_by_append_left [OF True, of bs] ys last last_n_append [of cs n "[c]"] by simp
  next
    case False
    then obtain a where a: "a \<in> set as" "compare x a \<noteq> Greater" by blast
    have "compare x b \<noteq> Greater" if "b \<in> set bs" for b
      using trans_le [of x a b] a that assms ys by (simp add: sorted_by_append)
    then have "insert_by compare x bs = x # bs" by (cases bs) auto
    then show ?thesis
      using insert_by_append_right [OF a, of bs] ys last len last_n_append [of bs n "[x]"]
      by (simp add: last_n_append)
  qed
qed simp

lemma sorted_fold_insert_by:
  assumes "\<forall>x\<in>set xs. dom_ok x" "\<forall>y\<in>set ys. dom_ok y" "sorted_by compare ys"
  shows "sorted_by compare (fold (insert_by compare) xs ys)"
  using assms by (induction xs arbitrary: ys) (simp_all add: sorted_insert_by)

lemma fold_insert_by_sort:
  assumes "\<forall>x\<in>set xs. dom_ok x" "no_ties compare xs"
  shows "fold (insert_by compare) xs [] = sort_by compare xs"
proof -
  have mset: "mset (fold (insert_by compare) xs ys) = mset xs + mset ys" for ys
    by (induction xs arbitrary: ys) simp_all
  let ?l = "fold (insert_by compare) xs []"
  have single: "\<exists>z. filter (\<lambda>y. compare a y = Equal) zs = [] \<or> filter (\<lambda>y. compare a y = Equal) zs = [z]"
    if "no_ties compare zs" "dom_ok a" "\<forall>z\<in>set zs. dom_ok z" for a zs
    using that
  proof (induction zs)
    case (Cons z zs)
    have "filter (\<lambda>y. compare a y = Equal) zs = []" if z: "compare a z = Equal"
    proof -
      have "compare a y \<noteq> Equal" if "y \<in> set zs" for y
        using Cons.prems that z equal_sym [of a z] equal_trans [of z a y] by (auto simp: no_ties_def)
      then show ?thesis by (simp add: filter_empty_conv)
    qed
    with Cons show ?case by (auto simp: no_ties_def)
  qed simp
  show ?thesis
  proof (rule sorted_stable_unique)
    fix a assume a: "dom_ok a"
    have "mset (filter (\<lambda>y. compare a y = Equal) ?l) = mset (filter (\<lambda>y. compare a y = Equal) xs)"
      using mset [of "[]"] by (simp add: mset_filter)
    then have "filter (\<lambda>y. compare a y = Equal) ?l = filter (\<lambda>y. compare a y = Equal) xs"
      using single [OF assms(2) a assms(1)] by (blast intro: mset_single_eq)
    then show "filter (\<lambda>y. compare a y = Equal) ?l = filter (\<lambda>y. compare a y = Equal) (sort_by compare xs)"
      using stable_sort_by [OF a assms(1)] by simp
  qed (use assms sorted_fold_insert_by [of xs "[]"] sorted_sort_by [of xs] set_fold_insert_by [of compare xs "[]"]
        in simp_all)
qed

text \<open>One step keeps the selection the first, or the last, elements of what was seen.\<close>

lemma select_first_step:
  assumes "sorted_by compare ys" "\<forall>y\<in>set ys. dom_ok y" "dom_ok x" "\<forall>y\<in>set ys. compare x y \<noteq> Equal"
  shows "select_first compare bound x (take bound ys) = take bound (insert_by compare x ys)"
proof -
  have "sorted_by compare (take bound ys)"
    using assms(1) by (simp add: sorted_by_def sorted_wrt_take)
  then have "insert_at (insertion_index (binary_search_by (\<lambda>y. compare y x) (take bound ys))) x (take bound ys)
      = insert_by compare x (take bound ys)"
    using assms(2-4) by (intro insert_at_search) (auto dest: in_set_takeD)
  then show ?thesis
    using take_insert_by [of bound compare x ys] by (auto simp: select_first_def Let_def butlast_conv_take)
qed

lemma select_last_step:
  assumes "sorted_by compare ys" "\<forall>y\<in>set ys. dom_ok y" "dom_ok x" "\<forall>y\<in>set ys. compare x y \<noteq> Equal"
    "0 < bound"
  shows "select_last compare bound x (last_n bound ys) = last_n bound (insert_by compare x ys)"
proof -
  have "sorted_by compare (last_n bound ys)"
    using assms(1) by (simp add: sorted_by_def last_n_def sorted_wrt_drop)
  then have ins: "insert_at (insertion_index (binary_search_by (\<lambda>y. compare y x) (last_n bound ys))) x
      (last_n bound ys) = insert_by compare x (last_n bound ys)"
    using assms(2-4) set_last_n [of bound ys] by (intro insert_at_search) auto
  have "last_n bound zs = tl zs" if "length zs = Suc bound" for zs :: "'a list"
    using that by (simp add: last_n_def drop_Suc)
  then show ?thesis
    using last_n_insert_by [OF assms(1-3,5)] ins
    by (cases "bound \<le> length ys") (simp_all add: select_last_def Let_def)
qed

lemma fold_select_first:
  assumes "\<forall>x\<in>set xs. dom_ok x" "\<forall>y\<in>set ys. dom_ok y" "sorted_by compare ys" "no_ties compare xs"
    "\<forall>x\<in>set xs. \<forall>y\<in>set ys. compare x y \<noteq> Equal"
  shows "fold (select_first compare bound) xs (take bound ys) = take bound (fold (insert_by compare) xs ys)"
  using assms
proof (induction xs arbitrary: ys)
  case (Cons x xs)
  have "select_first compare bound x (take bound ys) = take bound (insert_by compare x ys)"
    using Cons.prems by (intro select_first_step) auto
  moreover have "compare z x \<noteq> Equal" if "z \<in> set xs" for z
    using Cons.prems(1,4) that equal_sym [of z x] by (auto simp: no_ties_def)
  ultimately show ?case
    using Cons.IH [of "insert_by compare x ys"] Cons.prems sorted_insert_by [of x ys]
    by (simp add: no_ties_def)
qed simp

lemma fold_select_last:
  assumes "\<forall>x\<in>set xs. dom_ok x" "\<forall>y\<in>set ys. dom_ok y" "sorted_by compare ys" "no_ties compare xs"
    "\<forall>x\<in>set xs. \<forall>y\<in>set ys. compare x y \<noteq> Equal" "0 < bound"
  shows "fold (select_last compare bound) xs (last_n bound ys) = last_n bound (fold (insert_by compare) xs ys)"
  using assms
proof (induction xs arbitrary: ys)
  case (Cons x xs)
  have "select_last compare bound x (last_n bound ys) = last_n bound (insert_by compare x ys)"
    using Cons.prems by (intro select_last_step) auto
  moreover have "compare z x \<noteq> Equal" if "z \<in> set xs" for z
    using Cons.prems(1,4) that equal_sym [of z x] by (auto simp: no_ties_def)
  ultimately show ?case
    using Cons.IH [of "insert_by compare x ys"] Cons.prems sorted_insert_by [of x ys]
    by (simp add: no_ties_def)
qed simp

text \<open>The bounded loops compute the ends of the whole sorted sequence.\<close>

lemma bounded_first:
  assumes "\<forall>x\<in>set xs. dom_ok x" "no_ties compare xs"
  shows "fold (select_first compare bound) xs [] = take bound (sort_by compare xs)"
  using fold_select_first [OF assms(1), of "[]" bound] fold_insert_by_sort [OF assms] assms(2) by simp

lemma bounded_last:
  assumes "\<forall>x\<in>set xs. dom_ok x" "no_ties compare xs" "0 < bound"
  shows "fold (select_last compare bound) xs [] = last_n bound (sort_by compare xs)"
  using fold_select_last [OF assms(1), of "[]" bound] fold_insert_by_sort [OF assms(1,2)] assms(2,3) by simp

lemma no_ties_distinct:
  assumes "distinct xs" "\<And>a b. a \<in> set xs \<Longrightarrow> b \<in> set xs \<Longrightarrow> compare a b = Equal \<Longrightarrow> a = b"
  shows "no_ties compare xs"
  using assms by (induction xs) (auto simp: no_ties_def)

text \<open>Without ties the order of the input does not matter.\<close>

lemma sort_by_mset:
  assumes "mset xs = mset ys" "distinct xs" "\<forall>x\<in>set xs. dom_ok x"
    "\<And>a b. a \<in> set xs \<Longrightarrow> b \<in> set xs \<Longrightarrow> compare a b = Equal \<Longrightarrow> a = b"
  shows "sort_by compare xs = sort_by compare ys"
proof (rule sorted_stable_unique)
  have set: "set ys = set xs" using assms(1) by (metis set_mset_mset)
  show "sorted_by compare (sort_by compare xs)" "sorted_by compare (sort_by compare ys)"
    using assms(3) set by (auto intro: sorted_sort_by)
  show "\<forall>x\<in>set (sort_by compare xs). dom_ok x" "\<forall>y\<in>set (sort_by compare ys). dom_ok y"
    using assms(3) set by simp_all
  fix a assume a: "dom_ok a"
  let ?P = "\<lambda>y. compare a y = Equal"
  have "filter ?P xs = [] \<or> (\<exists>z. filter ?P xs = [z])"
  proof (cases "filter ?P xs")
    case (Cons z zs)
    have "y = z" if "y \<in> set zs" for y
    proof -
      have "y \<in> set (filter ?P xs)" "z \<in> set (filter ?P xs)" using that Cons by simp_all
      then have yz: "y \<in> set xs" "z \<in> set xs" "compare a y = Equal" "compare a z = Equal" by simp_all
      then have "compare y z = Equal"
        using assms(3) a equal_sym [of a y] equal_trans [of y a z] by blast
      then show ?thesis using assms(4) yz by blast
    qed
    moreover have "distinct (z # zs)" using distinct_filter [OF assms(2), of ?P] Cons by simp
    ultimately have "zs = []" by (cases zs) auto
    then show ?thesis using Cons by simp
  qed simp
  moreover have "mset (filter ?P ys) = mset (filter ?P xs)" using assms(1) by (simp add: mset_filter)
  ultimately have "filter ?P ys = filter ?P xs" by (blast intro: mset_single_eq)
  then show "filter ?P (sort_by compare xs) = filter ?P (sort_by compare ys)"
    using stable_sort_by [OF a, of xs] stable_sort_by [OF a, of ys] assms(3) set by simp
qed

lemma sorted_unique:
  assumes "sorted_by compare xs" "sorted_by compare ys" "distinct xs" "distinct ys" "set xs = set ys"
    "\<forall>x\<in>set xs. dom_ok x" "\<And>a b. a \<in> set xs \<Longrightarrow> b \<in> set xs \<Longrightarrow> compare a b = Equal \<Longrightarrow> a = b"
  shows "xs = ys"
proof -
  have "mset xs = mset ys" using assms(3-5) set_eq_iff_mset_eq_distinct by blast
  then have "sort_by compare xs = sort_by compare ys" using assms(3,6,7) by (rule sort_by_mset)
  then show ?thesis using sort_by_sorted_id assms(1,2,5,6) by simp
qed

lemma distinct_remdups_adj_sorted:
  assumes "sorted_by compare xs" "\<forall>x\<in>set xs. dom_ok x"
    "\<And>a b. a \<in> set xs \<Longrightarrow> b \<in> set xs \<Longrightarrow> compare a b = Equal \<Longrightarrow> a = b"
  shows "distinct (remdups_adj xs)"
  using assms
proof (induction xs rule: remdups_adj.induct)
  case (3 x y xs)
  show ?case
  proof (cases "x = y")
    case False
    have "x \<noteq> z" if "z \<in> set (y # xs)" for z
    proof
      assume "x = z"
      then have "compare y x \<noteq> Greater" using 3(3) that refl [of y] 3(4) by auto
      then have "compare x y = Equal" using 3(3,4) swap [of x y] by (cases "compare x y") auto
      then show False using 3(5) [of x y] False by simp
    qed
    then have "x \<notin> set (y # xs)" by blast
    moreover have "distinct (remdups_adj (y # xs))"
      by (rule 3(2) [OF False]) (use 3(3,4) in simp, use 3(3,4) in simp, rule 3(5), simp_all)
    ultimately show ?thesis using False by simp
  next
    case True
    have "distinct (remdups_adj (x # xs))"
      by (rule 3(1) [OF True]) (use 3(3,4) in simp, use 3(3,4) in simp, rule 3(5), auto simp: True)
    then show ?thesis using True by simp
  qed
qed simp_all

end

end
