(* ===== verification/Query.thy ===== *)
theory Query
  imports Compare Snapshots Bounded_Select
begin

text \<open>
  Structured queries of \<open>query-engine\<close> (\<open>query-engine/src/query.rs\<close>): field paths and their wire
  syntax, the query builder, normalized orders, filters, cursors, the candidates of a query and
  its three executions (streaming, ordered reload, bounded buffer), the nearest-neighbour stage,
  projections, partitions and aggregations.

  A document is modelled decoded; \<open>LazyDocument::field\<close> then is a nested field lookup. A snapshot
  that a disk store backs is represented by the same contents with \<open>disk_backed\<close> set. The
  precision of \<open>f64::hypot\<close> is unspecified by the standard library, so it is the argument
  \<open>hypot\<close>. An \<open>expect\<close> is a \<open>the\<close>, and lemmas show the value present.
\<close>

section \<open>Field paths\<close>

datatype QueryError =
    InvalidFieldPath
  | InvalidScope string
  | CursorTooLong
  | InvalidPartitionCount
  | UnsupportedPartitionQuery
  | InvalidVectorField
  | InvalidQueryVectorDimension
  | InvalidVectorLimit
  | UnsupportedVectorShape
  | DocumentKeyOrderNotLast
  | DocumentKeyEqualityWithOtherInequality

datatype QFieldPath = DocumentId | Field "string list"

fun path_tuple :: "QFieldPath \<Rightarrow> nat \<times> string list" where
  "path_tuple DocumentId = (0, [])"
| "path_tuple (Field names) = (1, names)"

lemma path_tuple_inj [simp]: "(path_tuple p = path_tuple q) = (p = q)"
  by (cases p; cases q) auto

text \<open>The derived order: \<open>DocumentId\<close> first, then fields by their segments.\<close>

instantiation QFieldPath :: linorder
begin

definition less_eq_QFieldPath :: "QFieldPath \<Rightarrow> QFieldPath \<Rightarrow> bool" where
  "less_eq_QFieldPath p q = (path_tuple p \<le> path_tuple q)"

definition less_QFieldPath :: "QFieldPath \<Rightarrow> QFieldPath \<Rightarrow> bool" where
  "less_QFieldPath p q = (path_tuple p < path_tuple q)"

instance
proof
  fix p q r :: QFieldPath
  show "(p < q) = (p \<le> q \<and> \<not> q \<le> p)"
    by (simp add: less_eq_QFieldPath_def less_QFieldPath_def less_le_not_le)
  show "p \<le> p" by (simp add: less_eq_QFieldPath_def)
  show "p \<le> q \<Longrightarrow> q \<le> r \<Longrightarrow> p \<le> r" unfolding less_eq_QFieldPath_def by (rule order_trans)
  show "p \<le> q \<Longrightarrow> q \<le> p \<Longrightarrow> p = q"
    unfolding less_eq_QFieldPath_def using order_antisym path_tuple_inj by blast
  show "p \<le> q \<or> q \<le> p" unfolding less_eq_QFieldPath_def by (rule linear)
qed

end

definition QFieldPath_field :: "string list \<Rightarrow> QueryError + QFieldPath" where
  "QFieldPath_field names =
     (if names = [] \<or> (\<exists>s\<in>set names. s = []) then Inl InvalidFieldPath else Inr (Field names))"

definition is_ascii_alphabetic :: "char \<Rightarrow> bool" where
  "is_ascii_alphabetic c =
     (let code = (of_char c :: nat) in 65 \<le> code \<and> code \<le> 90 \<or> 97 \<le> code \<and> code \<le> 122)"

definition is_ascii_alphanumeric :: "char \<Rightarrow> bool" where
  "is_ascii_alphanumeric c = (is_ascii_alphabetic c \<or> is_ascii_digit c)"

fun is_simple_field_segment :: "string \<Rightarrow> bool" where
  "is_simple_field_segment [] = False"
| "is_simple_field_segment (first # characters) =
     ((first = CHR ''_'' \<or> is_ascii_alphabetic first)
      \<and> list_all (\<lambda>c. c = CHR ''_'' \<or> is_ascii_alphanumeric c) characters)"

text \<open>
  The segment after an opening backtick, up to the closing one. The markers are ASCII, so
  reading bytes and reading characters give the same segments.
\<close>

definition backtick :: char where
  "backtick = CHR 0x60"

definition backslash :: char where
  "backslash = CHR 0x5C"

fun quoted_segment :: "string \<Rightarrow> string \<Rightarrow> QueryError + string \<times> string" where
  "quoted_segment segment [] = Inl InvalidFieldPath"
| "quoted_segment segment (c # characters) =
     (if c = backtick then Inr (segment, characters)
      else if c = backslash then
        (case characters of
           [] \<Rightarrow> Inl InvalidFieldPath
         | escaped # rest \<Rightarrow> quoted_segment (segment @ [escaped]) rest)
      else quoted_segment (segment @ [c]) characters)"

definition bare_segment :: "string \<Rightarrow> QueryError + string \<times> string" where
  "bare_segment characters =
     (let segment = takeWhile (\<lambda>c. c \<noteq> CHR ''.'') characters in
      if is_simple_field_segment segment
      then Inr (segment, dropWhile (\<lambda>c. c \<noteq> CHR ''.'') characters)
      else Inl InvalidFieldPath)"

definition next_segment :: "string \<Rightarrow> QueryError + string \<times> string" where
  "next_segment characters =
     (case characters of
        c # rest \<Rightarrow> if c = backtick then quoted_segment [] rest else bare_segment characters
      | [] \<Rightarrow> bare_segment characters)"

lemma quoted_segment_shorter:
  "quoted_segment segment characters = Inr (segment', rest) \<Longrightarrow> length rest < length characters"
  by (induction segment characters rule: quoted_segment.induct)
    (auto split: if_splits list.splits)

lemma next_segment_shorter:
  "next_segment characters = Inr (segment, rest) \<Longrightarrow> length rest \<le> length characters"
  using quoted_segment_shorter length_dropWhile_le [of _ characters]
  by (fastforce simp: next_segment_def bare_segment_def Let_def split: list.splits if_splits)

function wire_segments :: "string list \<Rightarrow> string \<Rightarrow> QueryError + string list" where
  "wire_segments names characters =
     (if characters = [] then Inr names
      else (case next_segment characters of
              Inl e \<Rightarrow> Inl e
            | Inr (segment, rest) \<Rightarrow>
                if segment = [] then Inl InvalidFieldPath
                else (case rest of
                        [] \<Rightarrow> Inr (names @ [segment])
                      | c # rest' \<Rightarrow>
                          if c = CHR ''.'' \<and> rest' \<noteq> [] then wire_segments (names @ [segment]) rest'
                          else Inl InvalidFieldPath)))"
  by pat_completeness auto

termination
  by (relation "measure (\<lambda>(names, characters). length characters)")
    (auto dest: next_segment_shorter)

declare wire_segments.simps [simp del]

definition parse_wire :: "string \<Rightarrow> QueryError + QFieldPath" where
  "parse_wire path =
     (if path = ''__name__'' then Inr DocumentId
      else result_bind (wire_segments [] path) QFieldPath_field)"

definition config_segment :: "string \<Rightarrow> string" where
  "config_segment segment =
     (if is_simple_field_segment segment then segment
      else [backtick] @ replace_char backtick [backslash, backtick]
             (replace_char backslash [backslash, backslash] segment) @ [backtick])"

fun config_name :: "QFieldPath \<Rightarrow> string option" where
  "config_name DocumentId = None"
| "config_name (Field names) = Some (join_char (CHR ''.'') (map config_segment names))"

section \<open>Queries\<close>

datatype QueryScope = Collection string | CollectionGroup string

definition QueryScope_collection :: "string \<Rightarrow> QueryError + QueryScope" where
  "QueryScope_collection path =
     (let pieces = split_char (CHR ''/'') path in
      if pieces = [] \<or> even (length pieces) \<or> (\<exists>s\<in>set pieces. s = [])
      then Inl (InvalidScope path) else Inr (Collection path))"

definition QueryScope_collection_group :: "string \<Rightarrow> QueryError + QueryScope" where
  "QueryScope_collection_group collection_id =
     (if collection_id = [] \<or> CHR ''/'' \<in> set collection_id
      then Inl (InvalidScope collection_id) else Inr (CollectionGroup collection_id))"

datatype FieldOperator =
    OpEqual | OpLessThan | OpLessThanOrEqual | OpGreaterThan | OpGreaterThanOrEqual
  | OpNotEqual | OpIn | OpNotIn | OpArrayContains | OpArrayContainsAny

record FieldFilter =
  filter_path :: QFieldPath
  filter_operator :: FieldOperator
  filter_value :: Value

datatype Filter = FieldPred FieldFilter | And "Filter list" | Or "Filter list"

datatype Direction = Ascending | Descending

record Order =
  order_path :: QFieldPath
  order_direction :: Direction

record Cursor =
  cursor_values :: "Value list"
  cursor_inclusive :: bool

datatype Limit = First nat | Last nat

datatype DistanceMeasure = Euclidean | Cosine | DotProduct

record Nearest =
  vector_field :: QFieldPath
  query_vector :: "f64 list"
  distance_measure :: DistanceMeasure
  nearest_limit :: nat
  distance_result_field :: "QFieldPath option"
  distance_threshold :: "f64 option"

record Query =
  query_scope :: QueryScope
  query_ancestor :: "string option"
  query_filter :: "Filter option"
  query_orders :: "Order list"
  query_start :: "Cursor option"
  query_end :: "Cursor option"
  query_offset :: nat
  query_limit :: "Limit option"
  query_projection :: "QFieldPath list option"
  query_nearest :: "Nearest option"

definition Query_new :: "QueryScope \<Rightarrow> Query" where
  "Query_new s =
     \<lparr>query_scope = s, query_ancestor = None, query_filter = None, query_orders = [],
      query_start = None, query_end = None, query_offset = 0, query_limit = None,
      query_projection = None, query_nearest = None\<rparr>"

definition split_path :: "string \<Rightarrow> string list" where
  "split_path path = filter (\<lambda>segment. segment \<noteq> []) (split_char (CHR ''/'') path)"

definition under_ancestor :: "Query \<Rightarrow> string \<Rightarrow> QueryError + Query" where
  "under_ancestor q path =
     (let pieces = split_path path in
      if (case query_scope q of CollectionGroup _ \<Rightarrow> False | Collection _ \<Rightarrow> True)
         \<or> pieces = [] \<or> odd (length pieces) \<or> join_char (CHR ''/'') pieces \<noteq> path
      then Inl (InvalidScope path) else Inr (q\<lparr>query_ancestor := Some path\<rparr>))"

definition filter_by :: "Query \<Rightarrow> Filter \<Rightarrow> Query" where
  "filter_by q f = q\<lparr>query_filter := Some f\<rparr>"

definition order_by :: "Query \<Rightarrow> QFieldPath \<Rightarrow> Direction \<Rightarrow> Query" where
  "order_by q path direction =
     q\<lparr>query_orders := query_orders q @ [\<lparr>order_path = path, order_direction = direction\<rparr>]\<rparr>"

definition start_at :: "Query \<Rightarrow> Value list \<Rightarrow> Query" where
  "start_at q vs = q\<lparr>query_start := Some \<lparr>cursor_values = vs, cursor_inclusive = True\<rparr>\<rparr>"

definition start_after :: "Query \<Rightarrow> Value list \<Rightarrow> Query" where
  "start_after q vs = q\<lparr>query_start := Some \<lparr>cursor_values = vs, cursor_inclusive = False\<rparr>\<rparr>"

definition end_at :: "Query \<Rightarrow> Value list \<Rightarrow> Query" where
  "end_at q vs = q\<lparr>query_end := Some \<lparr>cursor_values = vs, cursor_inclusive = True\<rparr>\<rparr>"

definition end_before :: "Query \<Rightarrow> Value list \<Rightarrow> Query" where
  "end_before q vs = q\<lparr>query_end := Some \<lparr>cursor_values = vs, cursor_inclusive = False\<rparr>\<rparr>"

definition offset_by :: "Query \<Rightarrow> nat \<Rightarrow> Query" where
  "offset_by q n = q\<lparr>query_offset := n\<rparr>"

definition limit_to :: "Query \<Rightarrow> Limit \<Rightarrow> Query" where
  "limit_to q l = q\<lparr>query_limit := Some l\<rparr>"

definition select_fields :: "Query \<Rightarrow> QFieldPath list \<Rightarrow> Query" where
  "select_fields q paths = q\<lparr>query_projection := Some paths\<rparr>"

definition find_nearest :: "Query \<Rightarrow> QFieldPath \<Rightarrow> f64 list \<Rightarrow> DistanceMeasure \<Rightarrow> nat \<Rightarrow>
    QFieldPath option \<Rightarrow> f64 option \<Rightarrow> QueryError + Query" where
  "find_nearest q field vector dm max_count result_field threshold =
     (if field = DocumentId \<or> result_field = Some DocumentId then Inl InvalidVectorField
      else if vector = [] \<or> 2048 < length vector then Inl InvalidQueryVectorDimension
      else if max_count = 0 \<or> 1000 < max_count then Inl InvalidVectorLimit
      else Inr (q\<lparr>query_nearest := Some
        \<lparr>vector_field = field, query_vector = vector, distance_measure = dm,
         nearest_limit = max_count, distance_result_field = result_field,
         distance_threshold = threshold\<rparr>\<rparr>))"

record QueryDocument =
  result_key :: DocumentKey
  result_document :: Document
  result_projected :: "Fields option"

definition QueryDocument_fields :: "QueryDocument \<Rightarrow> Fields" where
  "QueryDocument_fields d =
     (case result_projected d of Some projected \<Rightarrow> projected | None \<Rightarrow> Document.fields (result_document d))"

section \<open>Field values and filters\<close>

datatype FieldValue = FieldVal Value | DocumentName string

fun as_value :: "FieldValue \<Rightarrow> Value option" where
  "as_value (FieldVal v) = Some v"
| "as_value (DocumentName _) = None"

fun FieldValue_compare :: "FieldValue \<Rightarrow> Value \<Rightarrow> DatabaseEdition \<Rightarrow> ordering" where
  "FieldValue_compare (FieldVal left) right ed = compare_values ed left right"
| "FieldValue_compare (DocumentName left) right ed =
     (case right of
        Reference name \<Rightarrow> compare_resource_paths left name
      | StringValue name \<Rightarrow> compare_resource_paths left name
      | _ \<Rightarrow> Greater)"

fun values_share_range_domain :: "Value \<Rightarrow> Value \<Rightarrow> bool" where
  "values_share_range_domain (Integer _) right =
     (case right of Double r \<Rightarrow> \<not> f64_is_nan r | Integer _ \<Rightarrow> True | _ \<Rightarrow> False)"
| "values_share_range_domain (Double l) right =
     (case right of
        Integer _ \<Rightarrow> \<not> f64_is_nan l
      | Double r \<Rightarrow> \<not> f64_is_nan l \<and> \<not> f64_is_nan r
      | _ \<Rightarrow> False)"
| "values_share_range_domain Null right = (case right of Null \<Rightarrow> True | _ \<Rightarrow> False)"
| "values_share_range_domain (Boolean _) right = (case right of Boolean _ \<Rightarrow> True | _ \<Rightarrow> False)"
| "values_share_range_domain (TimestampValue _) right = (case right of TimestampValue _ \<Rightarrow> True | _ \<Rightarrow> False)"
| "values_share_range_domain (StringValue _) right = (case right of StringValue _ \<Rightarrow> True | _ \<Rightarrow> False)"
| "values_share_range_domain (Bytes _) right = (case right of Bytes _ \<Rightarrow> True | _ \<Rightarrow> False)"
| "values_share_range_domain (Reference _) right = (case right of Reference _ \<Rightarrow> True | _ \<Rightarrow> False)"
| "values_share_range_domain (GeoPoint _ _) right = (case right of GeoPoint _ _ \<Rightarrow> True | _ \<Rightarrow> False)"
| "values_share_range_domain (Array _) right = (case right of Array _ \<Rightarrow> True | _ \<Rightarrow> False)"
| "values_share_range_domain (Vector _) right = (case right of Vector _ \<Rightarrow> True | _ \<Rightarrow> False)"
| "values_share_range_domain (MapValue _) right = (case right of MapValue _ \<Rightarrow> True | _ \<Rightarrow> False)"

fun range_compare :: "FieldValue \<Rightarrow> Value \<Rightarrow> DatabaseEdition \<Rightarrow> ordering option" where
  "range_compare (FieldVal left) right ed =
     (if values_share_range_domain left right then Some (compare_values ed left right) else None)"
| "range_compare (DocumentName left) right ed =
     (case right of
        Reference name \<Rightarrow> Some (compare_resource_paths left name)
      | StringValue name \<Rightarrow> Some (compare_resource_paths left name)
      | _ \<Rightarrow> None)"

definition LazyDocument_field :: "Document \<Rightarrow> string list \<Rightarrow> Value option" where
  "LazyDocument_field document names = nested_value (Document.fields document) names"

fun field_value :: "DocumentKey \<Rightarrow> Document \<Rightarrow> QFieldPath \<Rightarrow> FieldValue option" where
  "field_value key document DocumentId = Some (DocumentName (DocumentKey_display key))"
| "field_value key document (Field names) = map_option FieldVal (LazyDocument_field document names)"

fun is_membership_sentinel :: "Value \<Rightarrow> bool" where
  "is_membership_sentinel Null = True"
| "is_membership_sentinel (Double number) = f64_is_nan number"
| "is_membership_sentinel _ = False"

text \<open>One operator applied to the value a field has.\<close>

fun operator_matches :: "FieldOperator \<Rightarrow> FieldValue \<Rightarrow> Value \<Rightarrow> DatabaseEdition \<Rightarrow> bool" where
  "operator_matches OpEqual left v ed = (FieldValue_compare left v ed = Equal)"
| "operator_matches OpLessThan left v ed = (range_compare left v ed = Some Less)"
| "operator_matches OpLessThanOrEqual left v ed =
     (case range_compare left v ed of Some verdict \<Rightarrow> verdict \<noteq> Greater | None \<Rightarrow> False)"
| "operator_matches OpGreaterThan left v ed = (range_compare left v ed = Some Greater)"
| "operator_matches OpGreaterThanOrEqual left v ed =
     (case range_compare left v ed of Some verdict \<Rightarrow> verdict \<noteq> Less | None \<Rightarrow> False)"
| "operator_matches OpNotEqual left v ed =
     (as_value left \<noteq> Some Null \<and> FieldValue_compare left v ed \<noteq> Equal)"
| "operator_matches OpIn left v ed =
     (case v of
        Array vs \<Rightarrow> list_ex (\<lambda>right. FieldValue_compare left right ed = Equal)
                      (filter (\<lambda>right. \<not> is_membership_sentinel right) vs)
      | _ \<Rightarrow> False)"
| "operator_matches OpNotIn left v ed =
     (case v of
        Array vs \<Rightarrow>
          if list_ex (\<lambda>right. right = Null) vs then False
          else if as_value left = Some Null then False
          else list_all (\<lambda>right. FieldValue_compare left right ed \<noteq> Equal) vs
      | _ \<Rightarrow> False)"
| "operator_matches OpArrayContains left v ed =
     (case as_value left of
        Some (Array vs) \<Rightarrow> list_ex (\<lambda>x. compare_values ed x v = Equal) vs
      | _ \<Rightarrow> False)"
| "operator_matches OpArrayContainsAny left v ed =
     (case (as_value left, v) of
        (Some (Array ls), Array rs) \<Rightarrow>
          list_ex (\<lambda>l. list_ex (\<lambda>r. compare_values ed l r = Equal)
                    (filter (\<lambda>r. \<not> is_membership_sentinel r) rs)) ls
      | _ \<Rightarrow> False)"

definition field_filter_matches ::
    "FieldFilter \<Rightarrow> DocumentKey \<Rightarrow> Document \<Rightarrow> DatabaseEdition \<Rightarrow> bool" where
  "field_filter_matches f key document ed =
     (case field_value key document (filter_path f) of
        None \<Rightarrow> False
      | Some left \<Rightarrow> operator_matches (filter_operator f) left (filter_value f) ed)"

fun filter_matches :: "Filter \<Rightarrow> DocumentKey \<Rightarrow> Document \<Rightarrow> DatabaseEdition \<Rightarrow> bool" where
  "filter_matches (FieldPred f) key document ed = field_filter_matches f key document ed"
| "filter_matches (And fs) key document ed = list_all (\<lambda>f. filter_matches f key document ed) fs"
| "filter_matches (Or fs) key document ed = list_ex (\<lambda>f. filter_matches f key document ed) fs"

section \<open>Orders and cursors\<close>

definition is_inequality :: "FieldOperator \<Rightarrow> bool" where
  "is_inequality operator =
     (operator \<in> {OpLessThan, OpLessThanOrEqual, OpGreaterThan, OpGreaterThanOrEqual, OpNotEqual, OpNotIn})"

fun collect_inequality_fields :: "Filter \<Rightarrow> QFieldPath ord_set" where
  "collect_inequality_fields (FieldPred f) =
     (if is_inequality (filter_operator f) then os_of_list [filter_path f] else [])"
| "collect_inequality_fields (And fs) = os_of_list (concat (map collect_inequality_fields fs))"
| "collect_inequality_fields (Or fs) = os_of_list (concat (map collect_inequality_fields fs))"

fun contains_field_filter :: "Filter \<Rightarrow> QFieldPath \<Rightarrow> FieldOperator \<Rightarrow> bool" where
  "contains_field_filter (FieldPred f) path operator =
     (filter_path f = path \<and> filter_operator f = operator)"
| "contains_field_filter (And fs) path operator =
     list_ex (\<lambda>f. contains_field_filter f path operator) fs"
| "contains_field_filter (Or fs) path operator =
     list_ex (\<lambda>f. contains_field_filter f path operator) fs"

text \<open>The loop over the inequality fields, with the orders and the set of fields they name.\<close>

fun add_inequality_orders ::
    "QFieldPath list \<Rightarrow> Direction \<Rightarrow> Order list \<Rightarrow> QFieldPath ord_set \<Rightarrow> Order list \<times> QFieldPath ord_set" where
  "add_inequality_orders [] direction ords normalized = (ords, normalized)"
| "add_inequality_orders (path # paths) direction ords normalized =
     (if path \<noteq> DocumentId \<and> path \<notin> set normalized
      then add_inequality_orders paths direction
             (ords @ [\<lparr>order_path = path, order_direction = direction\<rparr>]) (os_insert path normalized)
      else add_inequality_orders paths direction ords normalized)"

definition order_position :: "(Order \<Rightarrow> bool) \<Rightarrow> Order list \<Rightarrow> nat option" where
  "order_position P ords =
     (let n = length (takeWhile (\<lambda>x. \<not> P x) ords) in if n < length ords then Some n else None)"

definition completed_orders :: "Query \<Rightarrow> QFieldPath list \<Rightarrow> Order list" where
  "completed_orders q inequality_fields =
     (let direction = (if query_orders q = [] then Ascending
                       else order_direction (last (query_orders q)));
          (ords, normalized) = add_inequality_orders inequality_fields direction (query_orders q)
            (os_of_list (map order_path (query_orders q)))
      in if DocumentId \<notin> set normalized
         then ords @ [\<lparr>order_path = DocumentId, order_direction = direction\<rparr>] else ords)"

definition normalized_orders :: "Query \<Rightarrow> QueryError + Order list" where
  "normalized_orders q =
     (let inequality_fields = (case query_filter q of None \<Rightarrow> [] | Some f \<Rightarrow> collect_inequality_fields f) in
      if (case query_filter q of None \<Rightarrow> False | Some f \<Rightarrow> contains_field_filter f DocumentId OpEqual)
         \<and> list_ex (\<lambda>path. path \<noteq> DocumentId) inequality_fields
         \<and> DocumentId \<notin> set inequality_fields
      then Inl DocumentKeyEqualityWithOtherInequality
      else
        (let ords = completed_orders q inequality_fields
         in case order_position (\<lambda>x. order_path x = DocumentId) ords of
              Some position \<Rightarrow> if position + 1 \<noteq> length ords then Inl DocumentKeyOrderNotLast else Inr ords
            | None \<Rightarrow> Inr ords))"

fun apply_direction :: "ordering \<Rightarrow> Direction \<Rightarrow> ordering" where
  "apply_direction verdict Ascending = verdict"
| "apply_direction verdict Descending = reverse_ordering verdict"

fun compare_field_values :: "DatabaseEdition \<Rightarrow> FieldValue \<Rightarrow> FieldValue \<Rightarrow> ordering" where
  "compare_field_values ed (FieldVal left) (FieldVal right) = compare_values ed left right"
| "compare_field_values ed (DocumentName left) (DocumentName right) = compare_resource_paths left right"
| "compare_field_values ed (FieldVal _) (DocumentName _) = Less"
| "compare_field_values ed (DocumentName _) (FieldVal _) = Greater"

text \<open>The order keys of a candidate; \<open>None\<close> stands for the resource name.\<close>

definition order_values :: "DocumentKey \<Rightarrow> Document \<Rightarrow> Order list \<Rightarrow> Value option list" where
  "order_values key document ords =
     map (\<lambda>x. as_value (the (field_value key document (order_path x)))) ords"

definition order_value_field :: "DocumentKey \<Rightarrow> Value option \<Rightarrow> FieldValue" where
  "order_value_field key x =
     (case x of None \<Rightarrow> DocumentName (DocumentKey_display key) | Some v \<Rightarrow> FieldVal v)"

fun compare_order_values :: "DatabaseEdition \<Rightarrow> Order list \<Rightarrow>
    DocumentKey \<times> Value option list \<Rightarrow> DocumentKey \<times> Value option list \<Rightarrow> ordering" where
  "compare_order_values ed (x # ords) (lk, l # ls) (rk, r # rs) =
     then_with
       (apply_direction (compare_field_values ed (order_value_field lk l) (order_value_field rk r))
          (order_direction x))
       (compare_order_values ed ords (lk, ls) (rk, rs))"
| "compare_order_values ed _ _ _ = Equal"

fun compare_cursor_values :: "DatabaseEdition \<Rightarrow> DocumentKey \<Rightarrow> Document \<Rightarrow> Order list \<Rightarrow> Value list \<Rightarrow> ordering" where
  "compare_cursor_values ed key document (x # ords) (v # vs) =
     then_with
       (apply_direction (FieldValue_compare (the (field_value key document (order_path x))) v ed)
          (order_direction x))
       (compare_cursor_values ed key document ords vs)"
| "compare_cursor_values ed key document _ _ = Equal"

definition compare_document_cursor ::
    "DocumentKey \<Rightarrow> Document \<Rightarrow> Cursor \<Rightarrow> Order list \<Rightarrow> DatabaseEdition \<Rightarrow> ordering" where
  "compare_document_cursor key document cursor ords ed =
     compare_cursor_values ed key document ords (cursor_values cursor)"

definition validate_cursor :: "Cursor option \<Rightarrow> Order list \<Rightarrow> QueryError + unit" where
  "validate_cursor cursor ords =
     (case cursor of
        Some c \<Rightarrow> if length ords < length (cursor_values c) then Inl CursorTooLong else Inr ()
      | None \<Rightarrow> Inr ())"

definition candidate_matches ::
    "Query \<Rightarrow> Order list \<Rightarrow> DatabaseEdition \<Rightarrow> DocumentKey \<times> Document \<Rightarrow> bool" where
  "candidate_matches q ords ed candidate =
     (let (key, document) = candidate in
      (case query_filter q of None \<Rightarrow> True | Some f \<Rightarrow> filter_matches f key document ed)
      \<and> list_all (\<lambda>x. field_value key document (order_path x) \<noteq> None) ords
      \<and> (case query_start q of
           None \<Rightarrow> True
         | Some cursor \<Rightarrow>
             (let verdict = compare_document_cursor key document cursor ords ed
              in verdict = Greater \<or> cursor_inclusive cursor \<and> verdict = Equal))
      \<and> (case query_end q of
           None \<Rightarrow> True
         | Some cursor \<Rightarrow>
             (let verdict = compare_document_cursor key document cursor ords ed
              in verdict = Less \<or> cursor_inclusive cursor \<and> verdict = Equal)))"

section \<open>Candidates\<close>

text \<open>\<open>splitn(7, '/')\<close>: at most seven pieces, the last with the rest of the text.\<close>

definition splitn :: "nat \<Rightarrow> char \<Rightarrow> string \<Rightarrow> string list" where
  "splitn n c s =
     (let pieces = split_char c s in
      if length pieces \<le> n then pieces
      else take (n - 1) pieces @ [join_char c (drop (n - 1) pieces)])"

definition document_key_from_name :: "string \<Rightarrow> DatabaseName \<Rightarrow> DocumentKey option" where
  "document_key_from_name name database =
     (case splitn 7 (CHR ''/'') name of
        [s1, project, s3, db, s5, first, rest] \<Rightarrow>
          if s1 = ''projects'' \<and> s3 = ''databases'' \<and> s5 = ''documents'' then
            (if project \<noteq> project_id database \<or> db \<noteq> database_id database then None
             else (case DocumentKey_new database (first @ ''/'' @ rest) of
                     Inr key \<Rightarrow> Some key | Inl _ \<Rightarrow> None))
          else None
      | _ \<Rightarrow> None)"

definition key_in_scope :: "DocumentKey \<Rightarrow> Query \<Rightarrow> bool" where
  "key_in_scope key q =
     (case rsplit_once (CHR ''/'') (key_path key) of
        None \<Rightarrow> False
      | Some (collection_path, _) \<Rightarrow>
          (case query_scope q of
             Collection scope_path \<Rightarrow> collection_path = scope_path
           | CollectionGroup collection_id \<Rightarrow>
               (let immediate = (case rsplit_once (CHR ''/'') collection_path of
                                   Some (_, name) \<Rightarrow> name | None \<Rightarrow> collection_path)
                in immediate = collection_id
                   \<and> (case query_ancestor q of
                        None \<Rightarrow> True
                      | Some ancestor \<Rightarrow> ancestor_matches ancestor (key_path key)))))"

fun reference_name :: "Value \<Rightarrow> string option" where
  "reference_name (Reference name) = Some name"
| "reference_name _ = None"

fun field_preds :: "Filter \<Rightarrow> FieldFilter list option" where
  "field_preds (FieldPred f) = Some [f]"
| "field_preds (And fs) =
     Some (List.map_filter (\<lambda>f. case f of FieldPred p \<Rightarrow> Some p | _ \<Rightarrow> None) fs)"
| "field_preds (Or fs) = None"

definition names_documents :: "FieldFilter \<Rightarrow> bool" where
  "names_documents f = (filter_path f = DocumentId \<and> (filter_operator f = OpEqual \<or> filter_operator f = OpIn))"

definition filter_names :: "FieldFilter \<Rightarrow> string list option" where
  "filter_names f =
     (case (filter_operator f, filter_value f) of
        (OpEqual, Reference name) \<Rightarrow> Some [name]
      | (OpIn, Array vs) \<Rightarrow> those (map reference_name vs)
      | _ \<Rightarrow> None)"

text \<open>\<open>dedup\<close> drops an element equal to the one before it.\<close>

definition named_candidates :: "Query \<Rightarrow> DatabaseName \<Rightarrow> DocumentKey list option" where
  "named_candidates q database =
     Option.bind (query_filter q) (\<lambda>f.
     Option.bind (field_preds f) (\<lambda>preds.
     Option.bind (find names_documents preds) (\<lambda>p.
     Option.bind (filter_names p) (\<lambda>names.
       (let keys = filter (\<lambda>key. key_in_scope key q)
              (List.map_filter (\<lambda>name. document_key_from_name name database) names)
        in Some (remdups_adj (sort_by compare_key_paths keys)))))))"

definition scoped_documents :: "Snapshot \<Rightarrow> DatabaseName \<Rightarrow> Query \<Rightarrow> (DocumentKey \<times> Document) list" where
  "scoped_documents s database q =
     (case named_candidates q database of
        Some keys \<Rightarrow> List.map_filter (\<lambda>key. map_option (Pair key) (Snapshot_get s key)) keys
      | None \<Rightarrow>
          (case query_scope q of
             Collection collection_path \<Rightarrow> iter_collection s database collection_path
           | CollectionGroup collection_id \<Rightarrow>
               iter_collection_group s database collection_id (query_ancestor q)))"

section \<open>Projections\<close>

fun insert_projected :: "Fields \<Rightarrow> string list \<Rightarrow> Value \<Rightarrow> Fields" where
  "insert_projected m [] v = m"
| "insert_projected m (first # rest) v =
     (if rest = [] then om_insert first v m
      else (case map_of m first of
              None \<Rightarrow> om_insert first (MapValue (insert_projected [] rest v)) m
            | Some (MapValue child) \<Rightarrow> om_insert first (MapValue (insert_projected child rest v)) m
            | Some _ \<Rightarrow> m))"

definition project :: "Fields \<Rightarrow> QFieldPath list \<Rightarrow> Fields" where
  "project m paths =
     fold (\<lambda>path projected.
       case path of
         DocumentId \<Rightarrow> projected
       | Field names \<Rightarrow>
           (case nested_value m names of
              Some v \<Rightarrow> insert_projected projected names v
            | None \<Rightarrow> projected)) paths []"

definition query_document :: "Query \<Rightarrow> DocumentKey \<times> Document \<Rightarrow> QueryDocument" where
  "query_document q candidate =
     \<lparr>result_key = fst candidate, result_document = snd candidate,
      result_projected = map_option (project (Document.fields (snd candidate))) (query_projection q)\<rparr>"

section \<open>Executions\<close>

type_synonym OrderedCandidate = "DocumentKey \<times> Value option list \<times> Document"

abbreviation candidate_order :: "OrderedCandidate \<Rightarrow> DocumentKey \<times> Value option list" where
  "candidate_order c \<equiv> (fst c, fst (snd c))"

definition compare_candidates :: "DatabaseEdition \<Rightarrow> Order list \<Rightarrow> OrderedCandidate \<Rightarrow> OrderedCandidate \<Rightarrow> ordering" where
  "compare_candidates ed ords a b = compare_order_values ed ords (candidate_order a) (candidate_order b)"

definition ordered_candidate :: "Order list \<Rightarrow> DocumentKey \<times> Document \<Rightarrow> OrderedCandidate" where
  "ordered_candidate ords c = (fst c, order_values (fst c) (snd c) ords, snd c)"

fun limit_count :: "Limit \<Rightarrow> nat" where
  "limit_count (First n) = n"
| "limit_count (Last n) = n"

definition collect_bounded_candidates ::
    "OrderedCandidate list \<Rightarrow> Query \<Rightarrow> Order list \<Rightarrow> DatabaseEdition \<Rightarrow> OrderedCandidate list" where
  "collect_bounded_candidates candidates q ords ed =
     (case query_limit q of
        None \<Rightarrow> candidates
      | Some l \<Rightarrow>
          if limit_count l = 0 then []
          else (let bound = sat_add (query_offset q) (limit_count l) in
                case l of
                  First _ \<Rightarrow> fold (select_first (compare_candidates ed ords) bound) candidates []
                | Last _ \<Rightarrow> fold (select_last (compare_candidates ed ords) bound) candidates []))"

text \<open>\<open>f64::total_cmp\<close>: the bits as a signed integer, with the magnitude of negatives flipped.\<close>

definition f64_total_key :: "f64 \<Rightarrow> int" where
  "f64_total_key a = (if f64_negative a then sint (xor a (Bit_Operations.mask 63)) else sint a)"

definition f64_total_cmp :: "f64 \<Rightarrow> f64 \<Rightarrow> ordering" where
  "f64_total_cmp a b = cmp (f64_total_key a) (f64_total_key b)"

text \<open>The integer square root, and \<open>f64::sqrt\<close>, which rounds correctly: the root of the scaled
  value has more than 500 bits before rounding, and a last bit records whether it was exact.\<close>

fun isqrt :: "nat \<Rightarrow> nat" where
  "isqrt n =
     (if n = 0 then 0
      else (let r = 2 * isqrt (n div 4) in if (r + 1) * (r + 1) \<le> n then r + 1 else r))"

declare isqrt.simps [simp del]

definition f64_sqrt :: "f64 \<Rightarrow> f64" where
  "f64_sqrt a =
     (if f64_is_nan a then f64_nan
      else if f64_is_finite a \<and> f64_scaled a = 0 then a
      else if f64_negative a then f64_nan
      else if \<not> f64_is_finite a then a
      else (let n = nat (f64_scaled a * f64_unit); r = isqrt n
            in f64_round (2 * r + (if r * r = n then 0 else 1)) 2))"

definition f64_sum :: "f64 list \<Rightarrow> f64" where
  "f64_sum xs = fold (\<lambda>x acc. f64_add acc x) xs (push_bit 63 1)"

definition cosine_sums :: "(f64 \<times> f64) list \<Rightarrow> f64 \<times> f64 \<times> f64" where
  "cosine_sums pairs =
     fold (\<lambda>(l, r) (dot, left_norm, right_norm).
       (f64_add dot (f64_mul l r), f64_add left_norm (f64_mul l l), f64_add right_norm (f64_mul r r)))
       pairs (0, 0, 0)"

definition measure_distance :: "(f64 \<Rightarrow> f64 \<Rightarrow> f64) \<Rightarrow> DistanceMeasure \<Rightarrow> f64 list \<Rightarrow> f64 list \<Rightarrow> f64 option" where
  "measure_distance hypot dm vector query =
     (case dm of
        Euclidean \<Rightarrow> Some (fold (\<lambda>(l, r) norm. hypot norm (f64_sub l r)) (zip vector query) 0)
      | DotProduct \<Rightarrow> Some (f64_sum (map (\<lambda>(l, r). f64_mul l r) (zip vector query)))
      | Cosine \<Rightarrow>
          (let (dot, left_norm, right_norm) = cosine_sums (zip vector query);
               denominator = f64_sqrt (f64_mul left_norm right_norm)
           in if f64_eq denominator 0 then None
              else Some (f64_sub f64_one (f64_div dot denominator))))"

definition vector_distance :: "(f64 \<Rightarrow> f64 \<Rightarrow> f64) \<Rightarrow> Document \<Rightarrow> Nearest \<Rightarrow> f64 option" where
  "vector_distance hypot document nearest =
     (case vector_field nearest of
        DocumentId \<Rightarrow> None
      | Field names \<Rightarrow>
          (case LazyDocument_field document names of
             Some (Vector vector) \<Rightarrow>
               if length vector \<noteq> length (query_vector nearest) then None
               else (case measure_distance hypot (distance_measure nearest) vector (query_vector nearest) of
                       None \<Rightarrow> None
                     | Some distance \<Rightarrow> if f64_is_finite distance then Some distance else None)
           | _ \<Rightarrow> None))"

definition threshold_matches :: "f64 \<Rightarrow> Nearest \<Rightarrow> bool" where
  "threshold_matches distance nearest =
     (case distance_threshold nearest of
        None \<Rightarrow> True
      | Some threshold \<Rightarrow>
          if distance_measure nearest = DotProduct then f64_le threshold distance
          else f64_le distance threshold)"

type_synonym NearestCandidate = "DocumentKey \<times> Document \<times> f64"

definition compare_nearest_candidates :: "Nearest \<Rightarrow> NearestCandidate \<Rightarrow> NearestCandidate \<Rightarrow> ordering" where
  "compare_nearest_candidates nearest left right =
     (let verdict = f64_total_cmp (snd (snd left)) (snd (snd right));
          verdict = (if distance_measure nearest = DotProduct then reverse_ordering verdict else verdict)
      in then_with verdict (compare_resource_paths (key_path (fst left)) (key_path (fst right))))"

fun insert_nested_value :: "Fields \<Rightarrow> string list \<Rightarrow> Value \<Rightarrow> Fields" where
  "insert_nested_value m [] v = m"
| "insert_nested_value m (first # rest) v =
     (if rest = [] then om_insert first v m
      else om_insert first
        (MapValue (insert_nested_value
           (case map_of m first of Some (MapValue child) \<Rightarrow> child | _ \<Rightarrow> []) rest v)) m)"

definition projected_nearest_fields ::
    "Fields \<Rightarrow> QFieldPath list option \<Rightarrow> QFieldPath option \<Rightarrow> f64 \<Rightarrow> Fields option" where
  "projected_nearest_fields m projection result_field distance =
     (if projection = None \<and> result_field = None then None
      else (let result = (case projection of None \<Rightarrow> m | Some paths \<Rightarrow> project m paths)
            in Some (case result_field of
                       Some (Field names) \<Rightarrow> insert_nested_value result names (Double distance)
                     | _ \<Rightarrow> result)))"

definition nearest_candidates :: "(f64 \<Rightarrow> f64 \<Rightarrow> f64) \<Rightarrow> Snapshot \<Rightarrow> DatabaseName \<Rightarrow> Query \<Rightarrow>
    Nearest \<Rightarrow> DatabaseEdition \<Rightarrow> NearestCandidate list" where
  "nearest_candidates hypot s database q nearest ed =
     List.map_filter (\<lambda>(key, document).
         case vector_distance hypot document nearest of
           None \<Rightarrow> None
         | Some distance \<Rightarrow>
             if threshold_matches distance nearest then Some (key, document, distance) else None)
       (filter (\<lambda>(key, document).
           case query_filter q of None \<Rightarrow> True | Some f \<Rightarrow> filter_matches f key document ed)
         (scoped_documents s database q))"

definition execute_nearest :: "(f64 \<Rightarrow> f64 \<Rightarrow> f64) \<Rightarrow> Snapshot \<Rightarrow> DatabaseName \<Rightarrow> Query \<Rightarrow>
    Nearest \<Rightarrow> DatabaseEdition \<Rightarrow> QueryError + QueryDocument list" where
  "execute_nearest hypot s database q nearest ed =
     (if query_start q \<noteq> None \<or> query_end q \<noteq> None
         \<or> (case query_limit q of Some (Last _) \<Rightarrow> True | _ \<Rightarrow> False)
      then Inl UnsupportedVectorShape
      else
        (let n = (case query_limit q of
                    None \<Rightarrow> nearest_limit nearest
                  | Some l \<Rightarrow> min (limit_count l) (nearest_limit nearest));
             bound = sat_add (query_offset q) n;
             candidates = fold (select_first (compare_nearest_candidates nearest) bound)
               (nearest_candidates hypot s database q nearest ed) []
         in Inr (map (\<lambda>(key, document, distance).
              \<lparr>result_key = key, result_document = document,
               result_projected = projected_nearest_fields (Document.fields document)
                 (query_projection q) (distance_result_field nearest) distance\<rparr>)
              (take n (drop (query_offset q) candidates)))))"

definition execute_buffered :: "(f64 \<Rightarrow> f64 \<Rightarrow> f64) \<Rightarrow> Snapshot \<Rightarrow> DatabaseName \<Rightarrow> Query \<Rightarrow>
    DatabaseEdition \<Rightarrow> Order list \<Rightarrow> QueryError + QueryDocument list" where
  "execute_buffered hypot s database q ed ords =
     (case query_nearest q of
        Some nearest \<Rightarrow> execute_nearest hypot s database q nearest ed
      | None \<Rightarrow>
          (let candidates = map (ordered_candidate ords)
                 (filter (candidate_matches q ords ed) (scoped_documents s database q));
               documents = sort_by (compare_candidates ed ords)
                 (collect_bounded_candidates candidates q ords ed);
               after_offset = drop (query_offset q) documents;
               limited = (case query_limit q of
                            None \<Rightarrow> after_offset
                          | Some (First n) \<Rightarrow> take n after_offset
                          | Some (Last n) \<Rightarrow> drop (length after_offset - n) after_offset)
           in Inr (map (\<lambda>(key, _, document). query_document q (key, document)) limited)))"

definition ordered_disk_iterator :: "Snapshot \<Rightarrow> DatabaseName \<Rightarrow> Query \<Rightarrow> DatabaseEdition \<Rightarrow>
    Order list \<Rightarrow> DocumentKey list" where
  "ordered_disk_iterator s database q ed ords =
     (let candidates = map (\<lambda>c. (fst c, order_values (fst c) (snd c) ords))
            (filter (candidate_matches q ords ed) (scoped_documents s database q))
      in map fst (drop (query_offset q) (sort_by (compare_order_values ed ords) candidates)))"

definition ordered_disk_next :: "Snapshot \<Rightarrow> Query \<Rightarrow> DocumentKey \<Rightarrow> QueryDocument" where
  "ordered_disk_next s q key = query_document q (key, the (Snapshot_get s key))"

text \<open>The streaming iterator: remaining candidates, limit and offset.\<close>

record Streaming =
  stream_candidates :: "(DocumentKey \<times> Document) list"
  remaining_limit :: "nat option"
  remaining_offset :: nat

fun next_candidate :: "(DocumentKey \<times> Document \<Rightarrow> bool) \<Rightarrow> (DocumentKey \<times> Document) list \<Rightarrow> nat option \<Rightarrow>
    nat \<Rightarrow> ((DocumentKey \<times> Document) \<times> Streaming) option" where
  "next_candidate matches [] remaining skip = None"
| "next_candidate matches (c # candidates) remaining skip =
     (if \<not> matches c then next_candidate matches candidates remaining skip
      else if 0 < skip then next_candidate matches candidates remaining (skip - 1)
      else Some (c, \<lparr>stream_candidates = candidates,
                     remaining_limit = map_option (\<lambda>n. n - 1) remaining,
                     remaining_offset = skip\<rparr>))"

definition next_lazy :: "(DocumentKey \<times> Document \<Rightarrow> bool) \<Rightarrow> Streaming \<Rightarrow>
    ((DocumentKey \<times> Document) \<times> Streaming) option" where
  "next_lazy matches st =
     (if remaining_limit st = Some 0 then None
      else next_candidate matches (stream_candidates st) (remaining_limit st) (remaining_offset st))"

lemma next_candidate_shorter:
  "next_candidate matches candidates remaining skip = Some (c, st) \<Longrightarrow>
    length (stream_candidates st) < length candidates"
  by (induction matches candidates remaining skip rule: next_candidate.induct)
    (auto split: if_splits)

lemma next_lazy_shorter:
  "next_lazy matches st = Some (c, st') \<Longrightarrow> length (stream_candidates st') < length (stream_candidates st)"
  by (auto simp: next_lazy_def split: if_splits dest: next_candidate_shorter)

text \<open>Draining the iterator, and the loop that only counts.\<close>

function stream_all :: "(DocumentKey \<times> Document \<Rightarrow> bool) \<Rightarrow> Streaming \<Rightarrow> (DocumentKey \<times> Document) list" where
  "stream_all matches st =
     (case next_lazy matches st of None \<Rightarrow> [] | Some (c, st') \<Rightarrow> c # stream_all matches st')"
  by pat_completeness auto

termination
  by (relation "measure (\<lambda>(matches, st). length (stream_candidates st))") (auto dest: next_lazy_shorter)

function stream_count :: "(DocumentKey \<times> Document \<Rightarrow> bool) \<Rightarrow> Streaming \<Rightarrow> nat \<Rightarrow> nat" where
  "stream_count matches st n =
     (case next_lazy matches st of None \<Rightarrow> n | Some (c, st') \<Rightarrow> stream_count matches st' (sat_add n 1))"
  by pat_completeness auto

termination
  by (relation "measure (\<lambda>(matches, st, n). length (stream_candidates st))") (auto dest: next_lazy_shorter)

declare stream_all.simps [simp del] stream_count.simps [simp del]

datatype QueryDocumentIterator =
    StreamingIterator Streaming "Order list"
  | OrderedDiskIterator "DocumentKey list"
  | BufferedIterator "QueryDocument list"

definition name_order :: Order where
  "name_order = \<lparr>order_path = DocumentId, order_direction = Ascending\<rparr>"

definition execute_iter :: "(f64 \<Rightarrow> f64 \<Rightarrow> f64) \<Rightarrow> bool \<Rightarrow> Snapshot \<Rightarrow> DatabaseName \<Rightarrow> Query \<Rightarrow>
    DatabaseEdition \<Rightarrow> QueryError + QueryDocumentIterator" where
  "execute_iter hypot disk_backed s database q ed =
     result_bind (normalized_orders q) (\<lambda>ords.
     result_bind (validate_cursor (query_start q) ords) (\<lambda>_.
     result_bind (validate_cursor (query_end q) ords) (\<lambda>_.
       if query_nearest q = None
          \<and> (case query_limit q of Some (Last _) \<Rightarrow> False | _ \<Rightarrow> True)
          \<and> ords = [name_order]
       then Inr (StreamingIterator
              \<lparr>stream_candidates = scoped_documents s database q,
               remaining_limit = map_option limit_count (query_limit q),
               remaining_offset = query_offset q\<rparr> ords)
       else if disk_backed \<and> query_limit q = None \<and> query_nearest q = None
       then Inr (OrderedDiskIterator (ordered_disk_iterator s database q ed ords))
       else result_bind (execute_buffered hypot s database q ed ords) (\<lambda>documents.
              Inr (BufferedIterator documents)))))"

fun collect_iterator :: "Snapshot \<Rightarrow> Query \<Rightarrow> DatabaseEdition \<Rightarrow> QueryDocumentIterator \<Rightarrow> QueryDocument list" where
  "collect_iterator s q ed (StreamingIterator st ords) =
     map (query_document q) (stream_all (candidate_matches q ords ed) st)"
| "collect_iterator s q ed (OrderedDiskIterator keys) = map (ordered_disk_next s q) keys"
| "collect_iterator s q ed (BufferedIterator results) = results"

definition execute :: "(f64 \<Rightarrow> f64 \<Rightarrow> f64) \<Rightarrow> bool \<Rightarrow> Snapshot \<Rightarrow> DatabaseName \<Rightarrow> Query \<Rightarrow>
    DatabaseEdition \<Rightarrow> QueryError + QueryDocument list" where
  "execute hypot disk_backed s database q ed =
     result_bind (execute_iter hypot disk_backed s database q ed) (\<lambda>results.
       Inr (collect_iterator s q ed results))"

definition query_count :: "(f64 \<Rightarrow> f64 \<Rightarrow> f64) \<Rightarrow> bool \<Rightarrow> Snapshot \<Rightarrow> DatabaseName \<Rightarrow> Query \<Rightarrow>
    DatabaseEdition \<Rightarrow> QueryError + nat" where
  "query_count hypot disk_backed s database q ed =
     result_bind (execute_iter hypot disk_backed s database q ed) (\<lambda>results.
       Inr (case results of
              StreamingIterator st ords \<Rightarrow> stream_count (candidate_matches q ords ed) st 0
            | _ \<Rightarrow> min (length (collect_iterator s q ed results)) u64_max))"

section \<open>Partitions and aggregations\<close>

record PartitionCursor =
  partition_values :: "Value list"
  partition_before :: bool

definition supported_partition_query :: "Query \<Rightarrow> bool" where
  "supported_partition_query q =
     ((case query_scope q of CollectionGroup _ \<Rightarrow> True | _ \<Rightarrow> False)
      \<and> query_ancestor q = None \<and> query_filter q = None \<and> query_orders q = [name_order]
      \<and> query_start q = None \<and> query_end q = None \<and> query_offset q = 0
      \<and> query_limit q = None \<and> query_projection q = None \<and> query_nearest q = None)"

definition partition_index :: "nat \<Rightarrow> nat \<Rightarrow> nat \<Rightarrow> nat" where
  "partition_index results segment_count point =
     results div segment_count * point + min (results mod segment_count) point"

definition partition_query :: "(f64 \<Rightarrow> f64 \<Rightarrow> f64) \<Rightarrow> bool \<Rightarrow> Snapshot \<Rightarrow> DatabaseName \<Rightarrow> Query \<Rightarrow>
    DatabaseEdition \<Rightarrow> nat \<Rightarrow> QueryError + PartitionCursor list" where
  "partition_query hypot disk_backed s database q ed maximum_points =
     (if maximum_points = 0 then Inl InvalidPartitionCount
      else if \<not> supported_partition_query q then Inl UnsupportedPartitionQuery
      else result_bind (execute hypot disk_backed s database q ed) (\<lambda>results.
        (let point_count = min maximum_points (length results - 1) in
         if point_count = 0 then Inr []
         else Inr (map (\<lambda>point.
                \<lparr>partition_values = [Reference (DocumentKey_display
                   (result_key (results ! partition_index (length results) (point_count + 1) point)))],
                 partition_before = False\<rparr>) [1 ..< point_count + 1]))))"

datatype Aggregation =
    Count string
  | SumOf string QFieldPath
  | Average string QFieldPath

fun projected_value :: "QueryDocument \<Rightarrow> QFieldPath \<Rightarrow> Value option" where
  "projected_value document DocumentId = None"
| "projected_value document (Field names) = nested_value (Document.fields (result_document document)) names"

record SumState =
  integer_sum :: int
  double_sum :: f64
  has_double :: bool

definition sum_step :: "Value option \<Rightarrow> SumState \<Rightarrow> SumState" where
  "sum_step v st =
     (case v of
        Some (Integer n) \<Rightarrow>
          if \<not> has_double st then
            (case checked_add_i64 (integer_sum st) n of
               Some next_sum \<Rightarrow> st\<lparr>integer_sum := next_sum\<rparr>
             | None \<Rightarrow> st\<lparr>has_double := True,
                 double_sum := f64_add (f64_of_i64 (integer_sum st)) (f64_of_i64 n)\<rparr>)
          else st\<lparr>double_sum := f64_add (double_sum st) (f64_of_i64 n)\<rparr>
      | Some (Double d) \<Rightarrow>
          (let st = (if has_double st then st
                     else st\<lparr>has_double := True, double_sum := f64_of_i64 (integer_sum st)\<rparr>)
           in st\<lparr>double_sum := f64_add (double_sum st) d\<rparr>)
      | _ \<Rightarrow> st)"

definition sum_field :: "QueryDocument list \<Rightarrow> QFieldPath \<Rightarrow> Value" where
  "sum_field results field =
     (let st = fold (\<lambda>document. sum_step (projected_value document field)) results
            \<lparr>integer_sum = 0, double_sum = 0, has_double = False\<rparr>
      in if has_double st then Double (double_sum st) else Integer (integer_sum st))"

definition average_field :: "QueryDocument list \<Rightarrow> QFieldPath \<Rightarrow> Value" where
  "average_field results field =
     (let (total_sum, n) = fold (\<lambda>document (acc, n).
            case projected_value document field of
              Some (Integer i) \<Rightarrow> (f64_add acc (f64_of_i64 i), n + 1)
            | Some (Double d) \<Rightarrow> (f64_add acc d, n + 1)
            | _ \<Rightarrow> (acc, n)) results (0, 0 :: nat)
      in if n = 0 then Null else Double (f64_div total_sum (f64_of_i64 (int n))))"

definition aggregate :: "QueryDocument list \<Rightarrow> Aggregation list \<Rightarrow> Fields" where
  "aggregate results aggregations =
     fold (\<lambda>aggregation result.
       case aggregation of
         Count alias \<Rightarrow> om_insert alias (Integer (min (int (length results)) i64_max)) result
       | SumOf alias field \<Rightarrow> om_insert alias (sum_field results field) result
       | Average alias field \<Rightarrow> om_insert alias (average_field results field) result)
       aggregations []"

end
