(* ===== verification/Query_Facts.thy ===== *)
theory Query_Facts
  imports Query
begin

text \<open>
  Facts on structured queries: the order of candidates is a total preorder that separates
  documents, the candidates a query names directly are the ones a scan of its scope finds, and
  each of the executions computes one reference result.
\<close>

section \<open>Normalized orders\<close>

lemma add_inequality_orders_paths:
  "add_inequality_orders paths direction ords normalized = (ords', normalized') \<Longrightarrow>
    set normalized = order_path ` set ords \<Longrightarrow>
    set normalized' = order_path ` set ords' \<and> (\<exists>new. ords' = ords @ new)"
  by (induction paths direction ords normalized rule: add_inequality_orders.induct)
    (force split: if_splits)+

lemma takeWhile_but_last:
  "x \<in> set ords \<Longrightarrow> P x \<Longrightarrow> Suc (length (takeWhile (\<lambda>x. \<not> P x) ords)) = length ords \<Longrightarrow>
    \<exists>before y. ords = before @ [y] \<and> P y \<and> (\<forall>z\<in>set before. \<not> P z)"
proof (induction ords)
  case (Cons a ords)
  show ?case
  proof (cases "P a")
    case True
    then show ?thesis using Cons.prems(3) by auto
  next
    case False
    then obtain before y where *: "ords = before @ [y]" "P y" "\<forall>z\<in>set before. \<not> P z"
      using Cons by auto
    then have "a # ords = (a # before) @ [y]" "\<forall>z\<in>set (a # before). \<not> P z" using False by simp_all
    then show ?thesis using \<open>P y\<close> by blast
  qed
qed simp

lemma order_position_last:
  assumes "x \<in> set ords" "P x" "\<forall>n. order_position P ords = Some n \<longrightarrow> n + 1 = length ords"
  obtains before y where "ords = before @ [y]" "P y" "\<forall>z\<in>set before. \<not> P z"
proof -
  have "length (takeWhile (\<lambda>x. \<not> P x) ords) < length ords"
    using assms(1,2) by (induction ords) auto
  then show thesis
    using takeWhile_but_last [of x ords P] assms that by (auto simp: order_position_def Let_def)
qed

lemma completed_orders_name: "\<exists>x\<in>set (completed_orders q paths). order_path x = DocumentId"
proof -
  define direction where "direction = (if query_orders q = [] then Ascending
    else order_direction (last (query_orders q)))"
  obtain ords normalized where step: "add_inequality_orders paths direction (query_orders q)
      (os_of_list (map order_path (query_orders q))) = (ords, normalized)" by fastforce
  then have "set normalized = order_path ` set ords"
    using add_inequality_orders_paths [OF step] by simp
  then have "DocumentId \<in> set normalized \<longleftrightarrow> (\<exists>x\<in>set ords. order_path x = DocumentId)"
    by (metis imageE imageI)
  then show ?thesis
    using step by (auto simp: completed_orders_def direction_def [symmetric] Let_def)
qed

text \<open>A normalized order ends with the document name, and names it nowhere else.\<close>

lemma normalized_orders_shape:
  assumes "normalized_orders q = Inr ords"
  obtains before y where "ords = before @ [y]" "order_path y = DocumentId"
    "\<forall>z\<in>set before. order_path z \<noteq> DocumentId"
proof -
  define paths where "paths = (case query_filter q of None \<Rightarrow> [] | Some f \<Rightarrow> collect_inequality_fields f)"
  let ?position = "order_position (\<lambda>x. order_path x = DocumentId) (completed_orders q paths)"
  have "ords = completed_orders q paths \<and> (\<forall>n. ?position = Some n \<longrightarrow> n + 1 = length ords)"
    using assms unfolding normalized_orders_def Let_def paths_def [symmetric]
    by (cases ?position) (simp_all split: if_splits)
  then have ords: "ords = completed_orders q paths"
    and last: "\<forall>n. order_position (\<lambda>x. order_path x = DocumentId) ords = Some n \<longrightarrow> n + 1 = length ords"
    by simp_all
  obtain x where "x \<in> set ords" "order_path x = DocumentId"
    using completed_orders_name [of q paths] ords by blast
  then show thesis by (rule order_position_last [OF _ _ last]) (rule that)
qed

text \<open>It extends the given orders and covers the inequality fields.\<close>

lemma add_inequality_orders_cover:
  "add_inequality_orders paths direction ords normalized = (ords', normalized') \<Longrightarrow>
    set normalized = order_path ` set ords \<Longrightarrow> set paths - {DocumentId} \<subseteq> order_path ` set ords'"
proof (induction paths direction ords normalized rule: add_inequality_orders.induct)
  case (2 path paths direction ords normalized)
  show ?case
  proof (cases "path \<noteq> DocumentId \<and> path \<notin> set normalized")
    case True
    let ?ords = "ords @ [\<lparr>order_path = path, order_direction = direction\<rparr>]"
    have step: "add_inequality_orders paths direction ?ords (os_insert path normalized) = (ords', normalized')"
      "set (os_insert path normalized) = order_path ` set ?ords"
      using True 2(3,4) by simp_all
    obtain new where "ords' = ?ords @ new" using add_inequality_orders_paths [OF step] by blast
    then show ?thesis using 2(1) [OF True step] by auto
  next
    case False
    then have step: "add_inequality_orders paths direction ords normalized = (ords', normalized')"
      using 2(3) by auto
    obtain new where "ords' = ords @ new" using add_inequality_orders_paths [OF step 2(4)] by blast
    then show ?thesis using 2(2) [OF False step 2(4)] False 2(4) by auto
  qed
qed simp

lemma normalized_orders_extend:
  assumes "normalized_orders q = Inr ords"
  shows "take (length (query_orders q)) ords = query_orders q
    \<and> (\<forall>f. query_filter q = Some f \<longrightarrow> set (collect_inequality_fields f) \<subseteq> order_path ` set ords)"
proof -
  define paths where "paths = (case query_filter q of None \<Rightarrow> [] | Some f \<Rightarrow> collect_inequality_fields f)"
  define direction where "direction = (if query_orders q = [] then Ascending
    else order_direction (last (query_orders q)))"
  have ords: "ords = completed_orders q paths"
    using assms unfolding normalized_orders_def Let_def paths_def [symmetric]
    by (cases "order_position (\<lambda>x. order_path x = DocumentId) (completed_orders q paths)") (simp_all split: if_splits)
  obtain ords1 normalized where step: "add_inequality_orders paths direction (query_orders q)
      (os_of_list (map order_path (query_orders q))) = (ords1, normalized)" by fastforce
  have given: "set (os_of_list (map order_path (query_orders q))) = order_path ` set (query_orders q)" by simp
  obtain new where new: "ords1 = query_orders q @ new"
    using add_inequality_orders_paths [OF step given] by blast
  have "\<exists>more. ords = ords1 @ more"
    using step by (simp add: ords completed_orders_def direction_def [symmetric] Let_def)
  moreover have "DocumentId \<in> order_path ` set ords" using completed_orders_name [of q paths] ords by force
  ultimately have "set paths \<subseteq> order_path ` set ords" "take (length (query_orders q)) ords = query_orders q"
    using add_inequality_orders_cover [OF step given] new by auto
  then show ?thesis by (auto simp: paths_def split: option.splits)
qed

section \<open>The order of candidates\<close>

lemma comparator_reverse: "comparator f P \<Longrightarrow> comparator (\<lambda>a b. reverse_ordering (f a b)) P"
proof (rule comparator.intro)
  assume f: "comparator f P"
  fix a b assume "P a" "P b"
  then show "reverse_ordering (f b a) = reverse_ordering (reverse_ordering (f a b))"
    using comparator.swap [OF f, of a b] by simp
next
  assume f: "comparator f P"
  fix a b c assume abc: "P a" "P b" "P c"
    and le: "reverse_ordering (f a b) \<noteq> Greater" "reverse_ordering (f b c) \<noteq> Greater"
  have "f b a \<noteq> Greater" "f c b \<noteq> Greater"
    using comparator.swap [OF f abc(1,2)] comparator.swap [OF f abc(2,3)] le by simp_all
  then have "f c a \<noteq> Greater" using comparator.trans_le [OF f, of c b a] abc by simp
  then show "reverse_ordering (f a c) \<noteq> Greater"
    using comparator.swap [OF f, of a c] abc by simp
qed

lemma comparator_direction: "comparator f P \<Longrightarrow> comparator (\<lambda>a b. apply_direction (f a b) d) P"
  by (cases d) (simp_all add: comparator_reverse)

lemma comparator_cong:
  assumes "comparator f P" "\<And>a b. P a \<Longrightarrow> P b \<Longrightarrow> g a b = f a b"
  shows "comparator g P"
proof (rule comparator.intro)
  fix a b assume "P a" "P b"
  then show "g b a = reverse_ordering (g a b)"
    using comparator.swap [OF assms(1), of a b] assms(2) [of a b] assms(2) [of b a] by simp
next
  fix a b c assume "P a" "P b" "P c" "g a b \<noteq> Greater" "g b c \<noteq> Greater"
  then show "g a c \<noteq> Greater" 
    using comparator.trans_le [OF assms(1), of a b c] assms(2) [of a b] assms(2) [of b c] assms(2) [of a c] by simp
qed

fun field_value_ok :: "FieldValue \<Rightarrow> bool" where
  "field_value_ok (FieldVal v) = value_ok v"
| "field_value_ok (DocumentName _) = True"

fun field_rank :: "FieldValue \<Rightarrow> nat" where
  "field_rank (FieldVal _) = 0"
| "field_rank (DocumentName _) = 1"

lemma compare_field_values_rank:
  "field_rank a \<noteq> field_rank b \<Longrightarrow> compare_field_values ed a b = cmp (field_rank a) (field_rank b)"
  by (cases a; cases b) (simp_all add: cmp_def)

lemma field_values_swap:
  assumes "field_value_ok a" "field_value_ok b" "field_rank a = field_rank b"
  shows "compare_field_values ed b a = reverse_ordering (compare_field_values ed a b)"
proof (cases a)
  case (FieldVal v)
  then obtain w where "b = FieldVal w" using assms(3) by (cases b) auto
  then show ?thesis using FieldVal assms vals.swap [of v w ed] by simp
next
  case (DocumentName s)
  then obtain t where "b = DocumentName t" using assms(3) by (cases b) auto
  then show ?thesis using DocumentName paths.swap [of s t] by simp
qed

lemma field_values_trans:
  assumes "field_value_ok a" "field_value_ok b" "field_value_ok c"
    "field_rank a = field_rank b" "field_rank b = field_rank c"
    "compare_field_values ed a b \<noteq> Greater" "compare_field_values ed b c \<noteq> Greater"
  shows "compare_field_values ed a c \<noteq> Greater"
proof (cases a)
  case (FieldVal v)
  then obtain w where w: "b = FieldVal w" using assms(4) by (cases b) auto
  then obtain u where "c = FieldVal u" using assms(5) by (cases c) auto
  then show ?thesis using FieldVal w assms vals.trans_le [of v w u ed] by simp
next
  case (DocumentName s)
  then obtain t where t: "b = DocumentName t" using assms(4) by (cases b) auto
  then obtain u where "c = DocumentName u" using assms(5) by (cases c) auto
  then show ?thesis using DocumentName t assms paths.trans_le [of s t u] by simp
qed

interpretation field_vals: comparator "compare_field_values ed" field_value_ok
proof -
  have "comparator (\<lambda>a b. then_with (cmp (field_rank a) (field_rank b)) (compare_field_values ed a b)) field_value_ok"
  proof (rule comparator_then)
    show "comparator (\<lambda>a b. cmp (field_rank a) (field_rank b)) field_value_ok"
      by (rule comparator_subset [OF cmp.on_key]) simp
  next
    fix a b assume "field_value_ok a" "field_value_ok b" "cmp (field_rank a) (field_rank b) = Equal"
    then show "compare_field_values ed b a = reverse_ordering (compare_field_values ed a b)"
      by (intro field_values_swap) simp_all
  next
    fix a b c assume "field_value_ok a" "field_value_ok b" "field_value_ok c"
      "cmp (field_rank a) (field_rank b) = Equal" "cmp (field_rank b) (field_rank c) = Equal"
      "compare_field_values ed a b \<noteq> Greater" "compare_field_values ed b c \<noteq> Greater"
    then show "compare_field_values ed a c \<noteq> Greater"
      by (intro field_values_trans [of a b c]) simp_all
  qed
  then show "comparator (compare_field_values ed) field_value_ok"
  proof (rule comparator_cong)
    fix a b
    show "compare_field_values ed a b = then_with (cmp (field_rank a) (field_rank b)) (compare_field_values ed a b)"
      using compare_field_values_rank [of a b ed] by (cases "field_rank a = field_rank b") (simp_all add: cmp_def)
  qed
qed

text \<open>Order keys that match the orders they are compared under.\<close>

definition order_keys_ok :: "Order list \<Rightarrow> DocumentKey \<times> Value option list \<Rightarrow> bool" where
  "order_keys_ok ords keys =
     (length (snd keys) = length ords \<and> (\<forall>v. Some v \<in> set (snd keys) \<longrightarrow> value_ok v))"

lemma compare_order_values_split:
  "order_keys_ok (x # ords) a \<Longrightarrow> order_keys_ok (x # ords) b \<Longrightarrow>
    compare_order_values ed (x # ords) a b =
      then_with (apply_direction (compare_field_values ed (order_value_field (fst a) (hd (snd a)))
          (order_value_field (fst b) (hd (snd b)))) (order_direction x))
        (compare_order_values ed ords (fst a, tl (snd a)) (fst b, tl (snd b)))"
  by (cases a; cases b) (auto simp: order_keys_ok_def length_Suc_conv)

lemma order_values_comparator: "comparator (compare_order_values ed ords) (order_keys_ok ords)"
proof (induction ords)
  case Nil
  show ?case by (rule comparator.intro) simp_all
next
  case (Cons x ords)
  let ?head = "\<lambda>a. order_value_field (fst a) (hd (snd a))"
    and ?tail = "\<lambda>a. (fst a, tl (snd a))"
  have ok: "field_value_ok (?head a)" "order_keys_ok ords (?tail a)" if "order_keys_ok (x # ords) a" for a
    using that by (auto simp: order_keys_ok_def order_value_field_def length_Suc_conv split: option.splits)
  have head: "comparator (\<lambda>a b. apply_direction (compare_field_values ed (?head a) (?head b)) (order_direction x))
      (order_keys_ok (x # ords))"
    by (rule comparator_direction, rule comparator_subset [OF field_vals.on_key [of ed ?head]], rule ok)
  have tail: "comparator (\<lambda>a b. compare_order_values ed ords (?tail a) (?tail b)) (order_keys_ok (x # ords))"
    by (rule comparator_subset [OF comparator.on_key [OF Cons, of ?tail]], rule ok)
  have "comparator (\<lambda>a b. then_with
      (apply_direction (compare_field_values ed (?head a) (?head b)) (order_direction x))
      (compare_order_values ed ords (?tail a) (?tail b))) (order_keys_ok (x # ords))"
    by (rule comparator_then [OF head])
      (use comparator.swap [OF tail] comparator.trans_le [OF tail] in blast)+
  then show ?case by (rule comparator_cong) (rule compare_order_values_split)
qed

interpretation order_vals: comparator "compare_order_values ed ords" "order_keys_ok ords"
  by (rule order_values_comparator)

section \<open>Names and scopes\<close>

definition canonical_database :: "DatabaseName \<Rightarrow> bool" where
  "canonical_database db =
     (DatabaseName_new (project_id db) (database_id db) = Inr db \<and> canonical_path (DatabaseName_display db))"

definition canonical_key :: "DocumentKey \<Rightarrow> bool" where
  "canonical_key k = (key_ok k \<and> canonical_path (key_path k))"

lemma database_ids_free:
  "DatabaseName_new (project_id db) (database_id db) = Inr db \<Longrightarrow>
    CHR ''/'' \<notin> set (project_id db) \<and> CHR ''/'' \<notin> set (database_id db)"
  by (auto simp: DatabaseName_new_def validate_identifier_def split: if_splits)

lemma split_database_display:
  assumes "DatabaseName_new (project_id db) (database_id db) = Inr db"
  shows "split_char (CHR ''/'') (DatabaseName_display db) = [''projects'', project_id db, ''databases'', database_id db]"
proof -
  have "DatabaseName_display db = join_char (CHR ''/'') [''projects'', project_id db, ''databases'', database_id db]"
    by (simp add: DatabaseName_display_def)
  then show ?thesis using database_ids_free [OF assms] by (simp add: split_append_sep split_no_sep)
qed

lemma split_key_display:
  assumes "DatabaseName_new (project_id db) (database_id db) = Inr db" "key_database k = db"
  shows "split_char (CHR ''/'') (DocumentKey_display k) =
    [''projects'', project_id db, ''databases'', database_id db, ''documents''] @ split_char (CHR ''/'') (key_path k)"
proof -
  have "DocumentKey_display k = (DatabaseName_display db @ CHR ''/'' # ''documents'') @ CHR ''/'' # key_path k"
    using assms(2) by (simp add: DocumentKey_display_def)
  then show ?thesis
    by (simp only: split_append split_database_display [OF assms(1)]) (simp add: split_no_sep)
qed

lemma join_char_Cons: "ps \<noteq> [] \<Longrightarrow> join_char c (p # ps) = p @ c # join_char c ps"
  by (cases ps) auto

lemma join_char_flatten: "ys \<noteq> [] \<Longrightarrow> join_char c (xs @ [join_char c ys]) = join_char c (xs @ ys)"
  by (induction xs) (simp_all add: join_char_Cons)

lemma join_splitn: "0 < n \<Longrightarrow> join_char c (splitn n c s) = s"
proof -
  assume "0 < n"
  have "take (n - 1) (split_char c s) @ drop (n - 1) (split_char c s) = split_char c s" by simp
  then show ?thesis
    using \<open>0 < n\<close> join_char_flatten [of "drop (n - 1) (split_char c s)" c "take (n - 1) (split_char c s)"]
    by (auto simp: splitn_def Let_def join_split)
qed

text \<open>A parsed name is the display of the key it parses to, and every key's display parses back.\<close>

lemma document_key_from_name_Some:
  assumes "document_key_from_name name db = Some k"
  shows "name = DocumentKey_display k" "key_database k = db" "key_ok k"
proof -
  obtain first rest where pieces: "splitn 7 (CHR ''/'') name =
      [''projects'', project_id db, ''databases'', database_id db, ''documents'', first, rest]"
    and new: "DocumentKey_new db (first @ ''/'' @ rest) = Inr k"
    using assms by (auto simp: document_key_from_name_def split: list.splits if_splits sum.splits)
  have k: "k = DocumentKey db (first @ ''/'' @ rest)"
    using new by (auto simp: DocumentKey_new_def Let_def split: if_splits)
  then show "name = DocumentKey_display k" "key_database k = db"
    using join_splitn [of 7 "CHR ''/''" name] pieces
    by (auto simp: DocumentKey_display_def DatabaseName_display_def)
  show "key_ok k" using new by (auto simp: key_ok_def)
qed

lemma key_ok_new: "key_ok k \<Longrightarrow> DocumentKey_new (key_database k) (key_path k) = Inr k"
  by (auto simp: key_ok_def DocumentKey_new_def Let_def split: if_splits)

lemma document_key_from_name_display:
  assumes "DatabaseName_new (project_id db) (database_id db) = Inr db" "key_database k = db" "key_ok k"
  shows "document_key_from_name (DocumentKey_display k) db = Some k"
proof -
  obtain a b cs where path: "split_char (CHR ''/'') (key_path k) = a # b # cs"
    using key_ok_segments(1) [OF assms(3)] by (auto simp: length_Suc_conv numeral_2_eq_2 Suc_le_length_iff)
  have key_path: "key_path k = a @ ''/'' @ join_char (CHR ''/'') (b # cs)"
    using join_split [of "CHR ''/''" "key_path k"] path by simp
  have "splitn 7 (CHR ''/'') (DocumentKey_display k) =
      [''projects'', project_id db, ''databases'', database_id db, ''documents'', a, join_char (CHR ''/'') (b # cs)]"
    by (cases cs) (simp_all add: splitn_def Let_def split_key_display [OF assms(1,2)] path)
  then show ?thesis
    using key_ok_new [OF assms(3)] assms(2) key_path by (simp add: document_key_from_name_def)
qed

lemma canonical_display:
  assumes "canonical_database db" "canonical_path (key_path k)" "key_database k = db"
  shows "canonical_path (DocumentKey_display k)"
proof -
  have db: "DatabaseName_new (project_id db) (database_id db) = Inr db" "canonical_path (DatabaseName_display db)"
    using assms(1) by (auto simp: canonical_database_def)
  have "numeric_resource_id ''documents'' = None" by (simp add: numeric_resource_id_def)
  then show ?thesis
    using db(2) assms(2) split_key_display [OF db(1) assms(3)] split_database_display [OF db(1)]
    by (auto simp: canonical_path_def canonical_resource_id_def)
qed

lemma canonical_display_path:
  assumes "DatabaseName_new (project_id db) (database_id db) = Inr db" "key_database k = db"
    "canonical_path (DocumentKey_display k)"
  shows "canonical_path (key_path k)"
  using assms(3) split_key_display [OF assms(1,2)] by (simp add: canonical_path_def)

text \<open>The scope test on a key is the one the indexes are built by.\<close>

lemma rsplit_last:
  fixes s :: string
  shows "(case rsplit_once c s of Some (_, name) \<Rightarrow> name | None \<Rightarrow> s) = last (split_char c s)"
proof (cases "rsplit_once c s")
  case None
  then have "c \<notin> set s" by (simp add: rsplit_once_None)
  then show ?thesis using None by (simp add: split_no_sep)
next
  case (Some p)
  then obtain before after where "rsplit_once c s = Some (before, after)" "s = before @ c # after" "c \<notin> set after"
    using rsplit_once_Some by (cases p) blast
  then show ?thesis by (simp add: split_append split_no_sep)
qed

lemma key_in_scope_index:
  assumes "key_ok k"
  shows "(key_database k = db \<and> key_in_scope k q) =
    (case query_scope q of
       Collection path \<Rightarrow> collection_key k = (db, path)
     | CollectionGroup name \<Rightarrow> collection_group_key k = (db, name)
         \<and> (case query_ancestor q of None \<Rightarrow> True | Some a \<Rightarrow> ancestor_matches a (key_path k)))"
proof -
  obtain before after where "rsplit_once (CHR ''/'') (key_path k) = Some (before, after)"
    using key_ok_rsplit [OF assms] by auto
  then show ?thesis
    using rsplit_last [where c = "CHR ''/''" and s = before]
    by (auto simp: key_in_scope_def collection_key_def collection_group_key_def Let_def split: QueryScope.splits)
qed

end
