(* ===== verification/Query_Exec.thy ===== *)
theory Query_Exec
  imports Query_Facts
begin

text \<open>
  Query execution against a reference: filter the documents of the scope, sort them, skip the
  offset, keep the limit. The candidates a query reads (by index or by name), the lazy stream,
  the ordered reload of a disk store and the bounded buffer all give this result.
\<close>

section \<open>Candidates\<close>

definition scope_documents :: "Snapshot \<Rightarrow> DatabaseName \<Rightarrow> Query \<Rightarrow> (DocumentKey \<times> Document) list" where
  "scope_documents s db q =
     filter (\<lambda>e. key_database (fst e) = db \<and> key_in_scope (fst e) q) (snapshot_documents s)"

text \<open>Indexes that describe the documents, canonical keys and well-formed fields.\<close>

definition snapshot_wf :: "Snapshot \<Rightarrow> bool" where
  "snapshot_wf s =
     (snapshot_ok s
      \<and> (\<forall>e\<in>set (snapshot_documents s). canonical_key (fst e) \<and> fields_ok (Document.fields (snd e))))"

definition query_names :: "Query \<Rightarrow> string list option" where
  "query_names q =
     Option.bind (query_filter q) (\<lambda>f. Option.bind (field_preds f) (\<lambda>preds.
       Option.bind (find names_documents preds) filter_names))"

definition names_canonical :: "Query \<Rightarrow> bool" where
  "names_canonical q = (case query_names q of None \<Rightarrow> True | Some names \<Rightarrow> list_all canonical_path names)"

definition filter_passes :: "Query \<Rightarrow> DatabaseEdition \<Rightarrow> DocumentKey \<times> Document \<Rightarrow> bool" where
  "filter_passes q ed e =
     (case query_filter q of None \<Rightarrow> True | Some f \<Rightarrow> filter_matches f (fst e) (snd e) ed)"

definition compare_entries :: "DocumentKey \<times> Document \<Rightarrow> DocumentKey \<times> Document \<Rightarrow> ordering" where
  "compare_entries a b = compare_key_paths (fst a) (fst b)"

interpretation entries: comparator compare_entries "\<lambda>_. True"
  using key_paths.on_key [of fst] by (simp add: compare_entries_def [abs_def])

lemma named_candidates_names:
  "named_candidates q db = map_option (\<lambda>names.
     remdups_adj (sort_by compare_key_paths (filter (\<lambda>key. key_in_scope key q)
       (List.map_filter (\<lambda>name. document_key_from_name name db) names)))) (query_names q)"
  by (auto simp: named_candidates_def query_names_def Let_def split: Option.bind_splits)

lemma set_map_filter: "(y \<in> set (List.map_filter f xs)) = (\<exists>x\<in>set xs. f x = Some y)"
  by (induction xs) (auto simp: List.map_filter_simps split: option.splits)

lemma those_member:
  "those (map f xs) = Some ys \<Longrightarrow> x \<in> set xs \<Longrightarrow> \<exists>y\<in>set ys. f x = Some y"
  by (induction xs arbitrary: ys) (auto split: option.splits)

lemma sorted_by_remdups_adj: "sorted_by compare xs \<Longrightarrow> sorted_by compare (remdups_adj xs)"
  by (induction xs rule: remdups_adj.induct) auto

lemma sorted_by_lookup:
  "sorted_by compare_key_paths keys \<Longrightarrow>
    sorted_by compare_entries (List.map_filter (\<lambda>key. map_option (Pair key) (get key)) keys)"
  by (induction keys)
    (auto simp: List.map_filter_simps set_map_filter compare_entries_def split: option.splits)

lemma distinct_lookup:
  "distinct keys \<Longrightarrow> distinct (List.map_filter (\<lambda>key. map_option (Pair key) (get key)) keys)"
  by (induction keys) (auto simp: List.map_filter_simps set_map_filter split: option.splits)

lemma field_pred_case:
  "((case f of FieldPred p \<Rightarrow> Some p | And _ \<Rightarrow> None | Or _ \<Rightarrow> None) = Some p) = (f = FieldPred p)"
  by (cases f) auto

lemma field_pred_required:
  "field_preds f = Some preds \<Longrightarrow> p \<in> set preds \<Longrightarrow> filter_matches f k d ed \<Longrightarrow> field_filter_matches p k d ed"
  by (cases f) (fastforce simp: set_map_filter list_all_iff field_pred_case)+

text \<open>A document that passes a filter on its name is one the filter names.\<close>

lemma filter_names_member:
  assumes "names_documents p" "filter_names p = Some names" "field_filter_matches p k d ed"
    "\<forall>n\<in>set names. canonical_path n" "canonical_path (DocumentKey_display k)"
  shows "DocumentKey_display k \<in> set names"
proof -
  have eq: "DocumentKey_display k = n"
    if "n \<in> set names" "compare_resource_paths (DocumentKey_display k) n = Equal" for n
    using canonical_paths_equal [OF assms(5) _ that(2)] that(1) assms(4) by blast
  have fv: "field_value k d (filter_path p) = Some (DocumentName (DocumentKey_display k))"
    using assms(1) by (simp add: names_documents_def)
  consider "filter_operator p = OpEqual" | "filter_operator p = OpIn"
    using assms(1) by (auto simp: names_documents_def)
  then show ?thesis
  proof cases
    case 1
    then obtain n where "filter_value p = Reference n" "names = [n]"
      using assms(2) by (auto simp: filter_names_def split: Value.splits)
    then show ?thesis using 1 assms(3) fv eq by (simp add: field_filter_matches_def)
  next
    case 2
    then obtain vs where vs: "filter_value p = Array vs" "those (map reference_name vs) = Some names"
      using assms(2) by (auto simp: filter_names_def split: Value.splits)
    then obtain v where v: "v \<in> set vs" "FieldValue_compare (DocumentName (DocumentKey_display k)) v ed = Equal"
      using 2 assms(3) fv by (auto simp: field_filter_matches_def list_ex_iff)
    then obtain n where "n \<in> set names" "reference_name v = Some n" using those_member [OF vs(2)] by blast
    moreover from this have "v = Reference n" by (cases v) auto
    ultimately show ?thesis using v(2) eq by auto
  qed
qed

text \<open>Entries of a well-formed snapshot in one database tie only with themselves.\<close>

lemma entries_no_tie:
  assumes "snapshot_wf s" "a \<in> set (scope_documents s db q)" "b \<in> set (scope_documents s db q)"
    "compare_entries a b = Equal"
  shows "a = b"
proof -
  have ab: "a \<in> set (snapshot_documents s)" "b \<in> set (snapshot_documents s)"
    "key_database (fst a) = key_database (fst b)"
    using assms(2,3) by (auto simp: scope_documents_def)
  then have "key_path (fst a) = key_path (fst b)"
    using assms(1,4) canonical_paths_equal
    by (auto simp: snapshot_wf_def canonical_key_def compare_entries_def compare_key_paths_def)
  with ab(3) have "fst a = fst b" by (cases "fst a"; cases "fst b") simp
  moreover have "om_ok (snapshot_documents s)" using assms(1) by (simp add: snapshot_wf_def snapshot_ok_def)
  ultimately show ?thesis
    using ab(1,2) om_get_Some_iff by (metis option.inject prod.collapse)
qed

lemma distinct_scope_documents: "snapshot_wf s \<Longrightarrow> distinct (scope_documents s db q)"
  using om_ok_distinct distinct_map
  by (auto simp: scope_documents_def snapshot_wf_def snapshot_ok_def intro!: distinct_filter)

lemma scanned_candidates:
  assumes "snapshot_wf s" "query_names q = None"
  shows "scoped_documents s db q = sort_by compare_entries (scope_documents s db q)"
proof -
  have ok: "snapshot_ok s" and keys: "\<And>e. e \<in> set (snapshot_documents s) \<Longrightarrow> key_ok (fst e)"
    using assms(1) by (auto simp: snapshot_wf_def canonical_key_def)
  have scan_scope: "scan P s = sort_by compare_entries (scope_documents s db q)"
    if "\<And>k. key_ok k \<Longrightarrow> P k = (key_database k = db \<and> key_in_scope k q)" for P
    unfolding scan_def scope_documents_def compare_entries_def [abs_def]
    using that keys by (auto intro!: arg_cong [where f = "sort_by _"] filter_cong)
  show ?thesis
  proof (cases "query_scope q")
    case (Collection path)
    then show ?thesis
      using scan_scope [of "\<lambda>k. collection_key k = (db, path)"] key_in_scope_index [of _ db q] assms(2)
      by (simp add: scoped_documents_def named_candidates_names iter_collection_scan [OF ok])
  next
    case (CollectionGroup name)
    then show ?thesis
      using scan_scope [of "\<lambda>k. collection_group_key k = (db, name)
          \<and> (case query_ancestor q of None \<Rightarrow> True | Some a \<Rightarrow> ancestor_matches a (key_path k))"]
        key_in_scope_index [of _ db q] assms(2)
      by (simp add: scoped_documents_def named_candidates_names iter_collection_group_scan [OF ok])
  qed
qed

lemma named_keys:
  fixes q :: Query
  assumes "snapshot_wf s" "canonical_database db" "list_all canonical_path names"
  defines "keys \<equiv> filter (\<lambda>key. key_in_scope key q) (List.map_filter (\<lambda>name. document_key_from_name name db) names)"
  shows "\<forall>k\<in>set keys. key_database k = db \<and> canonical_path (key_path k)"
    and "distinct (remdups_adj (sort_by compare_key_paths keys))"
    and "sorted_by compare_key_paths (remdups_adj (sort_by compare_key_paths keys))"
proof -
  have db: "DatabaseName_new (project_id db) (database_id db) = Inr db"
    using assms(2) by (simp add: canonical_database_def)
  show ok: "\<forall>k\<in>set keys. key_database k = db \<and> canonical_path (key_path k)"
  proof
    fix k assume "k \<in> set keys"
    then obtain name where "name \<in> set names" "document_key_from_name name db = Some k"
      by (auto simp: keys_def set_map_filter)
    then show "key_database k = db \<and> canonical_path (key_path k)"
      using document_key_from_name_Some [of name db k] canonical_display_path [OF db, of k] assms(3)
      by (auto simp: list_all_iff)
  qed
  have sorted: "sorted_by compare_key_paths (sort_by compare_key_paths keys)"
    by (rule key_paths.sorted_sort_by) simp
  then show "sorted_by compare_key_paths (remdups_adj (sort_by compare_key_paths keys))"
    by (rule sorted_by_remdups_adj)
  show "distinct (remdups_adj (sort_by compare_key_paths keys))"
  proof (rule comparator.distinct_remdups_adj_sorted [OF key_paths.comparator_axioms sorted])
    fix a b assume "a \<in> set (sort_by compare_key_paths keys)" "b \<in> set (sort_by compare_key_paths keys)"
      "compare_key_paths a b = Equal"
    then have "key_database a = key_database b \<and> key_path a = key_path b"
      using ok canonical_paths_equal [of "key_path a" "key_path b"] by (simp add: compare_key_paths_def)
    then show "a = b" by (simp add: DocumentKey.expand)
  qed simp
qed

lemma named_member:
  assumes "snapshot_wf s" "canonical_database db" "query_names q = Some names" "list_all canonical_path names"
    "e \<in> set (scope_documents s db q)" "filter_passes q ed e"
  shows "fst e \<in> set (filter (\<lambda>key. key_in_scope key q)
    (List.map_filter (\<lambda>name. document_key_from_name name db) names))"
proof -
  obtain f preds p where f: "query_filter q = Some f" "field_preds f = Some preds"
    "find names_documents preds = Some p" "filter_names p = Some names"
    using assms(3) by (auto simp: query_names_def split: Option.bind_splits)
  have e: "key_database (fst e) = db" "key_in_scope (fst e) q" "canonical_key (fst e)"
    using assms(1,5) by (auto simp: scope_documents_def snapshot_wf_def)
  have p: "p \<in> set preds" "names_documents p" using f(3) by (auto simp: find_Some_iff)
  have "field_filter_matches p (fst e) (snd e) ed"
    using assms(6) f(1) by (intro field_pred_required [OF f(2) p(1)]) (simp add: filter_passes_def)
  then have "DocumentKey_display (fst e) \<in> set names"
    using filter_names_member [OF p(2) f(4)] assms(4) canonical_display [OF assms(2) _ e(1)] e(3)
    by (auto simp: list_all_iff canonical_key_def)
  moreover have "document_key_from_name (DocumentKey_display (fst e)) db = Some (fst e)"
    using document_key_from_name_display [OF _ e(1)] assms(2) e(3)
    by (auto simp: canonical_database_def canonical_key_def)
  ultimately show ?thesis using e(2) by (auto simp: set_map_filter)
qed

text \<open>
  What passes the filter among the candidates of a query is what passes it in the whole scope,
  in the order of document names, whether the candidates come from an index or from the filter.
\<close>

lemma scoped_matches:
  assumes "snapshot_wf s" "canonical_database db" "names_canonical q"
    "\<And>e. P e \<Longrightarrow> filter_passes q ed e"
  shows "filter P (scoped_documents s db q) = sort_by compare_entries (filter P (scope_documents s db q))"
proof (cases "query_names q")
  case None
  then show ?thesis
    using scanned_candidates [OF assms(1)] filter_sort_by [OF entries.comparator_axioms] by simp
next
  case (Some names)
  then have canonical: "list_all canonical_path names" using assms(3) by (simp add: names_canonical_def)
  define keys where "keys = filter (\<lambda>key. key_in_scope key q)
    (List.map_filter (\<lambda>name. document_key_from_name name db) names)"
  note named = named_keys [OF assms(1,2) canonical, of q, folded keys_def]
  let ?found = "List.map_filter (\<lambda>key. map_option (Pair key) (Snapshot_get s key))
    (remdups_adj (sort_by compare_key_paths keys))"
  have docs: "scoped_documents s db q = ?found"
    using Some by (simp add: scoped_documents_def named_candidates_names keys_def)
  have om: "om_ok (snapshot_documents s)" using assms(1) by (simp add: snapshot_wf_def snapshot_ok_def)
  have found: "e \<in> set ?found \<longleftrightarrow> fst e \<in> set keys \<and> e \<in> set (snapshot_documents s)" for e
    using om_get_Some_iff [OF om] by (cases e) (auto simp: set_map_filter Snapshot_get_def)
  have scope: "key_in_scope k q" if "k \<in> set keys" for k using that by (simp add: keys_def)
  have member: "fst e \<in> set keys" if "e \<in> set (scope_documents s db q)" "P e" for e
    using named_member [OF assms(1,2) Some canonical that(1) assms(4) [OF that(2)]] by (simp add: keys_def)
  have same: "set (filter P ?found) = set (filter P (scope_documents s db q))"
  proof (rule set_eqI)
    fix e
    have "e \<in> set (scope_documents s db q) \<longleftrightarrow>
        e \<in> set (snapshot_documents s) \<and> key_database (fst e) = db \<and> key_in_scope (fst e) q"
      by (simp add: scope_documents_def)
    then show "e \<in> set (filter P ?found) \<longleftrightarrow> e \<in> set (filter P (scope_documents s db q))"
      unfolding set_filter mem_Collect_eq
      using found [of e] scope [of "fst e"] member [of e] named(1) by blast
  qed
  show ?thesis unfolding docs
  proof (rule entries.sorted_unique)
    show "sorted_by compare_entries (filter P ?found)"
      using sorted_by_lookup [OF named(3)] unfolding sorted_by_def by (rule sorted_wrt_filter)
    show "sorted_by compare_entries (sort_by compare_entries (filter P (scope_documents s db q)))"
      by (rule entries.sorted_sort_by) simp
    fix a b assume "a \<in> set (filter P ?found)" "b \<in> set (filter P ?found)" "compare_entries a b = Equal"
    then show "a = b" unfolding same using entries_no_tie [OF assms(1), of a db q b] by simp
  next
    show "distinct (filter P ?found)" by (rule distinct_filter [OF distinct_lookup [OF named(2)]])
  qed (use same distinct_scope_documents [OF assms(1), of db q] in simp_all)
qed

section \<open>The lazy stream\<close>

lemma next_candidate_eq:
  "case next_candidate matches candidates remaining skip of
     None \<Rightarrow> drop skip (filter matches candidates) = []
   | Some (c, st) \<Rightarrow> drop skip (filter matches candidates) = c # filter matches (stream_candidates st)
       \<and> remaining_limit st = map_option (\<lambda>n. n - 1) remaining \<and> remaining_offset st = 0"
  by (induction matches candidates remaining skip rule: next_candidate.induct)
    (auto split: option.splits simp: drop_Cons' )

definition stream_limit :: "nat option \<Rightarrow> 'a list \<Rightarrow> 'a list" where
  "stream_limit remaining xs = (case remaining of None \<Rightarrow> xs | Some n \<Rightarrow> take n xs)"

lemma stream_all_eq:
  "stream_all matches st =
    stream_limit (remaining_limit st) (drop (remaining_offset st) (filter matches (stream_candidates st)))"
proof (induction matches st rule: stream_all.induct)
  case (1 matches st)
  let ?rest = "drop (remaining_offset st) (filter matches (stream_candidates st))"
  show ?case
  proof (cases "next_lazy matches st")
    case None
    then have "remaining_limit st = Some 0 \<or> ?rest = []"
      using next_candidate_eq [where matches = matches and candidates = "stream_candidates st"
          and remaining = "remaining_limit st" and skip = "remaining_offset st"]
      by (auto simp: next_lazy_def split: if_splits)
    then show ?thesis
      using None by (auto simp: stream_all.simps [of matches st] stream_limit_def split: option.splits)
  next
    case (Some p)
    then obtain c st' where p: "next_lazy matches st = Some (c, st')" by (cases p) auto
    then have "?rest = c # filter matches (stream_candidates st')"
      "remaining_limit st' = map_option (\<lambda>n. n - 1) (remaining_limit st)" "remaining_offset st' = 0"
      "remaining_limit st \<noteq> Some 0"
      using next_candidate_eq [where matches = matches and candidates = "stream_candidates st"
          and remaining = "remaining_limit st" and skip = "remaining_offset st"]
      by (auto simp: next_lazy_def split: if_splits)
    then show ?thesis
      using 1 [OF p refl] p
      by (auto simp: stream_all.simps [of matches st] stream_limit_def take_Cons' split: option.splits)
  qed
qed

lemma stream_count_eq:
  "n \<le> u64_max \<Longrightarrow> stream_count matches st n = min (n + length (stream_all matches st)) u64_max"
proof (induction matches st n rule: stream_count.induct)
  case (1 matches st n)
  show ?case
  proof (cases "next_lazy matches st")
    case None
    then show ?thesis
      using 1 by (simp add: stream_all.simps [of matches st] stream_count.simps [of matches st n])
  next
    case (Some p)
    then obtain c st' where p: "next_lazy matches st = Some (c, st')" by (cases p) auto
    then show ?thesis
      using 1(1) [OF p refl]
      by (simp add: stream_all.simps [of matches st] stream_count.simps [of matches st n] sat_add_def)
  qed
qed

section \<open>The reference result\<close>

definition candidate_compare :: "DatabaseEdition \<Rightarrow> Order list \<Rightarrow>
    DocumentKey \<times> Document \<Rightarrow> DocumentKey \<times> Document \<Rightarrow> ordering" where
  "candidate_compare ed ords a b =
     compare_order_values ed ords (fst a, order_values (fst a) (snd a) ords)
       (fst b, order_values (fst b) (snd b) ords)"

definition limit_results :: "Limit option \<Rightarrow> 'a list \<Rightarrow> 'a list" where
  "limit_results l xs =
     (case l of None \<Rightarrow> xs | Some (First n) \<Rightarrow> take n xs | Some (Last n) \<Rightarrow> last_n n xs)"

definition query_matches :: "Snapshot \<Rightarrow> DatabaseName \<Rightarrow> Query \<Rightarrow> DatabaseEdition \<Rightarrow> Order list \<Rightarrow>
    (DocumentKey \<times> Document) list" where
  "query_matches s db q ed ords = filter (candidate_matches q ords ed) (scope_documents s db q)"

definition query_reference :: "Snapshot \<Rightarrow> DatabaseName \<Rightarrow> Query \<Rightarrow> DatabaseEdition \<Rightarrow> Order list \<Rightarrow>
    (DocumentKey \<times> Document) list" where
  "query_reference s db q ed ords =
     limit_results (query_limit q) (drop (query_offset q)
       (sort_by (candidate_compare ed ords) (query_matches s db q ed ords)))"

lemma matches_pass: "candidate_matches q ords ed e \<Longrightarrow> filter_passes q ed e"
  by (cases e; cases "query_filter q") (simp_all add: candidate_matches_def filter_passes_def)

lemma matched_order_keys:
  assumes "candidate_matches q ords ed e" "fields_ok (Document.fields (snd e))"
  shows "order_keys_ok ords (fst e, order_values (fst e) (snd e) ords)"
proof -
  have "value_ok v" if "x \<in> set ords" "as_value (the (field_value (fst e) (snd e) (order_path x))) = Some v" for x v
  proof -
    have "field_value (fst e) (snd e) (order_path x) \<noteq> None"
      using assms(1) that(1) by (auto simp: candidate_matches_def list_all_iff split: prod.splits)
    then show ?thesis
      using that(2) nested_value_ok [OF assms(2)]
      by (cases "order_path x") (auto simp: LazyDocument_field_def)
  qed
  then show ?thesis unfolding order_keys_ok_def order_values_def by fastforce
qed

lemma apply_direction_Equal [simp]: "(apply_direction v d = Equal) = (v = Equal)"
  by (cases d) auto

lemma order_values_name_last:
  "length vs = length before \<Longrightarrow> length ws = length before \<Longrightarrow>
    compare_order_values ed (before @ [y]) (k, vs @ [None]) (l, ws @ [None]) = Equal \<Longrightarrow>
    compare_resource_paths (DocumentKey_display k) (DocumentKey_display l) = Equal"
proof (induction before arbitrary: vs ws)
  case Nil
  then show ?case by (simp add: order_value_field_def)
next
  case (Cons x before)
  then show ?case by (cases vs; cases ws) auto
qed

text \<open>Under normalized orders two candidates tie only if they are the same document.\<close>

lemma candidates_no_tie:
  assumes "snapshot_wf s" "normalized_orders q = Inr ords" "candidate_compare ed ords a b = Equal"
    "a \<in> set (scope_documents s db q)" "b \<in> set (scope_documents s db q)"
  shows "a = b"
proof -
  obtain before y where y: "ords = before @ [y]" "order_path y = DocumentId"
    by (rule normalized_orders_shape [OF assms(2)])
  have "order_values k d ords = order_values k d before @ [None]" for k d
    using y by (simp add: order_values_def)
  then have "compare_resource_paths (DocumentKey_display (fst a)) (DocumentKey_display (fst b)) = Equal"
    using assms(3) order_values_name_last [of "order_values (fst a) (snd a) before" before
        "order_values (fst b) (snd b) before" ed y "fst a" "fst b"] y(1)
    by (simp add: candidate_compare_def) (simp add: order_values_def)
  then have "compare_entries a b = Equal"
    using assms(4,5) compare_display_same_database [of "fst a" "fst b"]
    by (simp add: compare_entries_def compare_key_paths_def scope_documents_def)
  then show ?thesis using entries_no_tie [OF assms(1,4,5)] by simp
qed

lemma query_matches_facts:
  assumes "snapshot_wf s"
  shows "distinct (query_matches s db q ed ords)"
    and "e \<in> set (query_matches s db q ed ords) \<Longrightarrow>
      e \<in> set (scope_documents s db q) \<and> candidate_matches q ords ed e
      \<and> order_keys_ok ords (fst e, order_values (fst e) (snd e) ords) \<and> Snapshot_get s (fst e) = Some (snd e)"
proof -
  show "distinct (query_matches s db q ed ords)"
    using distinct_scope_documents [OF assms] by (simp add: query_matches_def)
  assume "e \<in> set (query_matches s db q ed ords)"
  moreover from this have "e \<in> set (snapshot_documents s)"
    by (auto simp: query_matches_def scope_documents_def)
  moreover from this have "fields_ok (Document.fields (snd e))" "Snapshot_get s (fst e) = Some (snd e)"
    using assms by (auto simp: snapshot_wf_def snapshot_ok_def Snapshot_get_def om_get_Some_iff)
  ultimately show "e \<in> set (scope_documents s db q) \<and> candidate_matches q ords ed e
      \<and> order_keys_ok ords (fst e, order_values (fst e) (snd e) ords) \<and> Snapshot_get s (fst e) = Some (snd e)"
    using matched_order_keys by (auto simp: query_matches_def)
qed

text \<open>The candidates of a query that match, in the order the query reads them.\<close>

definition read_matches :: "Snapshot \<Rightarrow> DatabaseName \<Rightarrow> Query \<Rightarrow> DatabaseEdition \<Rightarrow> Order list \<Rightarrow>
    (DocumentKey \<times> Document) list" where
  "read_matches s db q ed ords = filter (candidate_matches q ords ed) (scoped_documents s db q)"

lemma candidates_comparator:
  "comparator (candidate_compare ed ords) (\<lambda>e. order_keys_ok ords (fst e, order_values (fst e) (snd e) ords))"
  using order_vals.on_key [of ed ords "\<lambda>e. (fst e, order_values (fst e) (snd e) ords)"]
  by (simp add: candidate_compare_def [abs_def])

lemma read_matches_sorted:
  assumes "snapshot_wf s" "canonical_database db" "names_canonical q"
  shows "read_matches s db q ed ords = sort_by compare_entries (query_matches s db q ed ords)"
  unfolding read_matches_def query_matches_def by (rule scoped_matches [OF assms]) (rule matches_pass)

lemma sort_read_matches:
  assumes "snapshot_wf s" "canonical_database db" "names_canonical q" "normalized_orders q = Inr ords"
  shows "sort_by (candidate_compare ed ords) (read_matches s db q ed ords)
    = sort_by (candidate_compare ed ords) (query_matches s db q ed ords)"
proof (rule comparator.sort_by_mset [OF candidates_comparator])
  have eq: "mset (read_matches s db q ed ords) = mset (query_matches s db q ed ords)"
    using read_matches_sorted [OF assms(1-3)] by simp
  then show "mset (read_matches s db q ed ords) = mset (query_matches s db q ed ords)" .
  have same: "set (read_matches s db q ed ords) = set (query_matches s db q ed ords)"
    using mset_eq_setD [OF eq] .
  show "distinct (read_matches s db q ed ords)"
    using query_matches_facts(1) [OF assms(1)] mset_eq_imp_distinct_iff [OF eq] by blast
  show "\<forall>e\<in>set (read_matches s db q ed ords). order_keys_ok ords (fst e, order_values (fst e) (snd e) ords)"
    unfolding same using query_matches_facts(2) [OF assms(1)] by blast
  fix a b assume "a \<in> set (read_matches s db q ed ords)" "b \<in> set (read_matches s db q ed ords)"
    "candidate_compare ed ords a b = Equal"
  then show "a = b"
    unfolding same using candidates_no_tie [OF assms(1,4)] query_matches_facts(2) [OF assms(1)] by blast
qed

text \<open>Under the name order alone, the candidates are read in result order.\<close>

lemma name_order_compare:
  "key_database (fst a) = key_database (fst b) \<Longrightarrow> candidate_compare ed [name_order] a b = compare_entries a b"
  using compare_display_same_database [of "fst a" "fst b"]
  by (cases "compare_entries a b")
    (simp_all add: candidate_compare_def order_values_def name_order_def order_value_field_def
      compare_entries_def compare_key_paths_def)

lemma read_matches_name_order:
  assumes "snapshot_wf s" "canonical_database db" "names_canonical q" "normalized_orders q = Inr [name_order]"
  shows "sort_by (candidate_compare ed [name_order]) (read_matches s db q ed [name_order])
    = read_matches s db q ed [name_order]"
proof (rule comparator.sort_by_sorted_id [OF candidates_comparator])
  let ?read = "read_matches s db q ed [name_order]"
  have same: "set ?read = set (query_matches s db q ed [name_order])"
    using read_matches_sorted [OF assms(1-3)] by simp
  have "sorted_wrt (\<lambda>a b. compare_entries a b \<noteq> Greater) ?read"
    using entries.sorted_sort_by [of "query_matches s db q ed [name_order]"]
    by (simp add: read_matches_sorted [OF assms(1-3)] sorted_by_def)
  then show "sorted_by (candidate_compare ed [name_order]) ?read"
    unfolding sorted_by_def
  proof (rule sorted_wrt_mono_rel [rotated])
    fix a b assume ab: "a \<in> set ?read" "b \<in> set ?read" "compare_entries a b \<noteq> Greater"
    then have "key_database (fst a) = key_database (fst b)"
      unfolding same by (auto simp: query_matches_def scope_documents_def)
    then show "candidate_compare ed [name_order] a b \<noteq> Greater"
      using name_order_compare ab(3) by simp
  qed
  show "\<forall>e\<in>set ?read. order_keys_ok [name_order] (fst e, order_values (fst e) (snd e) [name_order])"
    unfolding same using query_matches_facts(2) [OF assms(1)] by blast
qed

section \<open>The bounded buffer\<close>

lemma compare_candidates_ordered:
  "compare_candidates ed ords (ordered_candidate ords a) (ordered_candidate ords b) = candidate_compare ed ords a b"
  by (simp add: compare_candidates_def candidate_compare_def ordered_candidate_def)

lemma sort_ordered_candidates:
  "sort_by (compare_candidates ed ords) (map (ordered_candidate ords) xs)
    = map (ordered_candidate ords) (sort_by (candidate_compare ed ords) xs)"
  by (simp add: sort_by_map compare_candidates_ordered [abs_def])

lemma limit_after_first:
  "length xs \<le> u64_max \<Longrightarrow> take n (drop k (take (sat_add k n) xs)) = take n (drop k xs)"
proof -
  assume len: "length xs \<le> u64_max"
  show ?thesis
  proof (cases "k + n \<le> u64_max")
    case True
    then show ?thesis by (simp add: sat_add_def drop_take)
  next
    case False
    then show ?thesis using len by (simp add: sat_add_def)
  qed
qed

lemma limit_after_last:
  "length xs \<le> u64_max \<Longrightarrow> last_n n (drop k (last_n (sat_add k n) xs)) = last_n n (drop k xs)"
proof -
  assume len: "length xs \<le> u64_max"
  show ?thesis
  proof (cases "length xs \<le> sat_add k n")
    case False
    then have "k + n < length xs" "sat_add k n = k + n"
      using len by (auto simp: sat_add_def)
    then show ?thesis by (simp add: last_n_def)
  qed simp
qed

lemma ordered_comparator:
  "comparator (compare_candidates ed ords) (\<lambda>c. order_keys_ok ords (candidate_order c))"
  using order_vals.on_key [of ed ords candidate_order] by (simp add: compare_candidates_def [abs_def])

definition bound_results :: "Query \<Rightarrow> 'a list \<Rightarrow> 'a list" where
  "bound_results q xs =
     (case query_limit q of
        None \<Rightarrow> xs
      | Some (First n) \<Rightarrow> if n = 0 then [] else take (sat_add (query_offset q) n) xs
      | Some (Last n) \<Rightarrow> if n = 0 then [] else last_n (sat_add (query_offset q) n) xs)"

text \<open>The loop keeps exactly the elements that can still be in the result.\<close>

lemma collect_bounded:
  assumes "\<forall>c\<in>set candidates. order_keys_ok ords (candidate_order c)"
    "no_ties (compare_candidates ed ords) candidates"
  shows "sort_by (compare_candidates ed ords) (collect_bounded_candidates candidates q ords ed)
    = bound_results q (sort_by (compare_candidates ed ords) candidates)"
proof -
  let ?compare = "compare_candidates ed ords"
  let ?sorted = "sort_by ?compare candidates"
  have sorted: "sorted_by ?compare ?sorted"
    using comparator.sorted_sort_by [OF ordered_comparator assms(1)] .
  have idem: "sort_by ?compare xs = xs" if "sorted_by ?compare xs" "set xs \<subseteq> set candidates" for xs
    using comparator.sort_by_sorted_id [OF ordered_comparator that(1)] assms(1) that(2) by blast
  have take: "sort_by ?compare (take b ?sorted) = take b ?sorted" for b
    using sorted set_take_subset [of b ?sorted]
    by (intro idem) (auto simp: sorted_by_def intro: sorted_wrt_take)
  have last: "sort_by ?compare (last_n b ?sorted) = last_n b ?sorted" for b
    using sorted set_last_n [of b ?sorted]
    by (intro idem) (auto simp: sorted_by_def last_n_def intro: sorted_wrt_drop)
  have pos: "0 < sat_add k n" if "n \<noteq> 0" for k n using that by (simp add: sat_add_def u64_max_def)
  show ?thesis
  proof (cases "query_limit q")
    case None
    then show ?thesis by (simp add: collect_bounded_candidates_def bound_results_def)
  next
    case (Some l)
    then show ?thesis
      using take last pos comparator.bounded_first [OF ordered_comparator assms]
        comparator.bounded_last [OF ordered_comparator assms]
      by (cases l) (simp_all add: collect_bounded_candidates_def bound_results_def Let_def)
  qed
qed

lemma last_n_0 [simp]: "last_n 0 xs = []"
  by (simp add: last_n_def)

lemma limit_bound_results:
  assumes "length xs \<le> u64_max"
  shows "limit_results (query_limit q) (drop (query_offset q) (bound_results q xs))
    = limit_results (query_limit q) (drop (query_offset q) xs)"
  using limit_after_first [OF assms] limit_after_last [OF assms]
  by (auto simp: limit_results_def bound_results_def split: option.splits Limit.splits)

lemma limit_results_map: "limit_results l (map f xs) = map f (limit_results l xs)"
  by (auto simp: limit_results_def last_n_def take_map drop_map split: option.splits Limit.splits)

lemma bound_results_map: "bound_results q (map f xs) = map f (bound_results q xs)"
  by (auto simp: bound_results_def last_n_def take_map drop_map split: option.splits Limit.splits)

lemma read_matches_ordered:
  assumes "snapshot_wf s" "canonical_database db" "names_canonical q" "normalized_orders q = Inr ords"
  shows "\<forall>c\<in>set (map (ordered_candidate ords) (read_matches s db q ed ords)). order_keys_ok ords (candidate_order c)"
    and "no_ties (compare_candidates ed ords) (map (ordered_candidate ords) (read_matches s db q ed ords))"
proof -
  have same: "set (read_matches s db q ed ords) = set (query_matches s db q ed ords)"
    using read_matches_sorted [OF assms(1-3)] by simp
  show "\<forall>c\<in>set (map (ordered_candidate ords) (read_matches s db q ed ords)). order_keys_ok ords (candidate_order c)"
    using query_matches_facts(2) [OF assms(1)] same by (auto simp: ordered_candidate_def)
  have "distinct (read_matches s db q ed ords)"
    using read_matches_sorted [OF assms(1-3)] query_matches_facts(1) [OF assms(1)] by simp
  then have "no_ties (candidate_compare ed ords) (read_matches s db q ed ords)"
  proof (rule comparator.no_ties_distinct [OF candidates_comparator])
    fix a b assume "a \<in> set (read_matches s db q ed ords)" "b \<in> set (read_matches s db q ed ords)"
      "candidate_compare ed ords a b = Equal"
    then show "a = b"
      unfolding same using candidates_no_tie [OF assms(1,4)] query_matches_facts(2) [OF assms(1)] by blast
  qed
  then show "no_ties (compare_candidates ed ords) (map (ordered_candidate ords) (read_matches s db q ed ords))"
    by (simp add: no_ties_def sorted_wrt_map compare_candidates_ordered)
qed

lemma length_query_matches: "length (query_matches s db q ed ords) \<le> length (snapshot_documents s)"
  using length_filter_le order_trans unfolding query_matches_def scope_documents_def by blast

lemma execute_buffered_reference:
  assumes "snapshot_wf s" "canonical_database db" "names_canonical q" "normalized_orders q = Inr ords"
    "query_nearest q = None" "length (snapshot_documents s) \<le> u64_max"
  shows "execute_buffered hypot s db q ed ords = Inr (map (query_document q) (query_reference s db q ed ords))"
proof -
  let ?sorted = "sort_by (candidate_compare ed ords) (query_matches s db q ed ords)"
  have len: "length ?sorted \<le> u64_max"
    using length_query_matches [of s db q ed ords] assms(6) by simp
  have "sort_by (compare_candidates ed ords) (collect_bounded_candidates
      (map (ordered_candidate ords) (filter (candidate_matches q ords ed) (scoped_documents s db q))) q ords ed)
    = map (ordered_candidate ords) (bound_results q ?sorted)"
    using collect_bounded [OF read_matches_ordered [OF assms(1-4)], of ed q]
    by (simp add: sort_ordered_candidates sort_read_matches [OF assms(1-4)] bound_results_map
        read_matches_def [symmetric])
  moreover have "(case query_limit q of None \<Rightarrow> ys | Some (First n) \<Rightarrow> take n ys
      | Some (Last n) \<Rightarrow> drop (length ys - n) ys) = limit_results (query_limit q) ys" for ys :: "OrderedCandidate list"
    by (simp add: limit_results_def last_n_def split: option.split Limit.split)
  ultimately show ?thesis
    using assms(5) limit_bound_results [OF len, of q]
    by (simp add: execute_buffered_def Let_def drop_map limit_results_map query_reference_def
        ordered_candidate_def case_prod_beta)
qed

section \<open>All executions\<close>

definition query_plan :: "Query \<Rightarrow> QueryError + Order list" where
  "query_plan q =
     result_bind (normalized_orders q) (\<lambda>ords.
     result_bind (validate_cursor (query_start q) ords) (\<lambda>_.
     result_bind (validate_cursor (query_end q) ords) (\<lambda>_. Inr ords)))"

lemma streaming_reference:
  assumes "snapshot_wf s" "canonical_database db" "names_canonical q" "normalized_orders q = Inr [name_order]"
    "\<And>n. query_limit q \<noteq> Some (Last n)"
  shows "stream_all (candidate_matches q [name_order] ed)
      \<lparr>stream_candidates = scoped_documents s db q, remaining_limit = map_option limit_count (query_limit q),
       remaining_offset = query_offset q\<rparr>
    = query_reference s db q ed [name_order]"
proof -
  have "stream_limit (map_option limit_count (query_limit q)) xs = limit_results (query_limit q) xs"
    for xs :: "(DocumentKey \<times> Document) list"
    using assms(5) by (auto simp: stream_limit_def limit_results_def split: option.splits Limit.splits)
  then show ?thesis
    using read_matches_name_order [OF assms(1-4), of ed] sort_read_matches [OF assms(1-4), of ed]
    by (simp add: stream_all_eq query_reference_def read_matches_def)
qed

lemma ordered_disk_reference:
  assumes "snapshot_wf s" "canonical_database db" "names_canonical q" "normalized_orders q = Inr ords"
    "query_limit q = None"
  shows "map (ordered_disk_next s q) (ordered_disk_iterator s db q ed ords)
    = map (query_document q) (query_reference s db q ed ords)"
proof -
  let ?sorted = "sort_by (candidate_compare ed ords) (query_matches s db q ed ords)"
  have "ordered_disk_iterator s db q ed ords = map fst (drop (query_offset q) ?sorted)"
    using sort_read_matches [OF assms(1-4), of ed]
    by (simp add: ordered_disk_iterator_def sort_by_map drop_map candidate_compare_def [abs_def]
        read_matches_def o_def)
  moreover have "ordered_disk_next s q (fst e) = query_document q e" if "e \<in> set (drop (query_offset q) ?sorted)" for e
    using query_matches_facts(2) [OF assms(1), of e] in_set_dropD [OF that]
    by (simp add: ordered_disk_next_def)
  ultimately show ?thesis using assms(5) by (simp add: query_reference_def limit_results_def)
qed

lemma execute_reference:
  assumes "snapshot_wf s" "canonical_database db" "names_canonical q" "query_nearest q = None"
    "length (snapshot_documents s) \<le> u64_max"
  shows "execute hypot disk_backed s db q ed =
    result_bind (query_plan q) (\<lambda>ords. Inr (map (query_document q) (query_reference s db q ed ords)))"
proof (cases "query_plan q")
  case (Inl e)
  then show ?thesis
    by (cases "normalized_orders q"; cases "validate_cursor (query_start q) (projr (normalized_orders q))";
        cases "validate_cursor (query_end q) (projr (normalized_orders q))")
      (simp_all add: query_plan_def execute_def execute_iter_def)
next
  case (Inr ords)
  then have plan: "normalized_orders q = Inr ords" "validate_cursor (query_start q) ords = Inr ()"
    "validate_cursor (query_end q) ords = Inr ()"
    by (auto simp: query_plan_def)
  note reference = streaming_reference [OF assms(1-3), of ed] ordered_disk_reference [OF assms(1-3) plan(1), of ed]
    execute_buffered_reference [OF assms(1-3) plan(1) assms(4,5), of hypot ed]
  show ?thesis
    using Inr plan assms(4) reference
    by (auto simp: execute_def execute_iter_def split: option.splits Limit.splits)
qed

lemma query_count_length:
  "query_count hypot disk_backed s db q ed =
    result_bind (execute hypot disk_backed s db q ed) (\<lambda>results. Inr (min (length results) u64_max))"
proof (cases "execute_iter hypot disk_backed s db q ed")
  case (Inr iterator)
  then show ?thesis
    by (cases iterator) (simp_all add: query_count_def execute_def stream_count_eq)
qed (simp add: query_count_def execute_def)

section \<open>Nearest neighbours\<close>

definition nearest_entry :: "(f64 \<Rightarrow> f64 \<Rightarrow> f64) \<Rightarrow> Nearest \<Rightarrow> DocumentKey \<times> Document \<Rightarrow> NearestCandidate option" where
  "nearest_entry hypot nearest e =
     (case vector_distance hypot (snd e) nearest of
        None \<Rightarrow> None
      | Some distance \<Rightarrow> if threshold_matches distance nearest then Some (fst e, snd e, distance) else None)"

definition nearest_reference :: "(f64 \<Rightarrow> f64 \<Rightarrow> f64) \<Rightarrow> Snapshot \<Rightarrow> DatabaseName \<Rightarrow> Query \<Rightarrow>
    Nearest \<Rightarrow> DatabaseEdition \<Rightarrow> NearestCandidate list" where
  "nearest_reference hypot s db q nearest ed =
     sort_by (compare_nearest_candidates nearest)
       (List.map_filter (nearest_entry hypot nearest) (filter (filter_passes q ed) (scope_documents s db q)))"

interpretation totals: comparator f64_total_cmp "\<lambda>_. True"
  using cmp.on_key [of f64_total_key] by (simp add: f64_total_cmp_def [abs_def])

lemma nearest_comparator: "comparator (compare_nearest_candidates nearest) (\<lambda>_. True)"
proof -
  have distance: "comparator (\<lambda>a b :: NearestCandidate. f64_total_cmp (snd (snd a)) (snd (snd b))) (\<lambda>_. True)"
    using totals.on_key [of "\<lambda>a. snd (snd a)"] by simp
  define f where "f a b = (if distance_measure nearest = DotProduct
      then reverse_ordering (f64_total_cmp (snd (snd a)) (snd (snd b)))
      else f64_total_cmp (snd (snd a)) (snd (snd b)))" for a b :: NearestCandidate
  have f: "comparator f (\<lambda>_. True)"
    using distance comparator_reverse [OF distance]
    by (cases "distance_measure nearest = DotProduct") (simp_all add: f_def [abs_def])
  have "comparator (\<lambda>a b. then_with (f a b) (compare_key_paths (fst a) (fst b))) (\<lambda>_. True)"
    by (rule comparator_then [OF f]) (use key_paths.swap key_paths.trans_le in blast)+
  then show ?thesis
    by (simp add: compare_nearest_candidates_def [abs_def] f_def Let_def compare_key_paths_def)
qed

lemma mset_map_filter:
  "mset xs = mset ys \<Longrightarrow> mset (List.map_filter f xs) = mset (List.map_filter f ys)"
  unfolding List.map_filter_def by (simp add: mset_filter)

lemma nearest_entry_Some:
  "nearest_entry hypot nearest e = Some c \<Longrightarrow> c = (fst e, snd e, the (vector_distance hypot (snd e) nearest))"
  by (auto simp: nearest_entry_def split: option.splits if_splits)

lemma distinct_map_filter:
  "distinct xs \<Longrightarrow> (\<And>x y z. f x = Some z \<Longrightarrow> f y = Some z \<Longrightarrow> x = y) \<Longrightarrow> distinct (List.map_filter f xs)"
  by (induction xs) (auto simp: List.map_filter_simps set_map_filter split: option.splits)

lemma nearest_selection:
  assumes "snapshot_wf s" "canonical_database db" "names_canonical q"
  shows "fold (select_first (compare_nearest_candidates nearest) bound) (nearest_candidates hypot s db q nearest ed) []
    = take bound (nearest_reference hypot s db q nearest ed)"
proof -
  let ?scope = "filter (filter_passes q ed) (scope_documents s db q)"
  let ?found = "List.map_filter (nearest_entry hypot nearest) (filter (filter_passes q ed) (scoped_documents s db q))"
  have found: "nearest_candidates hypot s db q nearest ed = ?found"
    by (simp add: nearest_candidates_def nearest_entry_def [abs_def] filter_passes_def [abs_def] case_prod_unfold)
  have scoped: "mset (filter (filter_passes q ed) (scoped_documents s db q)) = mset ?scope"
    using scoped_matches [OF assms, of "filter_passes q ed" ed] by simp
  have entry: "\<exists>e\<in>set (scope_documents s db q). c = (fst e, snd e, the (vector_distance hypot (snd e) nearest))"
    if found: "c \<in> set ?found" for c
  proof -
    obtain e where "e \<in> set (filter (filter_passes q ed) (scoped_documents s db q))"
      "nearest_entry hypot nearest e = Some c"
      using found unfolding set_map_filter by blast
    then have "e \<in> set (scope_documents s db q)" "c = (fst e, snd e, the (vector_distance hypot (snd e) nearest))"
      using mset_eq_setD [OF scoped] nearest_entry_Some by auto
    then show ?thesis by blast
  qed
  have tie: "a = b" if ab: "a \<in> set ?found" "b \<in> set ?found" "compare_nearest_candidates nearest a b = Equal" for a b
  proof -
    obtain d e where de: "d \<in> set (scope_documents s db q)" "e \<in> set (scope_documents s db q)"
      "a = (fst d, snd d, the (vector_distance hypot (snd d) nearest))"
      "b = (fst e, snd e, the (vector_distance hypot (snd e) nearest))"
      using entry [OF ab(1)] entry [OF ab(2)] by blast
    then have "compare_entries d e = Equal"
      using ab(3) by (simp add: compare_nearest_candidates_def Let_def compare_entries_def compare_key_paths_def)
    then show ?thesis using entries_no_tie [OF assms(1) de(1,2)] de(3,4) by simp
  qed
  have dist: "distinct ?found"
  proof (rule distinct_map_filter)
    show "distinct (filter (filter_passes q ed) (scoped_documents s db q))"
      using mset_eq_imp_distinct_iff [OF scoped] distinct_scope_documents [OF assms(1), of db q] by simp
    fix x y z assume "nearest_entry hypot nearest x = Some z" "nearest_entry hypot nearest y = Some z"
    then show "x = y" using nearest_entry_Some by (metis fst_conv prod_eq_iff snd_conv)
  qed
  have "no_ties (compare_nearest_candidates nearest) ?found"
    using dist tie by (rule comparator.no_ties_distinct [OF nearest_comparator])
  then show ?thesis
    unfolding found nearest_reference_def
    using comparator.bounded_first [OF nearest_comparator, of ?found nearest bound]
      comparator.sort_by_mset [OF nearest_comparator mset_map_filter [OF scoped] dist _ tie] by simp
qed

end
