(* ===== verification/Query_Paging.thy ===== *)
theory Query_Paging
  imports Query_Exec
begin

text \<open>
  Cursors and pages: the cursor built from a result compares every candidate as the results
  themselves are ordered, so a query that starts after a result returns what follows it.
\<close>

text \<open>The cursor values of a document under normalized orders.\<close>

definition cursor_of :: "Order list \<Rightarrow> DocumentKey \<times> Document \<Rightarrow> Value list" where
  "cursor_of ords e =
     map (\<lambda>v. case v of None \<Rightarrow> Reference (DocumentKey_display (fst e)) | Some x \<Rightarrow> x)
       (order_values (fst e) (snd e) ords)"

lemma cursor_values_compare:
  assumes "\<forall>x\<in>set ords. field_value k d (order_path x) \<noteq> None"
    "\<forall>x\<in>set ords. field_value (fst e) (snd e) (order_path x) \<noteq> None"
  shows "compare_cursor_values ed k d ords (cursor_of ords e) = candidate_compare ed ords (k, d) e"
  using assms
proof (induction ords)
  case Nil
  then show ?case by (simp add: candidate_compare_def)
next
  case (Cons x ords)
  have "FieldValue_compare (the (field_value k d (order_path x)))
      (case as_value (the (field_value (fst e) (snd e) (order_path x))) of
         None \<Rightarrow> Reference (DocumentKey_display (fst e)) | Some x \<Rightarrow> x) ed
    = compare_field_values ed
        (order_value_field k (as_value (the (field_value k d (order_path x)))))
        (order_value_field (fst e) (as_value (the (field_value (fst e) (snd e) (order_path x)))))"
    using Cons.prems by (cases "order_path x") (auto simp: order_value_field_def)
  then show ?case
    using Cons by (simp add: candidate_compare_def cursor_of_def order_values_def)
qed

lemma matched_fields_present:
  "candidate_matches q ords ed e \<Longrightarrow> \<forall>x\<in>set ords. field_value (fst e) (snd e) (order_path x) \<noteq> None"
  by (cases e) (simp add: candidate_matches_def list_all_iff)

lemma start_after_matches:
  assumes "query_start q = None" "candidate_matches q ords ed e"
  shows "candidate_matches (start_after q (cursor_of ords e)) ords ed c =
    (candidate_matches q ords ed c \<and> candidate_compare ed ords c e = Greater)"
proof (cases "\<forall>x\<in>set ords. field_value (fst c) (snd c) (order_path x) \<noteq> None")
  case True
  have "compare_cursor_values ed (fst c) (snd c) ords (cursor_of ords e) = candidate_compare ed ords c e"
    using cursor_values_compare [OF True matched_fields_present [OF assms(2)]] by simp
  then show ?thesis
    using assms(1)
    by (cases c) (auto simp: candidate_matches_def start_after_def compare_document_cursor_def Let_def
        split: option.splits)
next
  case False
  then have "\<not> candidate_matches q ords ed c" "\<not> candidate_matches (start_after q (cursor_of ords e)) ords ed c"
    using matched_fields_present by blast+
  then show ?thesis by simp
qed

lemma start_after_selectors [simp]:
  "query_scope (start_after q vs) = query_scope q" "query_ancestor (start_after q vs) = query_ancestor q"
  "query_filter (start_after q vs) = query_filter q" "query_orders (start_after q vs) = query_orders q"
  "query_offset (start_after q vs) = query_offset q" "query_limit (start_after q vs) = query_limit q"
  by (simp_all add: start_after_def)

lemma start_after_orders [simp]:
  "normalized_orders (start_after q vs) = normalized_orders q"
  "scope_documents s db (start_after q vs) = scope_documents s db q"
  unfolding normalized_orders_def completed_orders_def scope_documents_def key_in_scope_def
    start_after_selectors by (rule HOL.refl)+

context comparator
begin

text \<open>In an ordered list without ties, what exceeds an element is what follows it.\<close>

lemma filter_after_nth:
  assumes "sorted_by compare xs" "\<forall>x\<in>set xs. dom_ok x" "no_ties compare xs" "i < length xs"
  shows "filter (\<lambda>x. compare x (xs ! i) = Greater) xs = drop (Suc i) xs"
  using assms
proof (induction xs arbitrary: i)
  case (Cons x xs)
  show ?case
  proof (cases i)
    case 0
    have "compare y x = Greater" if "y \<in> set xs" for y
      using Cons.prems that swap [of x y] by (cases "compare x y") (auto simp: no_ties_def)
    then have "filter (\<lambda>y. compare y x = Greater) xs = xs" by simp
    then show ?thesis using 0 refl [of x] Cons.prems(2) by simp
  next
    case (Suc j)
    then have "compare x (xs ! j) \<noteq> Greater" using Cons.prems by simp
    then show ?thesis using Suc Cons by (simp add: no_ties_def)
  qed
qed simp

end

lemma filter_sort_by_on:
  assumes "comparator compare P" "\<forall>x\<in>set xs. P x"
  shows "filter Q (sort_by compare xs) = sort_by compare (filter Q xs)"
proof (rule comparator.sorted_stable_unique [OF assms(1)])
  show "sorted_by compare (filter Q (sort_by compare xs))"
    using comparator.sorted_sort_by [OF assms] unfolding sorted_by_def by (rule sorted_wrt_filter)
  show "sorted_by compare (sort_by compare (filter Q xs))"
    using comparator.sorted_sort_by [OF assms(1), of "filter Q xs"] assms(2) by simp
  fix a assume a: "P a"
  have "filter Q (filter (\<lambda>y. compare a y = Equal) (sort_by compare xs)) = filter Q (filter (\<lambda>y. compare a y = Equal) xs)"
    using comparator.stable_sort_by [OF assms(1) a assms(2)] by simp
  then show "filter (\<lambda>y. compare a y = Equal) (filter Q (sort_by compare xs))
      = filter (\<lambda>y. compare a y = Equal) (sort_by compare (filter Q xs))"
    using comparator.stable_sort_by [OF assms(1) a, of "filter Q xs"] assms(2) by (simp add: conj_commute)
qed (use assms(2) in simp_all)

lemma paging_reference:
  fixes db :: DatabaseName and ed :: DatabaseEdition
  assumes "snapshot_wf s" "normalized_orders q = Inr ords" "query_start q = None" "query_offset q = 0"
  defines "results \<equiv> sort_by (candidate_compare ed ords) (query_matches s db q ed ords)"
  assumes "i < length results"
  shows "query_reference s db (start_after q (cursor_of ords (results ! i))) ed ords
    = limit_results (query_limit q) (drop (Suc i) results)"
proof -
  have i: "results ! i \<in> set (query_matches s db q ed ords)"
    using nth_mem [OF assms(6)] by (simp add: results_def)
  let ?next = "start_after q (cursor_of ords (results ! i))"
  have ok: "\<forall>e\<in>set (query_matches s db q ed ords). order_keys_ok ords (fst e, order_values (fst e) (snd e) ords)"
    using query_matches_facts(2) [OF assms(1)] by blast
  have "query_matches s db ?next ed ords
      = filter (\<lambda>c. candidate_compare ed ords c (results ! i) = Greater) (query_matches s db q ed ords)"
    using start_after_matches [OF assms(3), of ords ed "results ! i"] query_matches_facts(2) [OF assms(1) i]
    by (simp add: query_matches_def conj_commute cong: filter_cong)
  then have "sort_by (candidate_compare ed ords) (query_matches s db ?next ed ords)
      = filter (\<lambda>c. candidate_compare ed ords c (results ! i) = Greater) results"
    using filter_sort_by_on [OF candidates_comparator ok] by (simp add: results_def)
  also have "\<dots> = drop (Suc i) results"
  proof (rule comparator.filter_after_nth [OF candidates_comparator])
    show "sorted_by (candidate_compare ed ords) results"
      unfolding results_def using comparator.sorted_sort_by [OF candidates_comparator ok] .
    show "no_ties (candidate_compare ed ords) results"
    proof (rule comparator.no_ties_distinct [OF candidates_comparator])
      show "distinct results" using query_matches_facts(1) [OF assms(1)] by (simp add: results_def)
      fix a b assume "a \<in> set results" "b \<in> set results" "candidate_compare ed ords a b = Equal"
      then show "a = b"
        using candidates_no_tie [OF assms(1,2)] query_matches_facts(2) [OF assms(1)]
        unfolding results_def set_sort_by by blast
    qed
  qed (use ok assms(6) in \<open>simp_all add: results_def\<close>)
  finally show ?thesis using assms(4) by (simp add: query_reference_def)
qed

end
