(* ===== verification/Query_Fields.thy ===== *)
theory Query_Fields
  imports Query
begin

text \<open>
  Facts on the pieces of a query: the wire syntax of field paths is parsed back, projections
  read the selected fields unchanged, partition points split the results evenly.
\<close>

section \<open>Wire syntax\<close>

definition escape_char :: "char \<Rightarrow> string" where
  "escape_char c = (if c = backslash then [backslash, backslash]
     else if c = backtick then [backslash, backtick] else [c])"

lemma special_chars [simp]:
  "backtick \<noteq> backslash" "backslash \<noteq> backtick" "backtick \<noteq> CHR ''.''" "CHR ''.'' \<noteq> backtick"
  by (simp_all add: backtick_def backslash_def)

lemma simple_chars [simp]:
  "\<not> is_ascii_alphabetic (CHR ''.'')" "\<not> is_ascii_alphabetic backtick" "\<not> is_ascii_alphanumeric (CHR ''.'')"
  by (code_simp | simp add: is_ascii_alphanumeric_def is_ascii_alphabetic_def is_ascii_digit_def backtick_def)+

lemma replace_escape:
  "replace_char backtick [backslash, backtick] (replace_char backslash [backslash, backslash] s)
    = concat (map escape_char s)"
  by (induction s) (auto simp: replace_char_def escape_char_def)

lemma quoted_segment_escape:
  "quoted_segment segment (concat (map escape_char s) @ backtick # rest) = Inr (segment @ s, rest)"
  by (induction s arbitrary: segment) (auto simp: escape_char_def)

lemma simple_segment_free: "is_simple_field_segment s \<Longrightarrow> CHR ''.'' \<notin> set s \<and> s \<noteq> [] \<and> hd s \<noteq> backtick"
proof (cases s)
  case (Cons c cs)
  assume simple: "is_simple_field_segment s"
  have "CHR ''.'' \<notin> set cs"
  proof
    assume "CHR ''.'' \<in> set cs"
    then have "CHR ''.'' = CHR ''_'' \<or> is_ascii_alphanumeric (CHR ''.'')"
      using simple unfolding Cons list_all_iff is_simple_field_segment.simps by blast
    then show False by simp
  qed
  moreover have "c \<noteq> CHR ''.''" "c \<noteq> backtick"
    using simple Cons by (auto simp: backtick_def [symmetric]) (simp add: backtick_def)
  ultimately show ?thesis using Cons by simp
qed simp

lemma next_segment_config:
  assumes "rest = [] \<or> hd rest = CHR ''.''"
  shows "next_segment (config_segment s @ rest) = Inr (s, rest)"
proof (cases "is_simple_field_segment s")
  case True
  note free = simple_segment_free [OF True]
  have "takeWhile (\<lambda>c. c \<noteq> CHR ''.'') (s @ rest) = s" "dropWhile (\<lambda>c. c \<noteq> CHR ''.'') (s @ rest) = rest"
    using free assms by (auto simp: takeWhile_append dropWhile_append takeWhile_eq_Nil_iff dropWhile_eq_self_iff)
  then show ?thesis
    using True free by (cases s) (auto simp: next_segment_def bare_segment_def config_segment_def)
next
  case False
  then show ?thesis
    by (simp add: next_segment_def config_segment_def replace_escape quoted_segment_escape)
qed

lemma wire_segments_config:
  assumes "names \<noteq> []" "\<forall>s\<in>set names. s \<noteq> []"
  shows "wire_segments before (join_char (CHR ''.'') (map config_segment names)) = Inr (before @ names)"
  using assms
proof (induction names arbitrary: before)
  case (Cons s names)
  have nonempty: "config_segment s \<noteq> []" for s using Cons.prems by (auto simp: config_segment_def simple_segment_free)
  show ?case
  proof (cases names)
    case Nil
    then show ?thesis
      using Cons.prems next_segment_config [of "[]" s] nonempty [of s]
      by (simp add: wire_segments.simps [of before])
  next
    case (Cons s' names')
    let ?rest = "join_char (CHR ''.'') (map config_segment names)"
    have "?rest \<noteq> []" using Cons nonempty [of s'] by (cases names') auto
    then show ?thesis
      using Cons Cons.prems Cons.IH [of "before @ [s]"] next_segment_config [of "CHR ''.'' # ?rest" s] nonempty [of s]
      by (simp add: wire_segments.simps [of before])
  qed
qed simp

section \<open>Projection\<close>

lemma nested_value_deeper:
  "(nested_value m (first # n # ns) = Some v) =
    (\<exists>c. map_of m first = Some (MapValue c) \<and> nested_value c (n # ns) = Some v)"
proof -
  have "(descend x (n # ns) = Some v) = (\<exists>c. x = MapValue c \<and> nested_value c (n # ns) = Some v)" for x
    by (cases x) auto
  then show ?thesis by (auto split: option.splits simp del: descend.simps)
qed

lemma nested_value_map [simp]:
  "map_of m first = Some (MapValue c) \<Longrightarrow> nested_value m (first # n # ns) = nested_value c (n # ns)"
  by simp

lemma insert_projected_same:
  "fields_ok m \<Longrightarrow> nested_value m names = Some v \<Longrightarrow> insert_projected m names v = m"
proof (induction names arbitrary: m)
  case (Cons first rest)
  show ?case
  proof (cases rest)
    case Nil
    then show ?thesis using Cons.prems by (auto simp: fields_ok_def om_insert_same split: option.splits)
  next
    case (Cons n ns)
    then obtain c where c: "map_of m first = Some (MapValue c)" "nested_value c rest = Some v"
      using Cons.prems(2) nested_value_deeper by blast
    then show ?thesis
      using Cons.IH [OF fields_ok_child [OF Cons.prems(1) c(1)]] Cons.prems(1) Cons
      by (simp add: fields_ok_def om_insert_same del: nested_value.simps)
  qed
qed simp

text \<open>No value in the way of a path: what is stored at its proper prefixes are maps.\<close>

fun unblocked :: "Fields \<Rightarrow> string list \<Rightarrow> bool" where
  "unblocked a (first # n # ns) =
     (case map_of a first of None \<Rightarrow> True | Some (MapValue c) \<Rightarrow> unblocked c (n # ns) | Some _ \<Rightarrow> False)"
| "unblocked a _ = True"

lemma unblocked_Nil [simp]: "unblocked [] p"
  by (cases p; cases "tl p") auto

lemma unblocked_present: "nested_value m p = Some v \<Longrightarrow> unblocked m p"
proof (induction m p rule: unblocked.induct)
  case (1 a first n ns)
  then obtain c where "map_of a first = Some (MapValue c)" "nested_value c (n # ns) = Some v"
    using nested_value_deeper by blast
  then show ?case using 1(1) [of "MapValue c" c] by simp
qed simp_all

lemma insert_projected_deeper:
  "map_of a first = Some (MapValue c) \<Longrightarrow>
    insert_projected a (first # n # ns) v = om_insert first (MapValue (insert_projected c (n # ns) v)) a"
  "map_of a first = None \<Longrightarrow>
    insert_projected a (first # n # ns) v = om_insert first (MapValue (insert_projected [] (n # ns) v)) a"
  by simp_all

lemma insert_projected_other:
  "g \<noteq> first \<Longrightarrow> map_of (insert_projected a (first # rest) v) g = map_of a g"
  by (auto simp: om_simps split: option.splits Value.splits)

lemma nested_value_other:
  "map_of a g = map_of b g \<Longrightarrow> nested_value a (g # ps) = nested_value b (g # ps)"
  by simp

lemma unblocked_other: "map_of a g = map_of b g \<Longrightarrow> unblocked a (g # ps) = unblocked b (g # ps)"
  by (cases ps) auto

text \<open>The paths of an insertion and of a read part at the first segment or share it.\<close>

lemma insert_projected_read_selected:
  assumes "fields_ok m" "nested_value m names = Some v" "nested_value m p = Some w" "nested_value a p = Some w"
  shows "nested_value (insert_projected a names v) p = Some w"
  using assms
proof (induction names arbitrary: a m p)
  case (Cons first rest)
  obtain g ps where p: "p = g # ps" using Cons.prems(3) by (cases p) auto
  show ?case
  proof (cases "g = first")
    case False
    then show ?thesis
      using nested_value_other [OF insert_projected_other [OF False]] Cons.prems(4) p by metis
  next
    case True
    show ?thesis
    proof (cases rest)
      case Nil
      then show ?thesis using Cons.prems(2,3) p True by (auto simp: om_simps split: option.splits)
    next
      case (Cons n ns)
      then obtain cm where cm: "map_of m first = Some (MapValue cm)" "nested_value cm rest = Some v"
        using Cons.prems(2) nested_value_deeper by blast
      note ok = fields_ok_child [OF Cons.prems(1) cm(1)]
      show ?thesis
      proof (cases ps)
        case Nil
        then have "map_of a first = Some (MapValue cm)" "w = MapValue cm"
          using Cons.prems(3,4) p True cm(1) by (auto split: option.splits)
        then show ?thesis
          using insert_projected_same [OF ok cm(2)] Cons.prems p True Nil Cons
          by (simp add: om_simps del: nested_value.simps insert_projected.simps
              add: insert_projected_deeper) (simp add: om_simps)
      next
        case (Cons q qs)
        then obtain ca where ca: "map_of a first = Some (MapValue ca)" "nested_value ca ps = Some w"
          using Cons.prems(4) p True nested_value_deeper by blast
        have "nested_value cm ps = Some w" using Cons.prems(3) p True Cons cm(1) by simp
        then have "nested_value (insert_projected ca rest v) ps = Some w"
          using Cons.IH [OF ok cm(2)] ca(2) by blast
        then show ?thesis
          using p True Cons \<open>rest = n # ns\<close> insert_projected_deeper(1) [OF ca(1)] by (simp add: om_simps)
      qed
    qed
  qed
qed simp

lemma insert_projected_read_back:
  "names \<noteq> [] \<Longrightarrow> unblocked a names \<Longrightarrow> nested_value (insert_projected a names v) names = Some v"
proof (induction a names rule: unblocked.induct)
  case (1 a first n ns)
  show ?case
  proof (cases "map_of a first")
    case None
    moreover have "nested_value (insert_projected [] (n # ns) v) (n # ns) = Some v" for n ns
      by (induction ns arbitrary: n) (auto simp: om_simps)
    ultimately show ?thesis using insert_projected_deeper(2) [OF None, of n ns v] by (simp add: om_simps)
  next
    case (Some x)
    then obtain c where c: "x = MapValue c" "unblocked c (n # ns)"
      using 1(3) by (cases x) auto
    then show ?thesis
      using 1(1) [OF Some c(1)] insert_projected_deeper(1) [of a first c n ns v] Some by (simp add: om_simps)
  qed
qed (simp_all add: om_simps)

lemma insert_projected_unblocked:
  assumes "nested_value m names = Some v" "nested_value m p = Some w" "unblocked a p"
  shows "unblocked (insert_projected a names v) p"
  using assms
proof (induction names arbitrary: a m p)
  case (Cons first rest)
  obtain g ps where p: "p = g # ps" using Cons.prems(2) by (cases p) auto
  show ?case
  proof (cases "g = first \<and> ps \<noteq> []")
    case False
    then consider "ps = []" | "g \<noteq> first" by blast
    then show ?thesis
    proof cases
      case 2
      then show ?thesis
        using unblocked_other [OF insert_projected_other [OF 2], of a rest v] p Cons.prems(3) by metis
    qed (simp add: p)
  next
    case True
    then obtain q qs where ps: "ps = q # qs" by (cases ps) auto
    obtain cm where cm: "map_of m first = Some (MapValue cm)" "nested_value cm ps = Some w"
      using Cons.prems(2) p ps True nested_value_deeper by blast
    show ?thesis
    proof (cases rest)
      case Nil
      then have "v = MapValue cm" using Cons.prems(1) cm(1) by simp
      then show ?thesis using Nil unblocked_present [OF cm(2)] p ps True by (simp add: om_simps)
    next
      case (Cons n ns)
      then have v: "nested_value cm rest = Some v" using Cons.prems(1) cm(1) by simp
      have "unblocked (insert_projected [] rest v) ps" using Cons.IH [OF v cm(2)] by simp
      moreover have "unblocked (insert_projected c rest v) ps" if "map_of a first = Some (MapValue c)" for c
        using Cons.IH [OF v cm(2), of c] that Cons.prems(3) p ps True by simp
      moreover have "map_of a first = None \<or> (\<exists>c. map_of a first = Some (MapValue c))"
        using Cons.prems(3) p ps True by (auto split: option.splits Value.splits)
      ultimately show ?thesis using p ps True Cons by (auto simp: om_simps)
    qed
  qed
qed simp

lemma insert_projected_absent:
  assumes "nested_value m names = Some v" "nested_value m p = None" "nested_value a p = None"
  shows "nested_value (insert_projected a names v) p = None"
  using assms
proof (induction names arbitrary: a m p)
  case (Cons first rest)
  show ?case
  proof (cases p)
    case (Cons g ps)
    show ?thesis
    proof (cases "g = first")
      case False
      then show ?thesis
        using nested_value_other [OF insert_projected_other [OF False]] Cons.prems(3) Cons by metis
    next
      case True
      show ?thesis
      proof (cases rest)
        case Nil
        then show ?thesis using Cons.prems(1,2) Cons True by (auto simp: om_simps split: option.splits)
      next
        case (Cons n ns)
        then obtain cm where cm: "map_of m first = Some (MapValue cm)" "nested_value cm rest = Some v"
          using Cons.prems(1) nested_value_deeper by blast
        obtain q qs where ps: "ps = q # qs" using Cons.prems(2) \<open>p = g # ps\<close> True cm(1) by (cases ps) auto
        have none: "nested_value cm ps = None" using Cons.prems(2) \<open>p = g # ps\<close> True cm(1) ps by simp
        have empty: "nested_value (insert_projected [] rest v) ps = None"
          using Cons.IH [OF cm(2) none, of "[]"] ps by simp
        have child: "nested_value (insert_projected c rest v) ps = None" if "map_of a first = Some (MapValue c)" for c
          using Cons.IH [OF cm(2) none, of c] that Cons.prems(3) \<open>p = g # ps\<close> ps True by simp
        have blocked: "insert_projected a (first # rest) v = a"
          if "map_of a first = Some x" "\<nexists>c. x = MapValue c" for x
          using that Cons by (cases x) (auto simp del: ex_simps)
        consider "map_of a first = None" | c where "map_of a first = Some (MapValue c)"
          | x where "map_of a first = Some x" "\<nexists>c. x = MapValue c" by (cases "map_of a first") auto
        then show ?thesis
        proof cases
          case 1
          then show ?thesis
            using insert_projected_deeper(2) [OF 1, of n ns v] empty \<open>p = g # ps\<close> ps True Cons
            by (simp add: om_simps)
        next
          case (2 c)
          then show ?thesis
            using insert_projected_deeper(1) [OF 2, of n ns v] child [OF 2] \<open>p = g # ps\<close> ps True Cons
            by (simp add: om_simps)
        next
          case (3 x)
          then show ?thesis using blocked [OF 3] Cons.prems(3) by simp
        qed
      qed
    qed
  qed simp
qed simp

text \<open>What a projection has read so far, as an invariant of its loop.\<close>

definition project_step :: "Fields \<Rightarrow> QFieldPath \<Rightarrow> Fields \<Rightarrow> Fields" where
  "project_step m path projected =
     (case path of
        DocumentId \<Rightarrow> projected
      | Field names \<Rightarrow>
          (case nested_value m names of
             Some v \<Rightarrow> insert_projected projected names v
           | None \<Rightarrow> projected))"

lemma project_fold: "project m paths = fold (project_step m) paths []"
  by (simp add: project_def project_step_def [abs_def])

definition projecting :: "Fields \<Rightarrow> Fields \<Rightarrow> bool" where
  "projecting m a =
     (\<forall>p. (nested_value m p \<noteq> None \<longrightarrow> unblocked a p) \<and> (nested_value m p = None \<longrightarrow> nested_value a p = None))"

lemma projecting_step:
  assumes "projecting m a"
  shows "projecting m (project_step m path a)"
proof (cases path)
  case (Field names)
  then show ?thesis
    using assms insert_projected_unblocked [of m names] insert_projected_absent [of m names]
    by (cases "nested_value m names") (simp add: project_step_def, fastforce simp: projecting_def project_step_def)
qed (use assms in \<open>simp add: project_step_def\<close>)

lemma projecting_fold: "projecting m a \<Longrightarrow> projecting m (fold (project_step m) paths a)"
  by (induction paths arbitrary: a) (simp_all add: projecting_step)

lemma project_step_keeps:
  assumes "fields_ok m" "nested_value m p = Some w" "nested_value a p = Some w"
  shows "nested_value (project_step m path a) p = Some w"
  using assms insert_projected_read_selected [OF assms(1)]
  by (auto simp: project_step_def split: QFieldPath.splits option.splits)

lemma project_fold_keeps:
  "fields_ok m \<Longrightarrow> nested_value m p = Some w \<Longrightarrow> nested_value a p = Some w \<Longrightarrow>
    nested_value (fold (project_step m) paths a) p = Some w"
  by (induction paths arbitrary: a) (simp_all add: project_step_keeps)

lemma project_selected:
  assumes "fields_ok m" "nested_value m p = Some w" "Field p \<in> set paths" "projecting m a"
  shows "nested_value (fold (project_step m) paths a) p = Some w"
  using assms(3,4)
proof (induction paths arbitrary: a)
  case (Cons path paths)
  show ?case
  proof (cases "path = Field p")
    case True
    have "p \<noteq> []" using assms(2) by auto
    then have "nested_value (project_step m path a) p = Some w"
      using True assms(2) Cons.prems(2) insert_projected_read_back [of p a w]
      by (simp add: project_step_def projecting_def)
    then show ?thesis using project_fold_keeps [OF assms(1,2)] by simp
  next
    case False
    then show ?thesis using Cons projecting_step by simp
  qed
qed simp

lemma projecting_Nil: "projecting m []"
proof -
  have "nested_value [] p = None" for p by (cases p) auto
  then show ?thesis by (simp add: projecting_def)
qed

section \<open>Partition points\<close>

lemma partition_index_ends:
  "0 < segments_count \<Longrightarrow> partition_index n segments_count 0 = 0"
  "0 < segments_count \<Longrightarrow> partition_index n segments_count segments_count = n"
  by (simp_all add: partition_index_def min_def)

lemma partition_index_step:
  "partition_index n segments_count (Suc point) =
    partition_index n segments_count point + n div segments_count
      + (if point < n mod segments_count then 1 else 0)"
  by (auto simp: partition_index_def min_def)

lemma partition_index_less:
  assumes "point < segments_count" "segments_count \<le> n"
  shows "partition_index n segments_count point < partition_index n segments_count (Suc point)"
proof -
  have "0 < n div segments_count" using assms by (simp add: div_greater_zero_iff)
  then show ?thesis by (simp add: partition_index_step)
qed

lemma partition_index_mono:
  assumes "a < b" "b \<le> segments_count" "segments_count \<le> n"
  shows "partition_index n segments_count a < partition_index n segments_count b"
  using assms
proof (induction b)
  case (Suc b)
  then show ?case using partition_index_less [of b segments_count n] by (cases "a = b") auto
qed simp

section \<open>Sums\<close>

fun prefix_sums_fit :: "int \<Rightarrow> int list \<Rightarrow> bool" where
  "prefix_sums_fit acc [] = True"
| "prefix_sums_fit acc (n # ns) = (in_i64 (acc + n) \<and> prefix_sums_fit (acc + n) ns)"

fun integer_part :: "Value option \<Rightarrow> int option" where
  "integer_part (Some (Integer n)) = Some n"
| "integer_part _ = None"

definition integer_values :: "QueryDocument list \<Rightarrow> QFieldPath \<Rightarrow> int list" where
  "integer_values results field = List.map_filter integer_part (map (\<lambda>d. projected_value d field) results)"

lemma integer_part_None: "integer_part v = None \<longleftrightarrow> (\<nexists>n. v = Some (Integer n))"
  by (cases v rule: integer_part.cases) auto

lemma sum_steps_integers:
  "\<not> has_double st \<Longrightarrow> prefix_sums_fit (integer_sum st) ns \<Longrightarrow>
    \<forall>v\<in>set vs. \<forall>d. v \<noteq> Some (Double d) \<Longrightarrow>
    ns = List.map_filter integer_part vs \<Longrightarrow>
    fold sum_step vs st = st\<lparr>integer_sum := integer_sum st + sum_list ns\<rparr>"
proof (induction vs arbitrary: st ns)
  case (Cons v vs)
  show ?case
  proof (cases "\<exists>n. v = Some (Integer n)")
    case True
    then obtain n ns' where "v = Some (Integer n)" "ns = n # ns'"
      "ns' = List.map_filter integer_part vs"
      using Cons.prems(4) by (auto simp: List.map_filter_simps)
    then show ?thesis
      using Cons.prems Cons.IH [of "st\<lparr>integer_sum := integer_sum st + n\<rparr>" ns']
      by (simp add: sum_step_def checked_add_i64_def add.assoc)
  next
    case False
    then have "integer_part v = None" by (simp add: integer_part_None)
    moreover from False have "sum_step v st = st"
      using Cons.prems(3) by (auto simp: sum_step_def split: option.splits Value.splits)
    ultimately show ?thesis using Cons.prems Cons.IH [of st ns] by (simp add: List.map_filter_simps)
  qed
qed (simp add: List.map_filter_simps)

end
