(* ===== verification/Query_Props.thy ===== *)
theory Query_Props
  imports Query_Paging Query_Fields
begin

text \<open>
  What the query engine promises: every execution of a structured query gives one reference
  result, pages compose, counts agree, the value order is a total preorder whose ties are
  equality, paths print and parse, projections and partitions are exact.
\<close>

section \<open>A concrete snapshot\<close>

definition shop_database :: DatabaseName where
  "shop_database = DatabaseName ''p'' ''d''"

definition shop_a :: "DocumentKey \<times> Document" where
  "shop_a = (DocumentKey shop_database ''c/a'',
     Document [(''v'', Vector [0]), (''x'', Integer 1)] (Timestamp 1 0) (Timestamp 1 0))"

definition shop_b :: "DocumentKey \<times> Document" where
  "shop_b = (DocumentKey shop_database ''c/b'',
     Document [(''v'', Vector [0]), (''x'', Integer 2)] (Timestamp 1 0) (Timestamp 1 0))"

definition shop_snapshot :: Snapshot where
  "shop_snapshot =
     \<lparr>snapshot_revision = 1, snapshot_documents = [shop_a, shop_b],
      snapshot_collections = [((shop_database, ''c''), [fst shop_a, fst shop_b])],
      snapshot_collection_groups = [((shop_database, ''c''), [fst shop_a, fst shop_b])],
      snapshot_usage = \<lparr>usage_entries = 2, usage_logical_bytes = 0\<rparr>\<rparr>"

text \<open>The most expensive item: ordered by \<open>x\<close> descending, the first one only.\<close>

definition shop_query :: Query where
  "shop_query = limit_to (order_by (Query_new (Collection ''c'')) (Field [''x'']) Descending) (First 1)"

lemmas shop_defs = shop_a_def shop_b_def shop_database_def

lemma shop_order:
  "fst shop_a < fst shop_b" "fst shop_a \<noteq> fst shop_b" "fst shop_b \<noteq> fst shop_a"
  by (simp_all add: shop_defs less_DocumentKey_def key_tuple_def less_DatabaseName_def)

lemma shop_canonical: "canonical_database shop_database" "canonical_key (fst shop_a)" "canonical_key (fst shop_b)"
proof -
  have "key_ok (DocumentKey shop_database ''c/a'')" "key_ok (DocumentKey shop_database ''c/b'')"
    unfolding key_ok_def
    by (rule exI [of _ shop_database], rule exI [of _ "''c/a''"], simp add: DocumentKey_new_def
        validate_resource_id_def numeric_resource_id_def,
        rule exI [of _ shop_database], rule exI [of _ "''c/b''"], simp add: DocumentKey_new_def
        validate_resource_id_def numeric_resource_id_def)
  then show "canonical_key (fst shop_a)" "canonical_key (fst shop_b)"
    by (simp_all add: canonical_key_def shop_defs canonical_path_def canonical_resource_id_def
        numeric_resource_id_def)
  show "canonical_database shop_database"
    by (simp add: canonical_database_def shop_database_def DatabaseName_new_def validate_identifier_def
        canonical_path_def DatabaseName_display_def canonical_resource_id_def numeric_resource_id_def)
qed

lemma shop_wf: "snapshot_wf shop_snapshot"
proof -
  have "om_ok [shop_a, shop_b]" using shop_order by (simp add: om_ok_Cons)
  moreover have "collection_key (fst shop_a) = (shop_database, ''c'')" "collection_key (fst shop_b) = (shop_database, ''c'')"
    "collection_group_key (fst shop_a) = (shop_database, ''c'')" "collection_group_key (fst shop_b) = (shop_database, ''c'')"
    by (simp_all add: collection_key_def collection_group_key_def shop_defs)
  moreover have "fields_ok (Document.fields (snd shop_a))" "fields_ok (Document.fields (snd shop_b))"
    by (simp_all add: shop_defs fields_ok_def om_ok_Cons in_i64_def i64_min_def i64_max_def)
  ultimately show ?thesis
    using shop_canonical
    by (auto simp: snapshot_wf_def snapshot_ok_def shop_snapshot_def index_ok_def scope_keys_def om_ok_Cons)
qed

definition shop_orders :: "Order list" where
  "shop_orders =
     [\<lparr>order_path = Field [''x''], order_direction = Descending\<rparr>,
      \<lparr>order_path = DocumentId, order_direction = Descending\<rparr>]"

lemma shop_plan:
  "normalized_orders shop_query = Inr shop_orders" "query_plan shop_query = Inr shop_orders"
  "names_canonical shop_query"
  by (simp_all add: query_plan_def normalized_orders_def completed_orders_def shop_query_def shop_orders_def
      order_by_def limit_to_def Query_new_def Let_def os_of_list_def order_position_def validate_cursor_def
      names_canonical_def query_names_def)

lemma shop_scope: "scope_documents shop_snapshot shop_database shop_query = [shop_a, shop_b]"
  by (simp add: scope_documents_def shop_snapshot_def key_in_scope_def shop_query_def limit_to_def order_by_def
      Query_new_def shop_defs)

lemma shop_matches: "query_matches shop_snapshot shop_database shop_query Standard shop_orders = [shop_a, shop_b]"
proof -
  have "candidate_matches shop_query shop_orders Standard shop_a" "candidate_matches shop_query shop_orders Standard shop_b"
    by (simp_all add: candidate_matches_def shop_query_def limit_to_def order_by_def Query_new_def
        shop_orders_def shop_defs LazyDocument_field_def)
  then show ?thesis by (simp add: query_matches_def shop_scope)
qed

lemma shop_compare: "candidate_compare Standard shop_orders shop_a shop_b = Greater"
  by (simp add: candidate_compare_def shop_orders_def order_values_def shop_defs LazyDocument_field_def
      order_value_field_def cmp_def)

section \<open>Properties\<close>

text \<open>
  C9: Query execution is exact. On a snapshot with exact indexes, canonical names and
  well-formed fields, a query without a vector stage either fails with the error of its
  validation or returns the documents of its scope that match its filter and cursors, sorted by
  its normalized orders, without the first offset ones and cut to its limit (from the end for a
  limit to last), each with its projection. The lazy stream over an index or over the names in
  the filter, the reload of a disk store and the bounded insertion by binary search all
  compute this.
\<close>

theorem query_execution_exact:
  assumes "snapshot_wf s" "canonical_database db" "names_canonical q" "query_nearest q = None"
    "length (snapshot_documents s) \<le> u64_max"
  shows "execute hypot disk_backed s db q ed =
    result_bind (query_plan q) (\<lambda>ords. Inr (map (query_document q) (query_reference s db q ed ords)))"
  by (rule execute_reference [OF assms])

theorem query_execution_exact_witness:
  "execute (\<lambda>_ _. 0) False shop_snapshot shop_database shop_query Standard
    = Inr [query_document shop_query shop_b]"
proof -
  have "query_nearest shop_query = None" "query_limit shop_query = Some (First 1)" "query_offset shop_query = 0"
    by (simp_all add: shop_query_def limit_to_def order_by_def Query_new_def)
  moreover have "length (snapshot_documents shop_snapshot) \<le> u64_max"
    by (simp add: shop_snapshot_def u64_max_def)
  ultimately show ?thesis
    using query_execution_exact [OF shop_wf shop_canonical(1) shop_plan(3), of "\<lambda>_ _. 0" False Standard]
    by (simp add: shop_plan(2) query_reference_def limit_results_def shop_matches shop_compare)
qed

text \<open>
  C10: Pages compose. For a query without a start cursor and without an offset, the query that
  starts after its result number \<open>i\<close> (with that document's order values as the cursor) has as
  its result what follows that document in the full order, cut to the limit: nothing is
  repeated and nothing is lost between pages, ties in the ordering fields included.
\<close>

theorem pages_compose:
  assumes "snapshot_wf s" "normalized_orders q = Inr ords" "query_start q = None" "query_offset q = 0"
    "i < length (sort_by (candidate_compare ed ords) (query_matches s db q ed ords))"
  shows "query_reference s db
      (start_after q (cursor_of ords (sort_by (candidate_compare ed ords) (query_matches s db q ed ords) ! i))) ed ords
    = limit_results (query_limit q) (drop (Suc i) (sort_by (candidate_compare ed ords) (query_matches s db q ed ords)))"
  by (rule paging_reference [OF assms])

theorem pages_compose_witness:
  "query_reference shop_snapshot shop_database (start_after shop_query (cursor_of shop_orders shop_b)) Standard shop_orders
    = [shop_a]"
proof -
  have "query_start shop_query = None" "query_offset shop_query = 0" "query_limit shop_query = Some (First 1)"
    by (simp_all add: shop_query_def limit_to_def order_by_def Query_new_def)
  then show ?thesis
    using pages_compose [OF shop_wf shop_plan(1), of 0 Standard shop_database]
    by (simp add: shop_matches shop_compare limit_results_def)
qed




text \<open>
  C12: Counting agrees with executing. The count of a query is the number of results its
  execution returns, at most the largest \<open>u64\<close>, and fails with the same error.
\<close>

theorem query_count_exact:
  "query_count hypot disk_backed s db q ed =
    result_bind (execute hypot disk_backed s db q ed) (\<lambda>results. Inr (min (length results) u64_max))"
  by (rule query_count_length)

text \<open>
  C13: The value order is a total preorder in both editions: on well-formed values swapping the
  sides reverses the verdict, a value equals itself and \<open>not greater\<close> is transitive, across
  types, mixed integers and doubles, NaN and nested containers.
\<close>

theorem compare_values_total_preorder:
  assumes "value_ok a" "value_ok b" "value_ok c"
  shows "compare_values ed a a = Equal
    \<and> compare_values ed b a = reverse_ordering (compare_values ed a b)
    \<and> (compare_values ed a b \<noteq> Greater \<longrightarrow> compare_values ed b c \<noteq> Greater \<longrightarrow> compare_values ed a c \<noteq> Greater)"
  using vals.refl [of a ed] vals.swap [of a b ed] vals.trans_le [of a b c ed] assms by simp

theorem compare_values_total_preorder_witness:
  "compare_values Standard (Array [Integer 2]) (MapValue []) = reverse_ordering (compare_values Standard (MapValue []) (Array [Integer 2]))"
  using compare_values_total_preorder [of "MapValue []" "Array [Integer 2]" Null Standard]
  by (simp add: in_i64_def i64_min_def i64_max_def)

text \<open>
  C14: Filters and array transforms agree on equality. In the Enterprise edition two well-formed
  values whose references are canonical tie in the query order exactly when the store's own
  value equality holds of them.
\<close>

theorem enterprise_ties_are_equality:
  assumes "value_ok a" "value_ok b" "canonical_refs a" "canonical_refs b"
  shows "(compare_values Enterprise a b = Equal) = values_equal a b"
  by (rule enterprise_ties [OF assms])

theorem enterprise_ties_are_equality_witness:
  "(compare_values Enterprise (Array [StringValue ''a'']) (Array [StringValue ''b'']) = Equal) = False"
  using enterprise_ties_are_equality [of "Array [StringValue ''a'']" "Array [StringValue ''b'']"] by simp

text \<open>
  C15: Normalized orders. When normalization succeeds, the result extends the client's orders,
  orders every field an inequality filters on, and ends with the document name, which it
  contains nowhere else.
\<close>

theorem normalized_orders_complete:
  assumes "normalized_orders q = Inr ords"
  shows "\<exists>before y. ords = before @ [y] \<and> order_path y = DocumentId
    \<and> (\<forall>z\<in>set before. order_path z \<noteq> DocumentId) \<and> take (length (query_orders q)) ords = query_orders q
    \<and> (\<forall>f. query_filter q = Some f \<longrightarrow> set (collect_inequality_fields f) \<subseteq> order_path ` set ords)"
proof -
  obtain before y where "ords = before @ [y]" "order_path y = DocumentId" "\<forall>z\<in>set before. order_path z \<noteq> DocumentId"
    by (rule normalized_orders_shape [OF assms])
  then show ?thesis using normalized_orders_extend [OF assms] by blast
qed

theorem normalized_orders_complete_witness:
  "\<exists>before y. shop_orders = before @ [y] \<and> order_path y = DocumentId"
  using normalized_orders_complete [OF shop_plan(1)] by blast

text \<open>
  C16: Field paths print and parse. The configuration name of a field path, with every segment
  that is not a plain identifier quoted and escaped, parses back to the path, unless it is the
  reserved name of the document itself.
\<close>

theorem field_path_round_trip:
  assumes "names \<noteq> []" "\<forall>n\<in>set names. n \<noteq> []" "names \<noteq> [''__name__'']"
  shows "\<exists>text. config_name (Field names) = Some text \<and> parse_wire text = Inr (Field names)"
proof -
  let ?text = "join_char (CHR ''.'') (map config_segment names)"
  have wire: "wire_segments [] ?text = Inr names" using wire_segments_config [OF assms(1,2)] by simp
  have "wire_segments [] ''__name__'' = Inr [''__name__'']"
    by (simp add: wire_segments.simps [of "[]"] next_segment_def bare_segment_def backtick_def
        is_ascii_alphanumeric_def is_ascii_alphabetic_def)
  then have "?text \<noteq> ''__name__''" using wire assms(3) by auto
  then show ?thesis using wire assms(1,2) by (auto simp: parse_wire_def QFieldPath_field_def)
qed

theorem field_path_round_trip_witness:
  "\<exists>text. config_name (Field [''a.b'', ''c'']) = Some text \<and> parse_wire text = Inr (Field [''a.b'', ''c''])"
  by (rule field_path_round_trip) simp_all

text \<open>
  C17: Projection is exact. Reading a selected path from a projection gives what the document
  has there, present or absent, whatever the other selected paths and their order; and a
  projection has no path the document does not have.
\<close>

theorem projection_exact:
  assumes "fields_ok m" "Field p \<in> set paths"
  shows "nested_value (project m paths) p = nested_value m p
    \<and> (\<forall>r. nested_value m r = None \<longrightarrow> nested_value (project m paths) r = None)"
proof -
  have absent: "nested_value (project m paths) r = None" if "nested_value m r = None" for r
    using projecting_fold [OF projecting_Nil, of m paths] that by (auto simp: projecting_def project_fold)
  show ?thesis
  proof (cases "nested_value m p")
    case (Some w)
    then show ?thesis
      using project_selected [OF assms(1) Some assms(2) projecting_Nil] absent by (simp add: project_fold)
  qed (use absent in simp)
qed

theorem projection_exact_witness:
  "nested_value (project [(''a'', MapValue [(''b'', Null), (''c'', Boolean True)])] [Field [''a'', ''c''], DocumentId]) [''a'', ''c'']
    = Some (Boolean True)"
  using projection_exact [of "[(''a'', MapValue [(''b'', Null), (''c'', Boolean True)])]" "[''a'', ''c'']"
      "[Field [''a'', ''c''], DocumentId]"]
  by (simp add: fields_ok_def om_ok_Cons)

text \<open>
  C18: Partition points are in range, increasing and even. For \<open>n\<close> results cut into at most
  \<open>n\<close> segments, the split points lie strictly inside the results in increasing order, so the
  lookup of the result at a point cannot fail, and the sizes of two segments differ by at most
  one.
\<close>

theorem partition_points_even:
  assumes "0 < segment_count" "segment_count \<le> n" "a < segment_count" "b < segment_count"
  shows "partition_index n segment_count a < n
    \<and> (a < b \<longrightarrow> partition_index n segment_count a < partition_index n segment_count b)
    \<and> (partition_index n segment_count (Suc a) - partition_index n segment_count a)
      \<le> Suc (partition_index n segment_count (Suc b) - partition_index n segment_count b)"
  using partition_index_mono [of a segment_count segment_count n] partition_index_ends(2) [OF assms(1), of n]
    partition_index_mono [of a b segment_count n] assms
  by (simp add: partition_index_step)

theorem partition_points_even_witness: "partition_index 10 3 2 < 10"
  using partition_points_even [of 3 10 2 0] by simp

text \<open>
  C19: Integer sums are exact. If no summed field is a double and every partial sum fits into
  64 bits, the aggregate is the integer sum of the integer fields; documents without an integer
  there contribute nothing.
\<close>

theorem sum_field_exact:
  assumes "\<forall>document\<in>set results. \<forall>d. projected_value document field \<noteq> Some (Double d)"
    "prefix_sums_fit 0 (integer_values results field)"
  shows "sum_field results field = Integer (sum_list (integer_values results field))"
proof -
  let ?vs = "map (\<lambda>document. projected_value document field) results"
  let ?start = "\<lparr>integer_sum = 0, double_sum = 0, has_double = False\<rparr>"
  have "fold sum_step ?vs ?start = ?start\<lparr>integer_sum := sum_list (integer_values results field)\<rparr>"
    using sum_steps_integers [of ?start "integer_values results field" ?vs] assms by (simp add: integer_values_def)
  then show ?thesis by (simp add: sum_field_def fold_map o_def)
qed

theorem sum_field_exact_witness:
  "sum_field [query_document shop_query shop_a, query_document shop_query shop_b] (Field [''x'']) = Integer 3"
  using sum_field_exact [of "[query_document shop_query shop_a, query_document shop_query shop_b]" "Field [''x'']"]
  by (simp add: query_document_def shop_defs integer_values_def List.map_filter_simps in_i64_def i64_min_def i64_max_def)

end
