(* ===== verification/Watch.thy ===== *)
theory Watch
  imports Query_Exec
begin

text \<open>
  Listen targets of \<open>watch-broker\<close> (\<open>watch-broker/src/lib.rs\<close>, \<open>watch_document.rs\<close>): the view a
  target has of a query or of a set of documents, the transitions a refresh reports, and the
  shortcut that skips the evaluation when the retained changes cannot matter.

  The bytes that compact documents are kept in come from a serialization library: they are a
  type parameter, with \<open>encode\<close> and \<open>decode\<close> as arguments. The decoded cache of a compact
  document (\<open>OnceLock\<close>) holds what \<open>decode\<close> returns and is not part of the state.
\<close>

section \<open>Visible documents\<close>

record Decoded =
  decoded_document :: Document
  decoded_projected :: "Fields option"

definition Decoded_fields :: "Decoded \<Rightarrow> Fields" where
  "Decoded_fields d =
     (case decoded_projected d of Some projected \<Rightarrow> projected | None \<Rightarrow> Document.fields (decoded_document d))"

text \<open>The derived equality, which NaN makes irreflexive.\<close>

definition Decoded_eq :: "Decoded \<Rightarrow> Decoded \<Rightarrow> bool" where
  "Decoded_eq a b =
     (document_eq (decoded_document a) (decoded_document b)
      \<and> (case (decoded_projected a, decoded_projected b) of
           (None, None) \<Rightarrow> True
         | (Some f, Some g) \<Rightarrow> fields_eq f g
         | _ \<Rightarrow> False))"

record 'bytes Compact =
  compact_bytes :: 'bytes
  compact_field_logical_bytes :: nat
  compact_has_nan :: bool

datatype 'bytes Payload = Shared Decoded | Compacted "'bytes Compact"

record 'bytes WatchDocument =
  watch_key :: DocumentKey
  watch_payload :: "'bytes Payload"

definition fields_have_nan :: "Fields \<Rightarrow> bool" where
  "fields_have_nan m = list_ex (\<lambda>e. has_nan (snd e)) m"

definition WatchDocument_new :: "(Decoded \<Rightarrow> 'bytes) \<Rightarrow> DocumentKey \<Rightarrow> Document \<Rightarrow> Fields option \<Rightarrow> bool \<Rightarrow>
    'bytes WatchDocument" where
  "WatchDocument_new encode key document projected compact =
     (let decoded = \<lparr>decoded_document = document, decoded_projected = projected\<rparr> in
      \<lparr>watch_key = key,
       watch_payload =
         (if compact then Compacted
            \<lparr>compact_bytes = encode decoded,
             compact_field_logical_bytes = fields_logical_bytes (Decoded_fields decoded),
             compact_has_nan = (fields_have_nan (Document.fields document)
               \<or> (case projected of Some m \<Rightarrow> fields_have_nan m | None \<Rightarrow> False))\<rparr>
          else Shared decoded)\<rparr>)"

definition comparison_view :: "('bytes \<Rightarrow> Decoded) \<Rightarrow> 'bytes WatchDocument \<Rightarrow> Decoded" where
  "comparison_view decode d =
     (case watch_payload d of Shared decoded \<Rightarrow> decoded | Compacted c \<Rightarrow> decode (compact_bytes c))"

definition WatchDocument_fields :: "('bytes \<Rightarrow> Decoded) \<Rightarrow> 'bytes WatchDocument \<Rightarrow> Fields" where
  "WatchDocument_fields decode d = Decoded_fields (comparison_view decode d)"

definition field_logical_bytes :: "'bytes WatchDocument \<Rightarrow> nat" where
  "field_logical_bytes d =
     (case watch_payload d of
        Shared decoded \<Rightarrow> fields_logical_bytes (Decoded_fields decoded)
      | Compacted c \<Rightarrow> compact_field_logical_bytes c)"

definition WatchDocument_eq :: "('bytes \<Rightarrow> Decoded) \<Rightarrow> 'bytes WatchDocument \<Rightarrow> 'bytes WatchDocument \<Rightarrow> bool" where
  "WatchDocument_eq decode a b =
     (if watch_key a \<noteq> watch_key b then False
      else (case (watch_payload a, watch_payload b) of
              (Compacted l, Compacted r) \<Rightarrow>
                if compact_bytes l = compact_bytes r then \<not> compact_has_nan l
                else Decoded_eq (comparison_view decode a) (comparison_view decode b)
            | _ \<Rightarrow> Decoded_eq (comparison_view decode a) (comparison_view decode b)))"

section \<open>Targets\<close>

datatype TargetSpec = QueryTarget Query | DocumentsTarget "DocumentKey ord_set"

datatype ChangeKind = Upsert | DeleteChange | RemoveChange

record 'bytes WatchChange =
  watch_change_key :: DocumentKey
  watch_change_kind :: ChangeKind
  watch_change_document :: "'bytes WatchDocument option"

record 'bytes ChangeBatch =
  batch_revision :: Revision
  batch_changes :: "'bytes WatchChange list"

type_synonym 'bytes View = "(DocumentKey, 'bytes WatchDocument) ord_map"

record 'bytes WatchTarget =
  target_id :: int
  target_database :: DatabaseName
  target_spec :: TargetSpec
  target_edition :: DatabaseEdition
  target_revision :: Revision
  target_documents :: "'bytes View"
  target_usage :: LogicalMemoryUsage

definition om_of_list :: "('k::linorder \<times> 'v) list \<Rightarrow> ('k, 'v) ord_map" where
  "om_of_list entries = fold (\<lambda>e. om_insert (fst e) (snd e)) entries []"

text \<open>What the target needs to evaluate: the library functions and whether the store is on disk.\<close>

record 'bytes Engine =
  engine_hypot :: "f64 \<Rightarrow> f64 \<Rightarrow> f64"
  engine_encode :: "Decoded \<Rightarrow> 'bytes"
  engine_decode :: "'bytes \<Rightarrow> Decoded"
  engine_disk_backed :: bool

definition evaluate :: "'bytes Engine \<Rightarrow> Snapshot \<Rightarrow> DatabaseName \<Rightarrow> TargetSpec \<Rightarrow> DatabaseEdition \<Rightarrow>
    QueryError + 'bytes View" where
  "evaluate engine s database spec ed =
     (case spec of
        QueryTarget q \<Rightarrow>
          result_bind (execute_iter (engine_hypot engine) (engine_disk_backed engine) s database q ed)
            (\<lambda>results. Inr (om_of_list (map (\<lambda>document.
               (result_key document,
                WatchDocument_new (engine_encode engine) (result_key document) (result_document document)
                  (result_projected document) (engine_disk_backed engine)))
               (collect_iterator s q ed results))))
      | DocumentsTarget keys \<Rightarrow>
          Inr (om_of_list (List.map_filter (\<lambda>key.
            map_option (\<lambda>document. (key,
              WatchDocument_new (engine_encode engine) key document None (engine_disk_backed engine)))
              (Snapshot_get s key)) keys)))"

definition visible_logical_usage :: "DatabaseName \<Rightarrow> TargetSpec \<Rightarrow> 'bytes View \<Rightarrow> LogicalMemoryUsage" where
  "visible_logical_usage database spec view =
     (let specification_bytes = (case spec of
            QueryTarget _ \<Rightarrow> 0
          | DocumentsTarget keys \<Rightarrow> fold (\<lambda>key acc. sat_add acc (document_key_logical_bytes key)) keys 0);
          visible_bytes = fold (\<lambda>e acc.
            sat_add (sat_add acc (document_key_logical_bytes (watch_key (snd e)))) (field_logical_bytes (snd e)))
            view 0
      in \<lparr>usage_entries = min (length view) u64_max,
          usage_logical_bytes = sat_add (sat_add (database_name_logical_bytes database) specification_bytes)
            visible_bytes\<rparr>)"

definition upsert :: "DocumentKey \<Rightarrow> 'bytes WatchDocument \<Rightarrow> 'bytes WatchChange" where
  "upsert key document =
     \<lparr>watch_change_key = key, watch_change_kind = Upsert, watch_change_document = Some document\<rparr>"

definition initialize :: "'bytes Engine \<Rightarrow> int \<Rightarrow> DatabaseName \<Rightarrow> TargetSpec \<Rightarrow> DatabaseEdition \<Rightarrow> Snapshot \<Rightarrow>
    QueryError + 'bytes WatchTarget \<times> 'bytes ChangeBatch" where
  "initialize engine target database spec ed s =
     result_bind (evaluate engine s database spec ed) (\<lambda>view.
       Inr (\<lparr>target_id = target, target_database = database, target_spec = spec, target_edition = ed,
             target_revision = snapshot_revision s, target_documents = view,
             target_usage = visible_logical_usage database spec view\<rparr>,
            \<lparr>batch_revision = snapshot_revision s,
             batch_changes = map (\<lambda>e. upsert (watch_key (snd e)) (snd e)) view\<rparr>))"

text \<open>The transition of one key between the previous and the next view.\<close>

definition transition :: "'bytes Engine \<Rightarrow> Snapshot \<Rightarrow> 'bytes View \<Rightarrow> 'bytes View \<Rightarrow> DocumentKey \<Rightarrow>
    'bytes WatchChange option" where
  "transition engine s before after key =
     (case (map_of before key, map_of after key) of
        (None, Some document) \<Rightarrow> Some (upsert key document)
      | (Some old, Some new) \<Rightarrow>
          if \<not> WatchDocument_eq (engine_decode engine) old new then Some (upsert key new) else None
      | (Some _, None) \<Rightarrow>
          Some \<lparr>watch_change_key = key,
            watch_change_kind = (if Snapshot_get s key \<noteq> None then RemoveChange else DeleteChange),
            watch_change_document = None\<rparr>
      | (None, None) \<Rightarrow> None)"

definition refresh :: "'bytes Engine \<Rightarrow> 'bytes WatchTarget \<Rightarrow> Snapshot \<Rightarrow>
    QueryError + 'bytes WatchTarget \<times> 'bytes ChangeBatch" where
  "refresh engine t s =
     result_bind (evaluate engine s (target_database t) (target_spec t) (target_edition t)) (\<lambda>view.
       (let keys = os_of_list (map fst (target_documents t) @ map fst view);
            changes = List.map_filter (transition engine s (target_documents t) view) keys
        in Inr (t\<lparr>target_revision := snapshot_revision s,
                  target_usage := visible_logical_usage (target_database t) (target_spec t) view,
                  target_documents := view\<rparr>,
                \<lparr>batch_revision = snapshot_revision s, batch_changes = changes\<rparr>)))"

definition contains_scope_key :: "'bytes WatchTarget \<Rightarrow> DocumentKey \<Rightarrow> bool" where
  "contains_scope_key t key =
     (if key_database key \<noteq> target_database t then False
      else (case target_spec t of
              DocumentsTarget keys \<Rightarrow> key \<in> set keys
            | QueryTarget q \<Rightarrow>
                (case rsplit_once (CHR ''/'') (key_path key) of
                   None \<Rightarrow> False
                 | Some (collection_path, _) \<Rightarrow>
                     (case query_scope q of
                        Collection collection \<Rightarrow> collection_path = collection
                      | CollectionGroup collection \<Rightarrow>
                          last (split_char (CHR ''/'') collection_path) = collection))))"

definition refresh_with_changes :: "'bytes Engine \<Rightarrow> 'bytes WatchTarget \<Rightarrow> Snapshot \<Rightarrow> Change list option \<Rightarrow>
    QueryError + 'bytes WatchTarget \<times> 'bytes ChangeBatch" where
  "refresh_with_changes engine t s changes =
     (if target_revision t \<le> snapshot_revision s
         \<and> (case changes of
              None \<Rightarrow> False
            | Some cs \<Rightarrow> \<not> list_ex (\<lambda>c. target_revision t < change_revision c
                             \<and> change_revision c \<le> snapshot_revision s
                             \<and> contains_scope_key t (change_key c)) cs)
      then Inr (t\<lparr>target_revision := snapshot_revision s\<rparr>,
                \<lparr>batch_revision = snapshot_revision s, batch_changes = []\<rparr>)
      else refresh engine t s)"

section \<open>Facts\<close>

lemma om_ok_of_list: "om_ok (om_of_list entries)"
proof -
  have "om_ok m \<Longrightarrow> om_ok (fold (\<lambda>e. om_insert (fst e) (snd e)) entries m)" for m
    by (induction entries arbitrary: m) simp_all
  then show ?thesis by (simp add: om_of_list_def)
qed

lemma evaluate_ok: "evaluate engine s db spec ed = Inr view \<Longrightarrow> om_ok view"
  by (auto simp: evaluate_def om_ok_of_list split: TargetSpec.splits)

text \<open>What a client makes of a batch: it keeps the documents it is sent and drops the others.\<close>

fun apply_watch_change :: "'bytes WatchChange \<Rightarrow> 'bytes View \<Rightarrow> 'bytes View" where
  "apply_watch_change c view =
     (case watch_change_document c of
        Some document \<Rightarrow> om_insert (watch_change_key c) document view
      | None \<Rightarrow> om_remove (watch_change_key c) view)"

definition client_view :: "'bytes ChangeBatch \<Rightarrow> 'bytes View \<Rightarrow> 'bytes View" where
  "client_view batch view = fold apply_watch_change (batch_changes batch) view"

lemma transition_key: "transition engine s before after key = Some c \<Longrightarrow> watch_change_key c = key"
  by (auto simp: transition_def upsert_def split: option.splits if_splits)

lemma transition_kind:
  assumes "transition engine s before after k = Some c"
  shows "(watch_change_kind c = Upsert \<longrightarrow> map_of after (watch_change_key c) = watch_change_document c)
    \<and> (watch_change_kind c \<noteq> Upsert \<longrightarrow> map_of after (watch_change_key c) = None
        \<and> (watch_change_kind c = DeleteChange) = (Snapshot_get s (watch_change_key c) = None))"
  using assms
  by (cases "map_of before k"; cases "map_of after k")
    (auto simp: transition_def upsert_def split: if_splits)

lemma client_view_transitions:
  assumes "distinct keys"
  shows "map_of (fold apply_watch_change (List.map_filter (transition engine s before after) keys) view) k =
    (if k \<in> set keys then
       (case transition engine s before after k of
          None \<Rightarrow> map_of view k | Some c \<Rightarrow> watch_change_document c)
     else map_of view k)"
  using assms
proof (induction keys arbitrary: view)
  case (Cons key keys)
  show ?case
  proof (cases "transition engine s before after key")
    case None
    then show ?thesis using Cons by (auto simp: List.map_filter_simps)
  next
    case (Some c)
    have "watch_change_key c = key" using transition_key [OF Some] .
    then have "map_of (apply_watch_change c view) j = (if j = key then watch_change_document c else map_of view j)" for j
      by (cases "watch_change_document c") (auto simp: om_simps)
    then show ?thesis
      using Some Cons
      by (cases "transition engine s before after k") (auto simp: List.map_filter_simps simp del: apply_watch_change.simps)
  qed
qed (simp add: List.map_filter_simps)

lemma sorted_transitions:
  assumes "sorted_wrt (<) keys"
  shows "sorted_wrt (<) (map watch_change_key (List.map_filter (transition engine s before after) keys))"
  using assms
proof (induction keys)
  case (Cons key keys)
  have "watch_change_key c \<in> set keys" if "c \<in> set (List.map_filter (transition engine s before after) keys)" for c
    using that transition_key by (fastforce simp: set_map_filter)
  then show ?case
    using Cons by (auto simp: List.map_filter_simps dest: transition_key split: option.splits)
qed (simp add: List.map_filter_simps)

lemma distinct_os_of_list: "distinct (os_of_list xs)"
  using os_of_list_ok [of xs] strict_sorted_iff unfolding os_ok_def by blast

end
