(* ===== verification/Watch_Props.thy ===== *)
theory Watch_Props
  imports Watch Store_Props Query_Props
begin

text \<open>
  What a listen target promises: a batch of changes brings a client from the previous view to
  the new one, skipping an evaluation is sound for every run of the store, and compact
  documents compare as shared ones do.
\<close>

section \<open>Evaluation depends on the scope only\<close>

lemma scope_filter_cong:
  assumes "om_ok m" "om_ok m'" "\<And>k. P k \<Longrightarrow> map_of m k = map_of m' k"
  shows "filter (\<lambda>e. P (fst e)) m = filter (\<lambda>e. P (fst e)) m'"
proof (rule om_ext)
  have ok: "om_ok (filter (\<lambda>e. P (fst e)) m)" if "om_ok m" for m :: "('a, 'b) ord_map"
    using that by (simp add: om_ok_def sorted_wrt_map sorted_wrt_filter)
  show "om_ok (filter (\<lambda>e. P (fst e)) m)" "om_ok (filter (\<lambda>e. P (fst e)) m')" using ok assms(1,2) by auto
  have "map_of (filter (\<lambda>e. P (fst e)) m) k = (if P k then map_of m k else None)" for k and m :: "('a, 'b) ord_map"
    by (induction m) auto
  then show "map_of (filter (\<lambda>e. P (fst e)) m) = map_of (filter (\<lambda>e. P (fst e)) m')"
    using assms(3) by auto
qed

lemma query_reference_cong:
  "scope_documents s db q = scope_documents s' db q \<Longrightarrow>
    query_reference s db q ed ords = query_reference s' db q ed ords"
  by (simp add: query_reference_def query_matches_def)

lemma execute_nearest_stage:
  "query_nearest q = Some nearest \<Longrightarrow>
    execute hypot disk_backed s db q ed = result_bind (query_plan q) (\<lambda>_. execute_nearest hypot s db q nearest ed)"
  by (cases "normalized_orders q"; cases "validate_cursor (query_start q) (projr (normalized_orders q))";
      cases "validate_cursor (query_end q) (projr (normalized_orders q))";
      cases "execute_nearest hypot s db q nearest ed")
    (simp_all add: query_plan_def execute_def execute_iter_def execute_buffered_def)

lemma execute_nearest_cong:
  assumes "snapshot_wf s" "snapshot_wf s'" "canonical_database db" "names_canonical q"
    "scope_documents s db q = scope_documents s' db q"
  shows "execute_nearest hypot s db q nearest ed = execute_nearest hypot s' db q nearest ed"
  using nearest_selection [OF assms(1,3,4)] nearest_selection [OF assms(2-4)] assms(5)
  by (simp add: execute_nearest_def nearest_reference_def)

text \<open>A snapshot that the query engine can be run on.\<close>

definition engine_snapshot :: "Snapshot \<Rightarrow> bool" where
  "engine_snapshot s = (snapshot_wf s \<and> length (snapshot_documents s) \<le> u64_max)"

lemma execute_scope_cong:
  assumes "engine_snapshot s" "engine_snapshot s'" "canonical_database db" "names_canonical q"
    "scope_documents s db q = scope_documents s' db q"
  shows "execute hypot disk_backed s db q ed = execute hypot disk_backed s' db q ed"
proof (cases "query_nearest q")
  case None
  then show ?thesis
    using assms execute_reference [of s db q] execute_reference [of s' db q] query_reference_cong [OF assms(5)]
    by (simp add: engine_snapshot_def)
next
  case (Some nearest)
  then show ?thesis
    using assms execute_nearest_cong [of s s' db q hypot nearest ed]
    by (simp add: engine_snapshot_def execute_nearest_stage)
qed

text \<open>A target that names documents of its own database only, as the front ends build them.\<close>

definition target_wf :: "'bytes WatchTarget \<Rightarrow> bool" where
  "target_wf t =
     (canonical_database (target_database t)
      \<and> (case target_spec t of
           QueryTarget q \<Rightarrow> names_canonical q
         | DocumentsTarget keys \<Rightarrow> \<forall>k\<in>set keys. key_database k = target_database t))"

lemma evaluate_query:
  "evaluate engine s db (QueryTarget q) ed =
    result_bind (execute (engine_hypot engine) (engine_disk_backed engine) s db q ed) (\<lambda>results.
      Inr (om_of_list (map (\<lambda>document.
        (result_key document, WatchDocument_new (engine_encode engine) (result_key document)
           (result_document document) (result_projected document) (engine_disk_backed engine))) results)))"
  by (cases "execute_iter (engine_hypot engine) (engine_disk_backed engine) s db q ed")
    (simp_all add: evaluate_def execute_def)

lemma contains_scope_key_query:
  "target_spec t = QueryTarget q \<Longrightarrow> key_database k = target_database t \<Longrightarrow> key_in_scope k q \<Longrightarrow>
    contains_scope_key t k"
  using rsplit_last [where c = "CHR ''/''"]
  by (auto simp: contains_scope_key_def key_in_scope_def Let_def split: option.splits QueryScope.splits)

lemma map_filter_set_cong:
  "xs = ys \<Longrightarrow> (\<And>x. x \<in> set ys \<Longrightarrow> f x = g x) \<Longrightarrow> List.map_filter f xs = List.map_filter g ys"
  by (auto simp: List.map_filter_def cong: filter_cong map_cong)

lemma evaluate_cong:
  assumes "engine_snapshot s" "engine_snapshot s'" "target_wf t"
    and same: "\<And>k. contains_scope_key t k \<Longrightarrow> Snapshot_get s k = Snapshot_get s' k"
  shows "evaluate engine s (target_database t) (target_spec t) ed = evaluate engine s' (target_database t) (target_spec t) ed"
proof (cases "target_spec t")
  case (QueryTarget q)
  let ?P = "\<lambda>k. key_database k = target_database t \<and> key_in_scope k q"
  have "scope_documents s (target_database t) q = scope_documents s' (target_database t) q"
    unfolding scope_documents_def
    by (rule scope_filter_cong [where P = ?P])
      (use assms(1,2) same contains_scope_key_query [OF QueryTarget]
        in \<open>auto simp: engine_snapshot_def snapshot_wf_def snapshot_ok_def Snapshot_get_def\<close>)
  from execute_scope_cong [OF assms(1,2) _ _ this] assms(3) show ?thesis
    by (simp add: QueryTarget evaluate_query target_wf_def)
next
  case (DocumentsTarget keys)
  have "Snapshot_get s k = Snapshot_get s' k" if "k \<in> set keys" for k
    using same [of k] assms(3) that by (auto simp: contains_scope_key_def DocumentsTarget target_wf_def)
  then show ?thesis
    by (simp add: DocumentsTarget evaluate_def cong: map_filter_set_cong)
qed

section \<open>Two revisions of one run\<close>

text \<open>Undoing changes gives each key the state before its first change.\<close>

lemma get_undo:
  "map_of (undo om_assign (transitions changes) m) k =
    (case find (\<lambda>c. change_key c = k) changes of None \<Rightarrow> map_of m k | Some c \<Rightarrow> change_before c)"
  by (induction changes) (auto simp: change_transition_def get_om_assign)

lemma find_newer_cong:
  assumes "\<And>c. c \<in> set log \<Longrightarrow> P c \<Longrightarrow> (r < change_revision c) = (r' < change_revision c)"
  shows "find P (newer_changes r log) = find P (newer_changes r' log)"
  using assms by (induction log) (auto simp: newer_changes_def)

lemma untouched_between:
  assumes run: "store_run opts hist st" "ticking st" and r: "change_floor st \<le> r" "r \<le> r'" "r' \<le> revision st"
    and s: "snapshot_at_revision st r = Some (Inr s)" "snapshot_at_revision st r' = Some (Inr s')"
    and untouched: "\<And>c. c \<in> set (change_log st) \<Longrightarrow> r < change_revision c \<Longrightarrow> change_revision c \<le> r' \<Longrightarrow> change_key c \<noteq> k"
  shows "Snapshot_get s k = Snapshot_get s' k"
proof -
  have ok: "history_ok hist st" using store_run_ok [OF run(1)] run(2) by simp
  have get: "Snapshot_get p k = (case find (\<lambda>c. change_key c = k) (newer_changes q (change_log st)) of
      None \<Rightarrow> map_of (documents st) k | Some c \<Rightarrow> change_before c)"
    if q: "change_floor st \<le> q" "q \<le> revision st" and p: "snapshot_at_revision st q = Some (Inr p)" for p q
    using snapshot_of_run [OF run q] p ok q get_undo [of "newer_changes q (change_log st)" "documents st" k]
    by (auto simp: history_ok_def Snapshot_get_def)
  have "find (\<lambda>c. change_key c = k) (newer_changes r (change_log st))
      = find (\<lambda>c. change_key c = k) (newer_changes r' (change_log st))"
    using untouched r(2) by (intro find_newer_cong) (metis leD le_less_trans linorder_not_less)
  then show ?thesis using get [OF r(1) _ s(1)] get [OF _ r(3) s(2)] r by simp
qed

section \<open>Targets\<close>

text \<open>A target that shows the given snapshot.\<close>

definition target_shows :: "'bytes Engine \<Rightarrow> 'bytes WatchTarget \<Rightarrow> Snapshot \<Rightarrow> bool" where
  "target_shows engine t s =
     (evaluate engine s (target_database t) (target_spec t) (target_edition t) = Inr (target_documents t)
      \<and> target_revision t = snapshot_revision s
      \<and> target_usage t = visible_logical_usage (target_database t) (target_spec t) (target_documents t))"

lemma initialize_shows: "initialize engine n db spec ed s = Inr (t, batch) \<Longrightarrow> target_shows engine t s"
  by (auto simp: initialize_def target_shows_def)

lemma refresh_shows: "refresh engine t s = Inr (t', batch) \<Longrightarrow> target_shows engine t' s"
  by (auto simp: refresh_def target_shows_def Let_def)

lemma refresh_same_view:
  assumes "evaluate engine s (target_database t) (target_spec t) (target_edition t) = Inr (target_documents t)"
    "target_usage t = visible_logical_usage (target_database t) (target_spec t) (target_documents t)"
  shows "\<exists>batch. refresh engine t s = Inr (t\<lparr>target_revision := snapshot_revision s\<rparr>, batch)
    \<and> batch_revision batch = snapshot_revision s
    \<and> ((\<forall>e\<in>set (target_documents t). WatchDocument_eq (engine_decode engine) (snd e) (snd e)) \<longrightarrow> batch_changes batch = [])"
proof -
  let ?keys = "os_of_list (map fst (target_documents t) @ map fst (target_documents t))"
  have "transition engine s (target_documents t) (target_documents t) k = None"
    if "\<forall>e\<in>set (target_documents t). WatchDocument_eq (engine_decode engine) (snd e) (snd e)" for k
    using that by (cases "map_of (target_documents t) k") (fastforce simp: transition_def dest: map_of_SomeD)+
  moreover have "List.map_filter (\<lambda>k. None) xs = []" for xs :: "DocumentKey list"
    by (induction xs) (simp_all add: List.map_filter_simps)
  moreover have "t\<lparr>target_revision := r, target_usage := target_usage t, target_documents := target_documents t\<rparr>
      = t\<lparr>target_revision := r\<rparr>" for r
    by simp
  ultimately show ?thesis
    using assms(2) by (auto simp: refresh_def assms(1) Let_def cong: map_filter_set_cong)
qed

text \<open>
  C20: Skipping an evaluation is sound. In every run of the store, let a target show the snapshot
  of a retained revision and be refreshed at a later one with the changes since any revision not
  after its own. Then the incremental refresh leaves exactly the target that a full evaluation
  leaves, also when it skips the evaluation because no change in between lies in its scope, and
  sends the same batch unless a visible document contains a NaN, which no comparison finds equal
  to itself.
\<close>

theorem incremental_refresh_exact:
  assumes "store_run opts hist st" "ticking st"
    "snapshot_at_revision st r = Some (Inr s)" "snapshot_at_revision st r' = Some (Inr s')" "r \<le> r'"
    "engine_snapshot s" "engine_snapshot s'" "target_wf t" "target_shows engine t s"
    "changes_since st after = Inr changes" "after \<le> r"
  shows "map_sum id fst (refresh_with_changes engine t s' (Some changes)) = map_sum id fst (refresh engine t s')
    \<and> ((\<forall>e\<in>set (target_documents t). WatchDocument_eq (engine_decode engine) (snd e) (snd e)) \<longrightarrow>
        refresh_with_changes engine t s' (Some changes) = refresh engine t s')"
proof -
  have r: "change_floor st \<le> r" "r' \<le> revision st" "r \<le> revision st" "change_floor st \<le> r'"
    using assms(3-5) by (auto simp: snapshot_at_revision_def split: if_splits)
  have rev: "snapshot_revision s' = r'" "target_revision t = r"
    using snapshot_of_run [OF assms(1,2) r(1,3)] snapshot_of_run [OF assms(1,2) r(4,2)] assms(3,4,9)
    by (auto simp: target_shows_def)
  let ?touched = "list_ex (\<lambda>c. r < change_revision c \<and> change_revision c \<le> r' \<and> contains_scope_key t (change_key c)) changes"
  show ?thesis
  proof (cases ?touched)
    case False
    have log: "c \<in> set changes" if "c \<in> set (change_log st)" "r < change_revision c" for c
      using that assms(10,11) by (auto simp: changes_since_def newer_changes_def split: if_splits)
    have "Snapshot_get s k = Snapshot_get s' k" if "contains_scope_key t k" for k
      by (rule untouched_between [OF assms(1,2) r(1) assms(5) r(2) assms(3,4)])
        (use False log that in \<open>auto simp: list_ex_iff\<close>)
    then have "evaluate engine s (target_database t) (target_spec t) (target_edition t)
        = evaluate engine s' (target_database t) (target_spec t) (target_edition t)"
      by (rule evaluate_cong [OF assms(6-8)])
    then have "evaluate engine s' (target_database t) (target_spec t) (target_edition t) = Inr (target_documents t)"
      using assms(9) by (simp add: target_shows_def)
    then obtain batch where "refresh engine t s' = Inr (t\<lparr>target_revision := r'\<rparr>, batch)" "batch_revision batch = r'"
      "(\<forall>e\<in>set (target_documents t). WatchDocument_eq (engine_decode engine) (snd e) (snd e)) \<longrightarrow> batch_changes batch = []"
      using refresh_same_view [of engine s' t] assms(9) rev(1) by (auto simp: target_shows_def)
    then show ?thesis using False assms(5) rev by (simp add: refresh_with_changes_def)
  qed (simp add: refresh_with_changes_def rev)
qed

definition plain_engine :: "Decoded Engine" where
  "plain_engine = \<lparr>engine_hypot = (\<lambda>_ _. 0), engine_encode = id, engine_decode = id, engine_disk_backed = False\<rparr>"

lemma demo_keys: "canonical_key demo_a" "canonical_key demo_b" "canonical_database demo_database"
  using shop_canonical by (simp_all add: demo_a_def demo_b_def shop_defs demo_database_def)

lemma demo_snapshot_wf:
  assumes "snapshot_at_revision demo_state2 r = Some (Inr s)" "r = 1 \<or> r = 2"
  shows "engine_snapshot s \<and> snapshot_revision s = r
    \<and> snapshot_documents s = (if r = 1 then [(demo_a, demo_document)] else [(demo_b, demo_empty_document)])"
proof -
  have "snapshot_revision s = r" "snapshot_documents s = fst (demo_history ! r)" "snapshot_ok s"
    using snapshot_of_run [OF demo_run demo_facts(1), of r] assms demo_facts(2,3) by auto
  moreover have "fst (demo_history ! r) = (if r = 1 then [(demo_a, demo_document)] else [(demo_b, demo_empty_document)])"
    using assms(2) by (auto simp: demo_history_def demo_state1_def demo_state2_def)
  moreover have "fields_ok (Document.fields demo_document)" "fields_ok (Document.fields demo_empty_document)"
    by (simp_all add: demo_document_def demo_empty_document_def fields_ok_def om_ok_Cons in_i64_def i64_min_def i64_max_def)
  ultimately show ?thesis
    using demo_keys assms(2) by (auto simp: engine_snapshot_def snapshot_wf_def u64_max_def)
qed

theorem incremental_refresh_exact_witness:
  "\<exists>s s' t batch changes. snapshot_at_revision demo_state2 1 = Some (Inr s)
    \<and> snapshot_at_revision demo_state2 2 = Some (Inr s')
    \<and> initialize plain_engine 1 demo_database (DocumentsTarget [demo_a]) Standard s = Inr (t, batch)
    \<and> map fst (target_documents t) = [demo_a] \<and> changes_since demo_state2 1 = Inr changes
    \<and> map_sum id fst (refresh_with_changes plain_engine t s' (Some changes)) = map_sum id fst (refresh plain_engine t s')"
proof -
  obtain s s' where s: "snapshot_at_revision demo_state2 1 = Some (Inr s)" "snapshot_at_revision demo_state2 2 = Some (Inr s')"
    using snapshot_of_run [OF demo_run demo_facts(1), of 1] snapshot_of_run [OF demo_run demo_facts(1), of 2]
    by (auto simp: demo_facts(2,3))
  note wf = demo_snapshot_wf [OF s(1)] demo_snapshot_wf [OF s(2)]
  obtain t batch where t: "initialize plain_engine 1 demo_database (DocumentsTarget [demo_a]) Standard s = Inr (t, batch)"
    "map fst (target_documents t) = [demo_a]" "target_database t = demo_database" "target_spec t = DocumentsTarget [demo_a]"
    using wf(1) by (simp add: initialize_def evaluate_def Snapshot_get_def List.map_filter_simps om_of_list_def)
  have c: "changes_since demo_state2 1 = Inr (newer_changes 1 (change_log demo_state2))"
    by (simp add: changes_since_def demo_facts(2))
  have "target_wf t" using t demo_keys by (simp add: target_wf_def demo_a_def)
  from incremental_refresh_exact [OF demo_run demo_facts(1) s _ _ _ this initialize_shows [OF t(1)] c] wf s t c
  show ?thesis by auto
qed

text \<open>
  C21: A refresh delivers the new view. When a target is refreshed, a client that applies the
  batch in order to the previous view holds, for every key, the document of the new evaluation
  or one the code cannot tell from it, and nothing else. The changes come in strictly increasing
  key order. A removed document is reported as deleted exactly when the snapshot no longer has
  it, and as removed when it has it but it no longer matches.
\<close>

theorem refresh_delivers:
  assumes "refresh engine t s = Inr (t', batch)"
  shows "evaluate engine s (target_database t) (target_spec t) (target_edition t) = Inr (target_documents t')
    \<and> (\<forall>k. rel_option (\<lambda>a b. a = b \<or> WatchDocument_eq (engine_decode engine) a b)
          (map_of (client_view batch (target_documents t)) k) (map_of (target_documents t') k))
    \<and> sorted_wrt (<) (map watch_change_key (batch_changes batch))
    \<and> (\<forall>c\<in>set (batch_changes batch).
          (watch_change_kind c = Upsert \<longrightarrow> map_of (target_documents t') (watch_change_key c) = watch_change_document c)
        \<and> (watch_change_kind c \<noteq> Upsert \<longrightarrow> map_of (target_documents t') (watch_change_key c) = None
            \<and> (watch_change_kind c = DeleteChange) = (Snapshot_get s (watch_change_key c) = None)))"
proof -
  obtain view where view: "evaluate engine s (target_database t) (target_spec t) (target_edition t) = Inr view"
    "target_documents t' = view" "batch_changes batch = List.map_filter (transition engine s (target_documents t) view)
      (os_of_list (map fst (target_documents t) @ map fst view))"
    using assms by (auto simp: refresh_def Let_def)
  let ?keys = "os_of_list (map fst (target_documents t) @ map fst view)"
  have keys: "set ?keys = dom (map_of (target_documents t)) \<union> dom (map_of view)"
    by (auto simp: dom_map_of_conv_image_fst)
  have "rel_option (\<lambda>a b. a = b \<or> WatchDocument_eq (engine_decode engine) a b)
      (map_of (client_view batch (target_documents t)) k) (map_of view k)" for k
    using keys by (auto simp: client_view_def view(3) client_view_transitions [OF distinct_os_of_list] transition_def
        upsert_def split: option.splits)
  moreover have "sorted_wrt (<) (map watch_change_key (batch_changes batch))"
    unfolding view(3) using os_of_list_ok [of "map fst (target_documents t) @ map fst view"]
    by (simp add: sorted_transitions os_ok_def)
  moreover have "(watch_change_kind c = Upsert \<longrightarrow> map_of view (watch_change_key c) = watch_change_document c)
      \<and> (watch_change_kind c \<noteq> Upsert \<longrightarrow> map_of view (watch_change_key c) = None
          \<and> (watch_change_kind c = DeleteChange) = (Snapshot_get s (watch_change_key c) = None))"
    if "c \<in> set (batch_changes batch)" for c
    using that transition_kind unfolding view(3) set_map_filter by blast
  ultimately show ?thesis using view(1,2) by simp
qed

theorem refresh_delivers_witness:
  "\<exists>s s' t batch t' batch'. snapshot_at_revision demo_state2 1 = Some (Inr s)
    \<and> snapshot_at_revision demo_state2 2 = Some (Inr s')
    \<and> initialize plain_engine 1 demo_database (DocumentsTarget [demo_a]) Standard s = Inr (t, batch)
    \<and> refresh plain_engine t s' = Inr (t', batch')
    \<and> (\<forall>k. rel_option (\<lambda>a b. a = b \<or> WatchDocument_eq (engine_decode plain_engine) a b)
          (map_of (client_view batch' (target_documents t)) k) (map_of (target_documents t') k))
    \<and> map fst (target_documents t) = [demo_a] \<and> target_documents t' = []"
proof -
  obtain s s' where s: "snapshot_at_revision demo_state2 1 = Some (Inr s)" "snapshot_at_revision demo_state2 2 = Some (Inr s')"
    using snapshot_of_run [OF demo_run demo_facts(1), of 1] snapshot_of_run [OF demo_run demo_facts(1), of 2]
    by (auto simp: demo_facts(2,3))
  note wf = demo_snapshot_wf [OF s(1)] demo_snapshot_wf [OF s(2)]
  obtain t batch where t: "initialize plain_engine 1 demo_database (DocumentsTarget [demo_a]) Standard s = Inr (t, batch)"
    "map fst (target_documents t) = [demo_a]" "target_database t = demo_database" "target_spec t = DocumentsTarget [demo_a]"
    using wf(1) by (simp add: initialize_def evaluate_def Snapshot_get_def List.map_filter_simps om_of_list_def)
  have "demo_a \<noteq> demo_b" by (simp add: demo_a_def demo_b_def)
  then obtain t' batch' where t': "refresh plain_engine t s' = Inr (t', batch')" "target_documents t' = []"
    using wf(2) t(3,4) by (simp add: refresh_def evaluate_def Let_def Snapshot_get_def List.map_filter_simps om_of_list_def)
  from refresh_delivers [OF t'(1)] s t(1,2) t' show ?thesis
    by (intro exI [of _ s] exI [of _ s'] exI [of _ t] exI [of _ batch] exI [of _ t'] exI [of _ batch']) simp
qed

text \<open>
  C22: Compact documents behave as shared ones. When decoding undoes encoding, two documents kept
  as bytes, as a disk store keeps them, compare equal exactly when the same documents kept in
  memory do, although equal bytes are never decoded; and they show the same fields and account
  for the same logical bytes.
\<close>

theorem compact_equals_shared:
  assumes "\<And>d. decode (encode d) = d"
  shows "WatchDocument_eq decode (WatchDocument_new encode k d p True) (WatchDocument_new encode k' d' p' True)
      = WatchDocument_eq decode (WatchDocument_new encode k d p False) (WatchDocument_new encode k' d' p' False)
    \<and> WatchDocument_fields decode (WatchDocument_new encode k d p True)
      = WatchDocument_fields decode (WatchDocument_new encode k d p False)
    \<and> field_logical_bytes (WatchDocument_new encode k d p True)
      = field_logical_bytes (WatchDocument_new encode k d p False)"
proof -
  have inj: "encode a = encode b \<Longrightarrow> a = b" for a b using assms by metis
  have nan: "Decoded_eq \<lparr>decoded_document = d, decoded_projected = p\<rparr> \<lparr>decoded_document = d, decoded_projected = p\<rparr> =
      (\<not> (fields_have_nan (Document.fields d) \<or> (case p of Some m \<Rightarrow> fields_have_nan m | None \<Rightarrow> False)))"
    by (auto simp: Decoded_eq_def document_eq_refl_iff document_has_nan_def fields_eq_refl_iff fields_have_nan_def
        list_ex_iff split: option.splits)
  show ?thesis
    using nan by (auto simp: WatchDocument_eq_def WatchDocument_new_def WatchDocument_fields_def comparison_view_def
        field_logical_bytes_def Let_def assms dest: inj)
qed

theorem compact_equals_shared_witness:
  "WatchDocument_eq id (WatchDocument_new id demo_a demo_document None True) (WatchDocument_new id demo_a demo_document None True)
    = WatchDocument_eq id (WatchDocument_new id demo_a demo_document None False) (WatchDocument_new id demo_a demo_document None False)"
  using compact_equals_shared [of id id demo_a demo_document None demo_a demo_document None] by simp

end
