(* ===== verification/Leveldb_Log.thy ===== *)
theory Leveldb_Log
  imports Prelude "HOL-Library.Word"
begin

text \<open>
  The LevelDB log format of exports (\<open>export-format/src/leveldb_log.rs\<close>): a writer that cuts
  records into checksummed fragments inside 32 KiB blocks, and a streaming reader that
  reassembles them from an untrusted source within a size limit.

  A \<open>Read\<close> instance is the list of what its calls deliver: pieces of any size, or failures. A
  \<open>Write\<close> instance is a parameter \<open>write_all\<close>. The CRC-32C of the checksum library is the
  parameter \<open>crc32c_append\<close>. The block buffer of the reader is its filled part.
\<close>

type_synonym byte = "8 word"

definition BLOCK_BYTES :: nat where "BLOCK_BYTES = 32768"

definition HEADER_BYTES :: nat where "HEADER_BYTES = 7"

definition CRC_MASK_DELTA :: "32 word" where "CRC_MASK_DELTA = 0xa282ead8"

section \<open>Little-endian numbers\<close>

fun le_bytes :: "nat \<Rightarrow> nat \<Rightarrow> byte list" where
  "le_bytes 0 n = []"
| "le_bytes (Suc k) n = of_nat (n mod 256) # le_bytes k (n div 256)"

fun le_nat :: "byte list \<Rightarrow> nat" where
  "le_nat [] = 0"
| "le_nat (b # bs) = unat b + 256 * le_nat bs"

lemma length_le_bytes [simp]: "length (le_bytes k n) = k"
  by (induction k arbitrary: n) simp_all

lemma le_nat_bytes: "n < 256 ^ k \<Longrightarrow> le_nat (le_bytes k n) = n"
proof (induction k arbitrary: n)
  case (Suc k)
  then have "n div 256 < 256 ^ k" by (simp add: less_mult_imp_div_less mult.commute)
  moreover have "unat (of_nat (n mod 256) :: byte) = n mod 256" by (simp add: unat_of_nat)
  ultimately show ?case using Suc.IH by simp
qed simp

section \<open>Sources\<close>

datatype Delivery = Chunk "byte list" | ReadFails string

type_synonym Source = "Delivery list"

datatype LogError =
    Io string
  | TruncatedHeader nat
  | TruncatedPayload nat
  | InvalidFragmentType nat nat
  | ChecksumMismatch nat "32 word" "32 word"
  | InvalidSequence string
  | IncompleteRecord
  | RecordTooLarge nat

fun source_read :: "nat \<Rightarrow> Source \<Rightarrow> (LogError + byte list) \<times> Source" where
  "source_read n [] = (Inr [], [])"
| "source_read n (ReadFails e # src) = (Inl (Io e), src)"
| "source_read n (Chunk bs # src) =
     (Inr (take n bs), if length bs \<le> n then src else Chunk (drop n bs) # src)"

fun source_bytes :: "Source \<Rightarrow> byte list" where
  "source_bytes [] = []"
| "source_bytes (Chunk bs # src) = bs @ source_bytes src"
| "source_bytes (ReadFails e # src) = source_bytes src"

lemma source_read_bytes:
  "source_read n src = (Inr bs, src') \<Longrightarrow> source_bytes src = bs @ source_bytes src'"
  "source_read n src = (Inl e, src') \<Longrightarrow> source_bytes src = source_bytes src'"
  by (cases "(n, src)" rule: source_read.cases; auto)+

section \<open>Fragments\<close>

datatype FragmentKind = Full | First | Middle | Last

fun fragment_byte :: "FragmentKind \<Rightarrow> byte" where
  "fragment_byte Full = 1"
| "fragment_byte First = 2"
| "fragment_byte Middle = 3"
| "fragment_byte Last = 4"

definition FragmentKind_try_from :: "byte \<Rightarrow> byte + FragmentKind" where
  "FragmentKind_try_from b =
     (if b = 1 then Inr Full else if b = 2 then Inr First else if b = 3 then Inr Middle
      else if b = 4 then Inr Last else Inl b)"

type_synonym Crc = "32 word \<Rightarrow> byte list \<Rightarrow> 32 word"

definition masked_crc :: "Crc \<Rightarrow> FragmentKind \<Rightarrow> byte list \<Rightarrow> 32 word" where
  "masked_crc crc32c_append kind payload =
     (let crc = crc32c_append 0 [fragment_byte kind];
          crc = crc32c_append crc payload
      in word_rotr 15 crc + CRC_MASK_DELTA)"

record PhysicalFragment =
  fragment_kind :: FragmentKind
  fragment_payload :: "byte list"

section \<open>Reader\<close>

record LevelDbLogReader =
  reader_source :: Source
  max_record_bytes :: nat
  block :: "byte list"
  block_position :: nat
  blocks_loaded :: nat
  assembly :: "byte list option"

definition LevelDbLogReader_new :: "Source \<Rightarrow> nat \<Rightarrow> LevelDbLogReader" where
  "LevelDbLogReader_new src limit =
     \<lparr>reader_source = src, max_record_bytes = limit, block = [], block_position = 0,
      blocks_loaded = 0, assembly = None\<rparr>"

function fill_block :: "byte list \<Rightarrow> Source \<Rightarrow> LogError option \<times> byte list \<times> Source" where
  "fill_block buffer src =
     (if BLOCK_BYTES \<le> length buffer then (None, buffer, src)
      else (case source_read (BLOCK_BYTES - length buffer) src of
              (Inl e, src') \<Rightarrow> (Some e, buffer, src')
            | (Inr bs, src') \<Rightarrow> if bs = [] then (None, buffer, src') else fill_block (buffer @ bs) src'))"
  by pat_completeness auto

termination
  by (relation "measure (\<lambda>(buffer, _). BLOCK_BYTES - length buffer)") (auto simp: diff_less_mono2)

declare fill_block.simps [simp del]

definition load_block :: "LevelDbLogReader \<Rightarrow> (LogError + bool) \<times> LevelDbLogReader" where
  "load_block r =
     (case fill_block [] (reader_source r) of
        (Some e, buffer, src) \<Rightarrow>
          (Inl e, r\<lparr>reader_source := src, block := buffer, block_position := 0\<rparr>)
      | (None, buffer, src) \<Rightarrow>
          if buffer = []
          then (Inr False, r\<lparr>reader_source := src, block := buffer, block_position := 0\<rparr>)
          else (Inr True, r\<lparr>reader_source := src, block := buffer, block_position := 0,
                            blocks_loaded := sat_add (blocks_loaded r) 1\<rparr>))"

definition absolute_offset :: "LevelDbLogReader \<Rightarrow> nat" where
  "absolute_offset r =
     sat_add (sat_mul (sat_sub (blocks_loaded r) 1) BLOCK_BYTES) (min (block_position r) u64_max)"

text \<open>One pass of the fragment loop on a block with unread bytes: a fragment, an error, or a skip.\<close>

datatype Pass = Fragment PhysicalFragment nat | Skip | Fail LogError

definition fragment_pass :: "Crc \<Rightarrow> LevelDbLogReader \<Rightarrow> Pass" where
  "fragment_pass crc32c_append r =
     (let unread = drop (block_position r) (block r) in
      if length unread < HEADER_BYTES then
        if list_ex (\<lambda>b. b \<noteq> 0) unread then Fail (TruncatedHeader (absolute_offset r)) else Skip
      else
        (let offset = absolute_offset r;
             header = take HEADER_BYTES unread;
             checksum = word_of_nat (le_nat (take 4 header)) :: 32 word;
             size = le_nat (take 2 (drop 4 header));
             raw_kind = header ! 6
         in if checksum = 0 \<and> size = 0 \<and> raw_kind = 0 then
              if list_ex (\<lambda>b. b \<noteq> 0) unread then Fail (InvalidFragmentType 0 offset) else Skip
            else
              (let payload_start = block_position r + HEADER_BYTES in
               case checked_add_u64 payload_start size of
                 None \<Rightarrow> Fail (TruncatedPayload offset)
               | Some payload_end \<Rightarrow>
                   if length (block r) < payload_end then Fail (TruncatedPayload offset)
                   else (case FragmentKind_try_from raw_kind of
                           Inl b \<Rightarrow> Fail (InvalidFragmentType (unat b) offset)
                         | Inr kind \<Rightarrow>
                             (let payload = take (payload_end - payload_start) (drop payload_start (block r));
                                  actual = masked_crc crc32c_append kind payload
                              in if actual \<noteq> checksum then Fail (ChecksumMismatch offset checksum actual)
                                 else Fragment \<lparr>fragment_kind = kind, fragment_payload = payload\<rparr> payload_end)))))"

definition unread_bytes :: "LevelDbLogReader \<Rightarrow> nat" where
  "unread_bytes r = length (source_bytes (reader_source r)) + (length (block r) - block_position r)
     + (if block_position r = length (block r) then 0 else 1)"

lemma fill_block_bytes:
  "fill_block buffer src = (e, buffer', src') \<Longrightarrow>
    \<exists>bs. buffer' = buffer @ bs \<and> source_bytes src = bs @ source_bytes src'"
proof (induction buffer src rule: fill_block.induct)
  case (1 buffer src)
  show ?case
  proof (cases "BLOCK_BYTES \<le> length buffer")
    case True
    then show ?thesis using 1(2) by (subst (asm) fill_block.simps) simp
  next
    case False
    obtain out src1 where out: "source_read (BLOCK_BYTES - length buffer) src = (out, src1)" by fastforce
    show ?thesis
    proof (cases out)
      case (Inl f)
      then show ?thesis using 1(2) False out source_read_bytes(2) [of "BLOCK_BYTES - length buffer" src f src1]
        by (subst (asm) fill_block.simps) simp
    next
      case (Inr bs)
      note read = source_read_bytes(1) [OF out [unfolded Inr]]
      show ?thesis
      proof (cases "bs = []")
        case True
        then show ?thesis using 1(2) False out Inr read by (subst (asm) fill_block.simps) simp
      next
        case more: False
        then have "fill_block (buffer @ bs) src1 = (e, buffer', src')"
          using 1(2) False out Inr by (subst (asm) fill_block.simps) simp
        from 1(1) [OF False out [symmetric] Inr more this] show ?thesis using read by auto
      qed
    qed
  qed
qed

lemma load_block_unread:
  "load_block r = (Inr True, r') \<Longrightarrow> block_position r' < length (block r')
    \<and> length (source_bytes (reader_source r')) + length (block r') = length (source_bytes (reader_source r))"
  using fill_block_bytes [of "[]" "reader_source r"]
  by (auto simp: load_block_def split: prod.splits option.splits if_splits)

lemma skip_unread:
  assumes "(if block_position r = length (block r) then load_block r else (Inr True, r)) = (Inr True, r')"
  shows "unread_bytes (r'\<lparr>block_position := length (block r')\<rparr>) < unread_bytes r"
proof (cases "block_position r = length (block r)")
  case True
  then have "load_block r = (Inr True, r')" using assms by simp
  from load_block_unread [OF this] True show ?thesis by (auto simp: unread_bytes_def)
next
  case False
  then show ?thesis using assms by (simp add: unread_bytes_def)
qed

function next_fragment :: "Crc \<Rightarrow> LevelDbLogReader \<Rightarrow>
    (LogError + PhysicalFragment option) \<times> LevelDbLogReader" where
  "next_fragment crc32c_append r =
     (case (if block_position r = length (block r) then load_block r else (Inr True, r)) of
        (Inl e, r) \<Rightarrow> (Inl e, r)
      | (Inr False, r) \<Rightarrow> (Inr None, r)
      | (Inr True, r) \<Rightarrow>
          (case fragment_pass crc32c_append r of
             Fail e \<Rightarrow> (Inl e, r)
           | Skip \<Rightarrow> next_fragment crc32c_append (r\<lparr>block_position := length (block r)\<rparr>)
           | Fragment fragment payload_end \<Rightarrow> (Inr (Some fragment), r\<lparr>block_position := payload_end\<rparr>)))"
  by pat_completeness auto

termination
  by (relation "measure (\<lambda>(_, r). unread_bytes r)") (simp_all add: skip_unread)

declare next_fragment.simps [simp del]

lemma fragment_pass_end:
  "fragment_pass crc32c_append r = Fragment fragment e \<Longrightarrow>
    block_position r + HEADER_BYTES \<le> e \<and> e \<le> length (block r)"
  by (auto simp: fragment_pass_def Let_def checked_add_u64_def split: if_splits option.splits sum.splits)

lemma next_fragment_consumes:
  "next_fragment crc32c_append r = (out, r') \<Longrightarrow>
    max_record_bytes r' = max_record_bytes r \<and> assembly r' = assembly r
    \<and> (\<forall>fragment. out = Inr (Some fragment) \<longrightarrow> unread_bytes r' < unread_bytes r)"
proof (induction crc32c_append r rule: next_fragment.induct)
  case (1 crc32c_append r)
  let ?load = "if block_position r = length (block r) then load_block r else (Inr True, r)"
  obtain b r1 where load: "?load = (b, r1)" by fastforce
  have same: "max_record_bytes r1 = max_record_bytes r" "assembly r1 = assembly r"
    using load by (auto simp: load_block_def split: if_splits prod.splits option.splits)
  show ?case
  proof (cases "b = Inr True")
    case False
    then have "(out = Inr None \<or> (\<exists>e. out = Inl e)) \<and> r' = r1"
      using 1(2) load by (subst (asm) next_fragment.simps) (auto split: sum.splits bool.splits)
    then show ?thesis using same by auto
  next
    case True
    note load' = load [unfolded True]
    show ?thesis
    proof (cases "fragment_pass crc32c_append r1")
      case (Fragment fragment e)
      then have out: "out = Inr (Some fragment)" "r' = r1\<lparr>block_position := e\<rparr>"
        using 1(2) load' by (subst (asm) next_fragment.simps, simp)+
      show ?thesis
      proof (cases "block_position r = length (block r)")
        case True
        then have "load_block r = (Inr True, r1)" using load' by simp
        from load_block_unread [OF this] fragment_pass_end [OF Fragment] True same out show ?thesis
          by (auto simp: unread_bytes_def HEADER_BYTES_def)
      next
        case False
        then show ?thesis using load' fragment_pass_end [OF Fragment] same out
          by (auto simp: unread_bytes_def HEADER_BYTES_def)
      qed
    next
      case Skip
      let ?next = "r1\<lparr>block_position := length (block r1)\<rparr>"
      have "next_fragment crc32c_append ?next = (out, r')"
        using 1(2) load' Skip by (subst (asm) next_fragment.simps) simp
      from 1(1) [OF load' [symmetric] refl refl Skip this] same skip_unread [OF load'] show ?thesis by auto
    next
      case (Fail e)
      then show ?thesis using 1(2) load' same by (subst (asm) next_fragment.simps) auto
    qed
  qed
qed

lemma next_fragment_shrinks:
  "next_fragment crc32c_append r = (Inr (Some fragment), r') \<Longrightarrow> unread_bytes r' < unread_bytes r"
  "(Inr (Some fragment), r') = next_fragment crc32c_append r \<Longrightarrow> unread_bytes r' < unread_bytes r"
  using next_fragment_consumes by (blast, metis)

definition check_record_size :: "LevelDbLogReader \<Rightarrow> nat \<Rightarrow> LogError + unit" where
  "check_record_size r n =
     (if max_record_bytes r < n then Inl (RecordTooLarge (max_record_bytes r)) else Inr ())"

definition append_fragment :: "LevelDbLogReader \<Rightarrow> byte list \<Rightarrow> string \<Rightarrow> LogError + LevelDbLogReader" where
  "append_fragment r payload missing_first =
     (case assembly r of
        None \<Rightarrow> Inl (InvalidSequence missing_first)
      | Some current \<Rightarrow>
          (case checked_add_u64 (length current) (length payload) of
             None \<Rightarrow> Inl (RecordTooLarge (max_record_bytes r))
           | Some next_size \<Rightarrow>
               result_bind (check_record_size r next_size) (\<lambda>_.
                 Inr (r\<lparr>assembly := Some (current @ payload)\<rparr>))))"

lemma append_fragment_same:
  "append_fragment r payload m = Inr r' \<Longrightarrow> unread_bytes r' = unread_bytes r
    \<and> max_record_bytes r' = max_record_bytes r
    \<and> (\<exists>record. assembly r' = Some record \<and> length record \<le> max_record_bytes r)"
  by (auto simp: append_fragment_def check_record_size_def unread_bytes_def checked_add_u64_def
      split: option.splits if_splits)

lemma unread_bytes_assembly [simp]: "unread_bytes (r\<lparr>assembly := a\<rparr>) = unread_bytes r"
  by (simp add: unread_bytes_def)

function next_record :: "Crc \<Rightarrow> LevelDbLogReader \<Rightarrow> (LogError + byte list option) \<times> LevelDbLogReader" where
  "next_record crc32c_append r =
     (case next_fragment crc32c_append r of
        (Inl e, r) \<Rightarrow> (Inl e, r)
      | (Inr None, r) \<Rightarrow> (if assembly r \<noteq> None then Inl IncompleteRecord else Inr None, r)
      | (Inr (Some fragment), r) \<Rightarrow>
          (case fragment_kind fragment of
             Full \<Rightarrow>
               (if assembly r \<noteq> None
                then (Inl (InvalidSequence ''FULL fragment interrupted an assembled record''), r)
                else (result_bind (check_record_size r (length (fragment_payload fragment)))
                        (\<lambda>_. Inr (Some (fragment_payload fragment))), r))
           | First \<Rightarrow>
               (if assembly r \<noteq> None
                then (Inl (InvalidSequence ''FIRST fragment interrupted an assembled record''), r)
                else (case check_record_size r (length (fragment_payload fragment)) of
                        Inl e \<Rightarrow> (Inl e, r)
                      | Inr _ \<Rightarrow> next_record crc32c_append (r\<lparr>assembly := Some (fragment_payload fragment)\<rparr>)))
           | Middle \<Rightarrow>
               (case append_fragment r (fragment_payload fragment) ''MIDDLE without FIRST'' of
                  Inl e \<Rightarrow> (Inl e, r)
                | Inr r \<Rightarrow> next_record crc32c_append r)
           | Last \<Rightarrow>
               (case append_fragment r (fragment_payload fragment) ''LAST without FIRST'' of
                  Inl e \<Rightarrow> (Inl e, r)
                | Inr r \<Rightarrow> (Inr (assembly r), r\<lparr>assembly := None\<rparr>))))"
  by pat_completeness auto

termination
  by (relation "measure (\<lambda>(_, r). unread_bytes r)")
    (auto dest!: next_fragment_shrinks append_fragment_same)

declare next_record.simps [simp del]

section \<open>Writer\<close>

text \<open>The underlying \<open>Write\<close>: a call may fail and leaves some state in any case.\<close>

type_synonym 'w Write_All = "'w \<Rightarrow> byte list \<Rightarrow> string option \<times> 'w"

record 'w LevelDbLogWriter =
  log_writer :: 'w
  writer_position :: nat

definition LevelDbLogWriter_new :: "'w \<Rightarrow> 'w LevelDbLogWriter" where
  "LevelDbLogWriter_new w = \<lparr>log_writer = w, writer_position = 0\<rparr>"

fun fragment_kind_of :: "bool \<Rightarrow> bool \<Rightarrow> FragmentKind" where
  "fragment_kind_of True True = Full"
| "fragment_kind_of True False = First"
| "fragment_kind_of False False = Middle"
| "fragment_kind_of False True = Last"

definition fragment_header :: "Crc \<Rightarrow> FragmentKind \<Rightarrow> byte list \<Rightarrow> byte list" where
  "fragment_header crc32c_append kind payload =
     le_bytes 4 (unat (masked_crc crc32c_append kind payload)) @ le_bytes 2 (length payload)
       @ [fragment_byte kind]"

definition pad_block :: "'w Write_All \<Rightarrow> 'w LevelDbLogWriter \<Rightarrow> string option \<times> 'w LevelDbLogWriter" where
  "pad_block write_all w =
     (let remaining_in_block = BLOCK_BYTES - writer_position w in
      if remaining_in_block < HEADER_BYTES
      then (case write_all (log_writer w) (replicate remaining_in_block 0) of
              (Some e, sink) \<Rightarrow> (Some e, w\<lparr>log_writer := sink\<rparr>)
            | (None, sink) \<Rightarrow> (None, w\<lparr>log_writer := sink, writer_position := 0\<rparr>))
      else (None, w))"

text \<open>The end of a pass: both writes of the fragment and the new position.\<close>

definition put_fragment :: "'w Write_All \<Rightarrow> Crc \<Rightarrow> FragmentKind \<Rightarrow> byte list \<Rightarrow> 'w LevelDbLogWriter \<Rightarrow>
    string option \<times> 'w LevelDbLogWriter" where
  "put_fragment write_all crc32c_append kind payload w =
     (if 65535 < length payload then (Some ''physical fragment length exceeds u16'', w)
      else (case write_all (log_writer w) (fragment_header crc32c_append kind payload) of
              (Some e, sink) \<Rightarrow> (Some e, w\<lparr>log_writer := sink\<rparr>)
            | (None, sink) \<Rightarrow>
                (case write_all sink payload of
                   (Some e, sink) \<Rightarrow> (Some e, w\<lparr>log_writer := sink\<rparr>)
                 | (None, sink) \<Rightarrow>
                     (let position = writer_position w + HEADER_BYTES + length payload
                      in (None, w\<lparr>log_writer := sink,
                                  writer_position := (if position = BLOCK_BYTES then 0 else position)\<rparr>)))))"

lemma pad_block_position:
  "pad_block write_all w = (None, w') \<Longrightarrow>
    writer_position w' + HEADER_BYTES \<le> BLOCK_BYTES \<and> (writer_position w' = 0 \<or> w' = w)"
  by (auto simp: pad_block_def BLOCK_BYTES_def HEADER_BYTES_def Let_def split: if_splits prod.splits option.splits)

lemma put_fragment_position:
  "put_fragment write_all crc32c_append kind payload w = (None, w') \<Longrightarrow>
    writer_position w' = (if writer_position w + HEADER_BYTES + length payload = BLOCK_BYTES then 0
      else writer_position w + HEADER_BYTES + length payload)"
  by (auto simp: put_fragment_def Let_def split: if_splits prod.splits option.splits)

lemma write_fragments_progress:
  assumes "pad_block write_all w = (None, w1)" "n = min remaining (BLOCK_BYTES - writer_position w1 - HEADER_BYTES)"
    "put_fragment write_all crc32c_append kind payload w1 = (None, w2)" "n \<noteq> remaining" "length payload = n"
  shows "0 < n \<or> writer_position w + HEADER_BYTES = BLOCK_BYTES \<and> writer_position w2 = 0"
  using pad_block_position [OF assms(1)] put_fragment_position [OF assms(3)] assms(2,4,5)
  by (auto simp: BLOCK_BYTES_def HEADER_BYTES_def min_def split: if_splits)

function write_fragments :: "'w Write_All \<Rightarrow> Crc \<Rightarrow> byte list \<Rightarrow> nat \<Rightarrow> bool \<Rightarrow> 'w LevelDbLogWriter \<Rightarrow>
    string option \<times> 'w LevelDbLogWriter" where
  "write_fragments write_all crc32c_append record position first w =
     (case pad_block write_all w of
        (Some e, w) \<Rightarrow> (Some e, w)
      | (None, w) \<Rightarrow>
          (let capacity = BLOCK_BYTES - writer_position w - HEADER_BYTES;
               remaining = length record - position;
               size = min remaining capacity;
               last = (size = remaining)
           in (case put_fragment write_all crc32c_append (fragment_kind_of first last)
                      (take size (drop position record)) w of
                 (Some e, w) \<Rightarrow> (Some e, w)
               | (None, w) \<Rightarrow>
                   if last then (None, w)
                   else write_fragments write_all crc32c_append record (position + size) False w)))"
  by pat_completeness auto

termination
proof (relation "measures [\<lambda>(_, _, data, position, _, _). length data - position,
    \<lambda>(_, _, _, _, _, w). if writer_position w + HEADER_BYTES = BLOCK_BYTES then 1 else 0]", simp)
  fix write_all :: "'w Write_All" and crc32c_append data position first w x w1 capacity remaining n last y w2
  assume *: "(x, w1) = pad_block write_all w" "x = None"
    "capacity = BLOCK_BYTES - writer_position w1 - HEADER_BYTES" "remaining = length (data :: byte list) - position"
    "n = min remaining capacity" "last = (n = remaining)"
    "(y, w2) = put_fragment write_all crc32c_append (fragment_kind_of first last) (take n (drop position data)) w1"
    "y = None" "\<not> last"
  have payload: "length (take n (drop position data)) = n" using *(4,5) by auto
  have "0 < n \<or> writer_position w + HEADER_BYTES = BLOCK_BYTES \<and> writer_position w2 = 0"
    by (rule write_fragments_progress [OF _ _ _ _ payload, of write_all w w1 remaining])
      (use * in \<open>simp_all add: eq_commute [of "(None, w1)"] eq_commute [of "(None, w2)"]\<close>)
  moreover have "n < remaining" using *(4-6,9) by auto
  ultimately show "((write_all, crc32c_append, data, position + n, False, w2), write_all, crc32c_append, data, position, first, w)
      \<in> measures [\<lambda>(_, _, data, position, _, _). length data - position,
        \<lambda>(_, _, _, _, _, w). if writer_position w + HEADER_BYTES = BLOCK_BYTES then 1 else 0]"
    using *(4) by (auto simp: HEADER_BYTES_def BLOCK_BYTES_def)
qed

declare write_fragments.simps [simp del]

definition write_record :: "'w Write_All \<Rightarrow> Crc \<Rightarrow> byte list \<Rightarrow> 'w LevelDbLogWriter \<Rightarrow>
    string option \<times> 'w LevelDbLogWriter" where
  "write_record write_all crc32c_append record w = write_fragments write_all crc32c_append record 0 True w"

end
