(* ===== verification/Leveldb_Log_Props.thy ===== *)
theory Leveldb_Log_Props
  imports Leveldb_Log
begin

text \<open>
  What the log format promises: whatever the writer wrote, the reader returns, for every way the
  source cuts the bytes into pieces; a truncated log never yields a record that was not written;
  and an untrusted source never makes the reader hold more than its limit.
\<close>

section \<open>Reader positions\<close>

definition good_source :: "Source \<Rightarrow> bool" where
  "good_source src = (\<forall>d\<in>set src. case d of Chunk bs \<Rightarrow> bs \<noteq> [] | ReadFails _ \<Rightarrow> False)"

text \<open>The reader stands at position \<open>p\<close> of a block and the bytes \<open>bs\<close> are still to come.\<close>

definition reader_at :: "LevelDbLogReader \<Rightarrow> nat \<Rightarrow> byte list \<Rightarrow> bool" where
  "reader_at r p bs =
     (good_source (reader_source r)
      \<and> (if block_position r = length (block r)
         then bs = source_bytes (reader_source r) \<and> (p = 0 \<or> bs = [])
         else block_position r = p \<and> p < length (block r) \<and> length (block r) \<le> BLOCK_BYTES
           \<and> bs = drop p (block r) @ source_bytes (reader_source r)
           \<and> (length (block r) = BLOCK_BYTES \<or> source_bytes (reader_source r) = [])))"

lemma reader_at_assembly [simp]: "reader_at (r\<lparr>assembly := a\<rparr>) p bs = reader_at r p bs"
  by (simp add: reader_at_def)

definition same_assembly :: "LevelDbLogReader \<Rightarrow> LevelDbLogReader \<Rightarrow> bool" where
  "same_assembly r r' = (assembly r' = assembly r \<and> max_record_bytes r' = max_record_bytes r)"

lemma good_source_read:
  "good_source src \<Longrightarrow> 0 < n \<Longrightarrow>
    \<exists>bs src'. source_read n src = (Inr bs, src') \<and> good_source src' \<and> length bs \<le> n
      \<and> (bs = [] \<longrightarrow> source_bytes src = [] \<and> src' = []) \<and> source_bytes src = bs @ source_bytes src'"
  by (cases "(n, src)" rule: source_read.cases) (auto simp: good_source_def)

lemma fill_block_good:
  "good_source src \<Longrightarrow> length buffer \<le> BLOCK_BYTES \<Longrightarrow>
    \<exists>src'. fill_block buffer src = (None, buffer @ take (BLOCK_BYTES - length buffer) (source_bytes src), src')
      \<and> good_source src' \<and> source_bytes src' = drop (BLOCK_BYTES - length buffer) (source_bytes src)"
proof (induction buffer src rule: fill_block.induct)
  case (1 buffer src)
  show ?case
  proof (cases "BLOCK_BYTES \<le> length buffer")
    case True
    then show ?thesis using 1(2,3) by (subst fill_block.simps) simp
  next
    case False
    obtain bs src' where read: "source_read (BLOCK_BYTES - length buffer) src = (Inr bs, src')" "good_source src'"
      "length bs \<le> BLOCK_BYTES - length buffer" "bs = [] \<longrightarrow> source_bytes src = [] \<and> src' = []"
      "source_bytes src = bs @ source_bytes src'"
      using good_source_read [OF 1(2), of "BLOCK_BYTES - length buffer"] False by auto
    show ?thesis
    proof (cases "bs = []")
      case True
      then show ?thesis using read False by (subst fill_block.simps) simp
    next
      case more: False
      have "length (buffer @ bs) \<le> BLOCK_BYTES" using read(3) False by simp
      from 1(1) [OF False read(1) [symmetric] refl more read(2) this] show ?thesis
        using False read more by (subst fill_block.simps) (auto simp: take_append drop_append)
    qed
  qed
qed

definition ready :: "LevelDbLogReader \<Rightarrow> (LogError + bool) \<times> LevelDbLogReader" where
  "ready r = (if block_position r = length (block r) then load_block r else (Inr True, r))"

lemma next_fragment_ready:
  "ready r = (Inr True, r1) \<Longrightarrow> next_fragment crc32c_append r =
    (case fragment_pass crc32c_append r1 of
       Fail e \<Rightarrow> (Inl e, r1)
     | Skip \<Rightarrow> next_fragment crc32c_append (r1\<lparr>block_position := length (block r1)\<rparr>)
     | Fragment fragment payload_end \<Rightarrow> (Inr (Some fragment), r1\<lparr>block_position := payload_end\<rparr>))"
  by (subst next_fragment.simps) (simp add: ready_def)

lemma reader_at_ready:
  assumes "reader_at r p bs" "bs \<noteq> []"
  shows "\<exists>r1. ready r = (Inr True, r1) \<and> reader_at r1 p bs \<and> block_position r1 = p
    \<and> p < length (block r1) \<and> same_assembly r r1"
proof (cases "block_position r = length (block r)")
  case True
  then have at: "good_source (reader_source r)" "bs = source_bytes (reader_source r)" "p = 0"
    using assms by (auto simp: reader_at_def)
  obtain src' where "fill_block [] (reader_source r) = (None, take BLOCK_BYTES bs, src')" "good_source src'"
    "source_bytes src' = drop BLOCK_BYTES bs"
    using fill_block_good [OF at(1), of "[]"] at(2) by auto
  moreover have "take BLOCK_BYTES bs \<noteq> []" using assms(2) by (simp add: BLOCK_BYTES_def)
  ultimately show ?thesis
    using True at(3) by (auto simp: ready_def load_block_def reader_at_def same_assembly_def min_def)
next
  case False
  then show ?thesis using assms by (auto simp: ready_def reader_at_def same_assembly_def)
qed

lemma reader_at_end:
  assumes "reader_at r p []"
  shows "\<exists>r'. next_fragment crc32c_append r = (Inr None, r') \<and> reader_at r' p [] \<and> same_assembly r r'"
proof -
  have at: "good_source (reader_source r)" "source_bytes (reader_source r) = []" "block_position r = length (block r)"
    using assms by (auto simp: reader_at_def split: if_splits)
  obtain src' where "fill_block [] (reader_source r) = (None, [], src')" "good_source src'" "source_bytes src' = []"
    using fill_block_good [OF at(1), of "[]"] at(2) by auto
  then show ?thesis
    using at(3) by (subst next_fragment.simps) (simp add: load_block_def reader_at_def same_assembly_def)
qed

text \<open>What lies ahead within the block is what is still to come.\<close>

lemma reader_at_window:
  assumes "reader_at r p bs" "block_position r = p" "p < length (block r)" "k \<le> BLOCK_BYTES - p" "k \<le> length bs"
  shows "p + k \<le> length (block r)" "take k (drop p (block r)) = take k bs"
  using assms by (auto simp: reader_at_def)

lemma reader_at_advance:
  assumes "reader_at r p (ds @ bs)" "block_position r = p" "p < length (block r)" "p + length ds \<le> BLOCK_BYTES"
  shows "reader_at (r\<lparr>block_position := p + length ds\<rparr>)
    (if p + length ds = BLOCK_BYTES then 0 else p + length ds) bs"
proof -
  have le: "p + length ds \<le> length (block r)"
    using reader_at_window(1) [OF assms(1-3), of "length ds"] assms(4) by simp
  then have "bs = drop (p + length ds) (block r) @ source_bytes (reader_source r)"
    if "drop p (block r) @ source_bytes (reader_source r) = ds @ bs"
    using arg_cong [OF that, of "drop (length ds)"] by (simp add: add.commute)
  then show ?thesis using assms le by (auto simp: reader_at_def)
qed

section \<open>Fragments\<close>

lemma length_fragment_header [simp]: "length (fragment_header crc32c_append kind payload) = HEADER_BYTES"
  by (simp add: fragment_header_def HEADER_BYTES_def)

lemma fragment_header_not_Nil [simp]: "fragment_header crc32c_append kind payload \<noteq> []"
  by (simp add: fragment_header_def)

lemma fragment_byte_simps [simp]:
  "FragmentKind_try_from (fragment_byte kind) = Inr kind" "fragment_byte kind \<noteq> 0"
  by (cases kind; simp add: FragmentKind_try_from_def)+

lemma fragment_header_parts:
  assumes "length payload \<le> 65535"
  shows "word_of_nat (le_nat (take 4 (fragment_header crc32c_append kind payload)))
      = masked_crc crc32c_append kind payload"
    "le_nat (take 2 (drop 4 (fragment_header crc32c_append kind payload))) = length payload"
    "fragment_header crc32c_append kind payload ! 6 = fragment_byte kind"
proof -
  have "unat (masked_crc crc32c_append kind payload) < 2 ^ LENGTH(32)" by (rule unsigned_less)
  then have "unat (masked_crc crc32c_append kind payload) < 256 ^ 4" by simp
  then show "word_of_nat (le_nat (take 4 (fragment_header crc32c_append kind payload)))
      = masked_crc crc32c_append kind payload"
    by (simp add: fragment_header_def le_nat_bytes)
  have "length payload < 256 ^ 2" using assms by simp
  then show "le_nat (take 2 (drop 4 (fragment_header crc32c_append kind payload))) = length payload"
    by (simp add: fragment_header_def le_nat_bytes)
  show "fragment_header crc32c_append kind payload ! 6 = fragment_byte kind"
    by (simp add: fragment_header_def nth_append)
qed

text \<open>A whole fragment that fits into the block is read as it was written.\<close>

lemma next_fragment_whole:
  assumes at: "reader_at r p (fragment_header crc32c_append kind payload @ payload @ bs)"
    and fits: "p + HEADER_BYTES + length payload \<le> BLOCK_BYTES"
  shows "\<exists>r'. next_fragment crc32c_append r =
      (Inr (Some \<lparr>fragment_kind = kind, fragment_payload = payload\<rparr>), r')
    \<and> same_assembly r r'
    \<and> reader_at r' (if p + HEADER_BYTES + length payload = BLOCK_BYTES then 0 else p + HEADER_BYTES + length payload) bs"
proof -
  let ?header = "fragment_header crc32c_append kind payload"
  have "?header @ payload @ bs \<noteq> []" by (simp add: fragment_header_def)
  from reader_at_ready [OF at this] obtain r1 where r1: "ready r = (Inr True, r1)"
    "reader_at r1 p (?header @ payload @ bs)" "block_position r1 = p" "p < length (block r1)" "same_assembly r r1"
    by blast
  have size: "length payload \<le> 65535" using fits by (simp add: BLOCK_BYTES_def)
  have window: "p + (HEADER_BYTES + length payload) \<le> length (block r1)"
    "take (HEADER_BYTES + length payload) (drop p (block r1)) = ?header @ payload"
    using reader_at_window [OF r1(2-4), of "HEADER_BYTES + length payload"] fits by simp_all
  have header: "take HEADER_BYTES (drop p (block r1)) = ?header"
    using arg_cong [OF window(2), of "take HEADER_BYTES"] by simp
  have payload: "take (length payload) (drop (p + HEADER_BYTES) (block r1)) = payload"
    using arg_cong [OF window(2), of "drop HEADER_BYTES"] by (simp add: drop_take add.commute)
  have fits64: "checked_add_u64 (p + HEADER_BYTES) (length payload) = Some (p + HEADER_BYTES + length payload)"
    using fits by (simp add: checked_add_u64_def u64_max_def BLOCK_BYTES_def)
  have "fragment_pass crc32c_append r1 =
      Fragment \<lparr>fragment_kind = kind, fragment_payload = payload\<rparr> (p + HEADER_BYTES + length payload)"
    using window(1) r1(3) by (simp add: fragment_pass_def Let_def header payload fits64
        fragment_header_parts [OF size] add.assoc)
  then show ?thesis
    using next_fragment_ready [OF r1(1), of crc32c_append] r1(5) fits
      reader_at_advance [OF r1(2) [folded append_assoc] r1(3,4)]
    by (auto simp: same_assembly_def add.assoc split: if_splits)
qed

text \<open>Zeros that pad a block are skipped.\<close>

lemma next_fragment_padding:
  assumes at: "reader_at r p (replicate (BLOCK_BYTES - p) 0 @ bs)"
    and pad: "BLOCK_BYTES - p < HEADER_BYTES" "p < BLOCK_BYTES"
  shows "\<exists>r'. next_fragment crc32c_append r = next_fragment crc32c_append r' \<and> same_assembly r r' \<and> reader_at r' 0 bs"
proof -
  have "replicate (BLOCK_BYTES - p) 0 @ bs \<noteq> []" using pad(2) by simp
  from reader_at_ready [OF at this] obtain r1 where r1: "ready r = (Inr True, r1)"
    "reader_at r1 p (replicate (BLOCK_BYTES - p) 0 @ bs)" "block_position r1 = p" "p < length (block r1)" "same_assembly r r1"
    by blast
  have window: "p + (BLOCK_BYTES - p) \<le> length (block r1)"
    "take (BLOCK_BYTES - p) (drop p (block r1)) = replicate (BLOCK_BYTES - p) 0"
    using reader_at_window [OF r1(2-4), of "BLOCK_BYTES - p"] by simp_all
  have full: "length (block r1) = BLOCK_BYTES" using window(1) r1(2-4) pad by (auto simp: reader_at_def)
  then have "drop p (block r1) = replicate (BLOCK_BYTES - p) 0" using window(2) by simp
  then have "fragment_pass crc32c_append r1 = Skip"
    using pad r1(3) by (simp add: fragment_pass_def list_ex_iff)
  then show ?thesis
    using next_fragment_ready [OF r1(1), of crc32c_append] reader_at_advance [OF r1(2-4)] r1(5) pad full
    by (intro exI [of _ "r1\<lparr>block_position := length (block r1)\<rparr>"]) (simp add: same_assembly_def)
qed

text \<open>A log that ends inside a fragment or inside padding yields no fragment.\<close>

definition stops :: "LogError + 'a option \<Rightarrow> bool" where
  "stops out = (out = Inr None \<or> (\<exists>e. out = Inl e))"

lemma stops_simps [simp]: "stops (Inl e)" "stops (Inr None)" "\<not> stops (Inr (Some x))"
  by (simp_all add: stops_def)

lemma cut_ready:
  assumes "reader_at r p bs" "bs \<noteq> []" "length bs < BLOCK_BYTES - p"
  shows "\<exists>r1. ready r = (Inr True, r1) \<and> block_position r1 = p \<and> drop p (block r1) = bs
    \<and> length (block r1) = p + length bs \<and> reader_at (r1\<lparr>block_position := length (block r1)\<rparr>) 0 []"
proof -
  obtain r1 where r1: "ready r = (Inr True, r1)" "reader_at r1 p bs" "block_position r1 = p" "p < length (block r1)"
    using reader_at_ready [OF assms(1,2)] by blast
  then show ?thesis using assms(3) by (auto simp: reader_at_def)
qed

lemma next_fragment_short:
  assumes "reader_at r p bs" "length bs < HEADER_BYTES" "length bs < BLOCK_BYTES - p"
  shows "stops (fst (next_fragment crc32c_append r))"
proof (cases "bs = []")
  case True
  then show ?thesis using reader_at_end [of r p crc32c_append] assms(1) by auto
next
  case False
  obtain r1 where r1: "ready r = (Inr True, r1)" "block_position r1 = p" "drop p (block r1) = bs"
    "reader_at (r1\<lparr>block_position := length (block r1)\<rparr>) 0 []"
    using cut_ready [OF assms(1) False assms(3)] by blast
  have "(\<exists>e. fragment_pass crc32c_append r1 = Fail e) \<or> fragment_pass crc32c_append r1 = Skip"
    using assms(2) r1(2,3) by (simp add: fragment_pass_def)
  then show ?thesis
    using next_fragment_ready [OF r1(1), of crc32c_append] reader_at_end [OF r1(4), of crc32c_append] by auto
qed

lemma next_fragment_cut:
  assumes "reader_at r p (take m (fragment_header crc32c_append kind payload @ payload))"
    "m < HEADER_BYTES + length payload" "p + HEADER_BYTES + length payload \<le> BLOCK_BYTES"
  shows "stops (fst (next_fragment crc32c_append r))"
proof (cases "m < HEADER_BYTES")
  case True
  then show ?thesis using next_fragment_short [OF assms(1)] assms(2,3) by simp
next
  case False
  let ?bs = "take m (fragment_header crc32c_append kind payload @ payload)"
  have bs: "length ?bs = m" "length ?bs < BLOCK_BYTES - p" "?bs \<noteq> []"
    using assms(2,3) False by (simp_all add: HEADER_BYTES_def del: take_append)
  obtain r1 where r1: "ready r = (Inr True, r1)" "block_position r1 = p" "drop p (block r1) = ?bs"
    "length (block r1) = p + length ?bs"
    using cut_ready [OF assms(1) bs(3,2)] by blast
  have header: "take HEADER_BYTES ?bs = fragment_header crc32c_append kind payload" using False by simp
  have "fragment_pass crc32c_append r1 = Fail (TruncatedPayload (absolute_offset r1))"
    unfolding fragment_pass_def Let_def r1(2,3) header
    using False assms(2,3) bs(1) r1(4)
    by (simp add: fragment_header_parts checked_add_u64_def u64_max_def BLOCK_BYTES_def del: take_append)
  then show ?thesis using next_fragment_ready [OF r1(1), of crc32c_append] by simp
qed

lemma stops_next_record:
  "stops (fst (next_fragment crc32c_append r)) \<Longrightarrow> stops (fst (next_record crc32c_append r))"
  by (subst next_record.simps) (auto simp: stops_def split: prod.splits)

section \<open>Records\<close>

definition vec_write_all :: "byte list Write_All" where
  "vec_write_all sink bs = (None, sink @ bs)"

lemma pad_block_vec:
  "pad_block vec_write_all w =
    (None, if BLOCK_BYTES - writer_position w < HEADER_BYTES
       then w\<lparr>log_writer := log_writer w @ replicate (BLOCK_BYTES - writer_position w) 0, writer_position := 0\<rparr> else w)"
  by (simp add: pad_block_def vec_write_all_def Let_def)

lemma put_fragment_vec:
  "length payload \<le> 65535 \<Longrightarrow> put_fragment vec_write_all crc32c_append kind payload w =
    (None, w\<lparr>log_writer := log_writer w @ fragment_header crc32c_append kind payload @ payload,
      writer_position := (if writer_position w + HEADER_BYTES + length payload = BLOCK_BYTES then 0
        else writer_position w + HEADER_BYTES + length payload)\<rparr>)"
  by (simp add: put_fragment_def vec_write_all_def)

lemma next_record_cong:
  "next_fragment crc32c_append r = next_fragment crc32c_append r' \<Longrightarrow>
    next_record crc32c_append r = next_record crc32c_append r'"
  by (subst (1 2) next_record.simps) simp

text \<open>One pass of the writer and one of the reader.\<close>

definition read_back :: "Crc \<Rightarrow> byte list \<Rightarrow> nat \<Rightarrow> nat \<Rightarrow> bool \<Rightarrow> byte list \<Rightarrow> nat \<Rightarrow> bool" where
  "read_back crc32c_append data position p first ds p' =
     (\<forall>r bs. reader_at r p (ds @ bs) \<longrightarrow> length data \<le> max_record_bytes r \<longrightarrow>
        assembly r = (if first then None else Some (take position data)) \<longrightarrow>
        (\<exists>r'. next_record crc32c_append r = (Inr (Some data), r') \<and> reader_at r' p' bs
          \<and> assembly r' = None \<and> max_record_bytes r' = max_record_bytes r))"

lemma read_back_pad:
  assumes "read_back crc32c_append data position 0 first ds p'" "BLOCK_BYTES - p < HEADER_BYTES" "p < BLOCK_BYTES"
  shows "read_back crc32c_append data position p first (replicate (BLOCK_BYTES - p) 0 @ ds) p'"
  unfolding read_back_def
proof (intro allI impI)
  fix r bs
  assume r: "reader_at r p ((replicate (BLOCK_BYTES - p) 0 @ ds) @ bs)" "length data \<le> max_record_bytes r"
    "assembly r = (if first then None else Some (take position data))"
  obtain r1 where r1: "next_fragment crc32c_append r = next_fragment crc32c_append r1" "same_assembly r r1"
    "reader_at r1 0 (ds @ bs)"
    using next_fragment_padding [of r p "ds @ bs"] r(1) assms(2,3) by auto
  then have "length data \<le> max_record_bytes r1" "assembly r1 = (if first then None else Some (take position data))"
    using r(2,3) by (simp_all add: same_assembly_def)
  with assms(1) r1(2,3) show "\<exists>r'. next_record crc32c_append r = (Inr (Some data), r') \<and> reader_at r' p' bs
      \<and> assembly r' = None \<and> max_record_bytes r' = max_record_bytes r"
    unfolding next_record_cong [OF r1(1)] read_back_def same_assembly_def by metis
qed

text \<open>A proper prefix of what the writer appends for a record gives no record.\<close>

definition cut_safe :: "Crc \<Rightarrow> byte list \<Rightarrow> nat \<Rightarrow> nat \<Rightarrow> bool \<Rightarrow> byte list \<Rightarrow> bool" where
  "cut_safe crc32c_append data position p first ds =
     (\<forall>r m. reader_at r p (take m ds) \<longrightarrow> m < length ds \<longrightarrow> length data \<le> max_record_bytes r \<longrightarrow>
        assembly r = (if first then None else Some (take position data)) \<longrightarrow>
        stops (fst (next_record crc32c_append r)))"

lemma cut_safe_pad:
  assumes "cut_safe crc32c_append data position 0 first ds" "BLOCK_BYTES - p < HEADER_BYTES" "p < BLOCK_BYTES"
  shows "cut_safe crc32c_append data position p first (replicate (BLOCK_BYTES - p) 0 @ ds)"
  unfolding cut_safe_def
proof (intro allI impI)
  fix r m
  assume r: "reader_at r p (take m (replicate (BLOCK_BYTES - p) 0 @ ds))" "m < length (replicate (BLOCK_BYTES - p) 0 @ ds)"
    "length data \<le> max_record_bytes r" "assembly r = (if first then None else Some (take position data))"
  show "stops (fst (next_record crc32c_append r))"
  proof (cases "m < BLOCK_BYTES - p")
    case True
    then show ?thesis
      using next_fragment_short [OF r(1)] assms(2) by (intro stops_next_record) simp
  next
    case False
    then obtain r1 where r1: "next_fragment crc32c_append r = next_fragment crc32c_append r1" "same_assembly r r1"
      "reader_at r1 0 (take (m - (BLOCK_BYTES - p)) ds)"
      using next_fragment_padding [of r p "take (m - (BLOCK_BYTES - p)) ds"] r(1) assms(2,3) by auto
    have "m - (BLOCK_BYTES - p) < length ds" using r(2) False by simp
    with assms(1) r1(2,3) r(3,4) show ?thesis
      unfolding next_record_cong [OF r1(1)] cut_safe_def same_assembly_def by metis
  qed
qed

lemma read_back_last:
  assumes "p + HEADER_BYTES + n \<le> BLOCK_BYTES" "position \<le> length data" "length data \<le> u64_max"
    "payload = take n (drop position data)" "n = length data - position" "first \<longrightarrow> position = 0"
  shows "read_back crc32c_append data position p first
    (fragment_header crc32c_append (fragment_kind_of first True) payload @ payload)
    (if p + HEADER_BYTES + n = BLOCK_BYTES then 0 else p + HEADER_BYTES + n)"
  unfolding read_back_def
proof (intro allI impI)
  let ?p' = "if p + HEADER_BYTES + n = BLOCK_BYTES then 0 else p + HEADER_BYTES + n"
  have payload: "payload = drop position data" "length payload = n" "position + n = length data"
    using assms(2,4,5) by simp_all
  fix r bs
  assume r: "reader_at r p ((fragment_header crc32c_append (fragment_kind_of first True) payload @ payload) @ bs)"
    "length data \<le> max_record_bytes r" "assembly r = (if first then None else Some (take position data))"
  obtain r1 where r1: "next_fragment crc32c_append r =
      (Inr (Some \<lparr>fragment_kind = fragment_kind_of first True, fragment_payload = payload\<rparr>), r1)"
    "same_assembly r r1" "reader_at r1 ?p' bs"
    using next_fragment_whole [of r p crc32c_append "fragment_kind_of first True" payload bs] r(1) assms(1) payload(2) by auto
  show "\<exists>r'. next_record crc32c_append r = (Inr (Some data), r') \<and> reader_at r' ?p' bs
      \<and> assembly r' = None \<and> max_record_bytes r' = max_record_bytes r"
  proof (cases first)
    case True
    then show ?thesis
      using r(2,3) r1 payload assms(6)
      by (subst next_record.simps) (simp add: check_record_size_def same_assembly_def)
  next
    case False
    then show ?thesis
      using r(2,3) r1 assms(2,3) payload
      by (subst next_record.simps)
        (simp add: append_fragment_def check_record_size_def same_assembly_def checked_add_u64_def not_less
          split: if_splits)
  qed
qed

lemma record_continues:
  assumes "next_fragment crc32c_append r =
      (Inr (Some \<lparr>fragment_kind = fragment_kind_of first False, fragment_payload = payload\<rparr>), r1)"
    "same_assembly r r1" "length data \<le> max_record_bytes r"
    "assembly r = (if first then None else Some (take position data))"
    "payload = take n (drop position data)" "position + n \<le> length data" "length data \<le> u64_max" "first \<longrightarrow> position = 0"
  shows "next_record crc32c_append r = next_record crc32c_append (r1\<lparr>assembly := Some (take (position + n) data)\<rparr>)"
proof (cases first)
  case True
  then show ?thesis
    using assms by (subst next_record.simps) (simp add: check_record_size_def same_assembly_def)
next
  case False
  then show ?thesis
    using assms
    by (subst next_record.simps)
      (simp add: append_fragment_def check_record_size_def same_assembly_def checked_add_u64_def not_less take_add)
qed

lemma read_back_more:
  assumes "p + HEADER_BYTES + n = BLOCK_BYTES" "position + n \<le> length data" "length data \<le> u64_max"
    "payload = take n (drop position data)" "first \<longrightarrow> position = 0"
    and rest: "read_back crc32c_append data (position + n) 0 False ds p'"
  shows "read_back crc32c_append data position p first
    ((fragment_header crc32c_append (fragment_kind_of first False) payload @ payload) @ ds) p'"
  unfolding read_back_def
proof (intro allI impI)
  fix r bs
  assume r: "reader_at r p (((fragment_header crc32c_append (fragment_kind_of first False) payload @ payload) @ ds) @ bs)"
    "length data \<le> max_record_bytes r" "assembly r = (if first then None else Some (take position data))"
  have size: "length payload = n" using assms(2,4) by simp
  obtain r1 where r1: "next_fragment crc32c_append r =
      (Inr (Some \<lparr>fragment_kind = fragment_kind_of first False, fragment_payload = payload\<rparr>), r1)"
    "same_assembly r r1" "reader_at r1 0 (ds @ bs)"
    using next_fragment_whole [of r p crc32c_append "fragment_kind_of first False" payload "ds @ bs"] r(1) assms(1) size
    by auto
  let ?r2 = "r1\<lparr>assembly := Some (take (position + n) data)\<rparr>"
  have "reader_at ?r2 0 (ds @ bs)" "length data \<le> max_record_bytes ?r2"
    using r1(2,3) r(2) by (simp_all add: same_assembly_def)
  then show "\<exists>r'. next_record crc32c_append r = (Inr (Some data), r') \<and> reader_at r' p' bs
      \<and> assembly r' = None \<and> max_record_bytes r' = max_record_bytes r"
    using rest r1(2) record_continues [OF r1(1,2) r(2,3) assms(4,2,3,5)]
    unfolding read_back_def same_assembly_def by fastforce
qed

lemma cut_safe_last:
  assumes "p + HEADER_BYTES + length payload \<le> BLOCK_BYTES"
  shows "cut_safe crc32c_append data position p first (fragment_header crc32c_append kind payload @ payload)"
  unfolding cut_safe_def using next_fragment_cut assms by (auto intro!: stops_next_record)

lemma cut_safe_more:
  assumes "p + HEADER_BYTES + n = BLOCK_BYTES" "position + n \<le> length data" "length data \<le> u64_max"
    "payload = take n (drop position data)" "first \<longrightarrow> position = 0"
    and rest: "cut_safe crc32c_append data (position + n) 0 False ds"
  shows "cut_safe crc32c_append data position p first
    ((fragment_header crc32c_append (fragment_kind_of first False) payload @ payload) @ ds)"
  unfolding cut_safe_def
proof (intro allI impI)
  let ?fragment = "fragment_header crc32c_append (fragment_kind_of first False) payload @ payload"
  fix r m
  assume r: "reader_at r p (take m (?fragment @ ds))" "m < length (?fragment @ ds)"
    "length data \<le> max_record_bytes r" "assembly r = (if first then None else Some (take position data))"
  have size: "length payload = n" "length ?fragment = HEADER_BYTES + n" using assms(2,4) by simp_all
  show "stops (fst (next_record crc32c_append r))"
  proof (cases "m < length ?fragment")
    case True
    then have "reader_at r p (take m ?fragment)" using r(1) by simp
    then show ?thesis
      using next_fragment_cut True size assms(1) by (intro stops_next_record) simp
  next
    case False
    let ?rest = "take (m - length ?fragment) ds"
    have whole: "take m (?fragment @ ds) = ?fragment @ ?rest" using False by simp
    have "reader_at r p (?fragment @ ?rest)" using r(1) unfolding whole .
    then obtain r1 where r1: "next_fragment crc32c_append r =
        (Inr (Some \<lparr>fragment_kind = fragment_kind_of first False, fragment_payload = payload\<rparr>), r1)"
      "same_assembly r r1" "reader_at r1 0 ?rest"
      using next_fragment_whole [of r p crc32c_append "fragment_kind_of first False" payload ?rest] assms(1) size(1)
      by auto
    let ?r2 = "r1\<lparr>assembly := Some (take (position + n) data)\<rparr>"
    have "m - length ?fragment < length ds" using r(2) False by (simp only: length_append)
    moreover have "reader_at ?r2 0 ?rest" "length data \<le> max_record_bytes ?r2"
      "assembly ?r2 = (if False then None else Some (take (position + n) data))"
      using r1(2,3) r(3) by (simp_all add: same_assembly_def)
    ultimately show ?thesis
      using rest record_continues [OF r1(1,2) r(3,4) assms(4,2,3,5)] unfolding cut_safe_def by metis
  qed
qed

text \<open>Everything one call of the writer appends, the reader takes back.\<close>

lemma write_fragments_back:
  fixes w :: "byte list LevelDbLogWriter"
  assumes "position \<le> length data" "writer_position w < BLOCK_BYTES" "length data \<le> u64_max" "first \<longrightarrow> position = 0"
  shows "\<exists>ds w'. write_fragments vec_write_all crc32c_append data position first w = (None, w')
    \<and> log_writer w' = log_writer w @ ds \<and> writer_position w' < BLOCK_BYTES
    \<and> read_back crc32c_append data position (writer_position w) first ds (writer_position w')
    \<and> cut_safe crc32c_append data position (writer_position w) first ds"
  using assms
proof (induction "vec_write_all" crc32c_append data position first w rule: write_fragments.induct)
  case (1 crc32c_append data position first w)
  let ?pad = "if BLOCK_BYTES - writer_position w < HEADER_BYTES then replicate (BLOCK_BYTES - writer_position w) 0 else []"
  define w1 where "w1 = (if BLOCK_BYTES - writer_position w < HEADER_BYTES
    then w\<lparr>log_writer := log_writer w @ ?pad, writer_position := 0\<rparr> else w)"
  have w1: "pad_block vec_write_all w = (None, w1)" "log_writer w1 = log_writer w @ ?pad"
    "writer_position w1 + HEADER_BYTES \<le> BLOCK_BYTES"
    "BLOCK_BYTES - writer_position w < HEADER_BYTES \<Longrightarrow> writer_position w1 = 0"
    "\<not> BLOCK_BYTES - writer_position w < HEADER_BYTES \<Longrightarrow> w1 = w"
    by (auto simp: w1_def pad_block_vec not_less) (simp_all add: HEADER_BYTES_def BLOCK_BYTES_def)
  have padded: "read_back crc32c_append data position (writer_position w) first (?pad @ ds) p'"
    if "read_back crc32c_append data position (writer_position w1) first ds p'" for ds p'
    using that read_back_pad [of crc32c_append data position first ds p' "writer_position w"] w1(4,5) 1(3) by auto
  have cut: "cut_safe crc32c_append data position (writer_position w) first (?pad @ ds)"
    if "cut_safe crc32c_append data position (writer_position w1) first ds" for ds
    using that cut_safe_pad [of crc32c_append data position first ds "writer_position w"] w1(4,5) 1(3) by auto
  define n where "n = min (length data - position) (BLOCK_BYTES - writer_position w1 - HEADER_BYTES)"
  define last where "last = (n = length data - position)"
  let ?payload = "take n (drop position data)"
  let ?kind = "fragment_kind_of first last"
  let ?p2 = "if writer_position w1 + HEADER_BYTES + n = BLOCK_BYTES then 0 else writer_position w1 + HEADER_BYTES + n"
  have n: "length ?payload = n" "n \<le> 65535" "writer_position w1 + HEADER_BYTES + n \<le> BLOCK_BYTES"
    using w1(3) by (auto simp: n_def BLOCK_BYTES_def)
  obtain w2 where w2: "put_fragment vec_write_all crc32c_append ?kind ?payload w1 = (None, w2)"
    "log_writer w2 = log_writer w1 @ fragment_header crc32c_append ?kind ?payload @ ?payload" "writer_position w2 = ?p2"
    using put_fragment_vec [of ?payload crc32c_append ?kind w1] n(1,2) by simp
  have pos2: "writer_position w2 < BLOCK_BYTES" using w2(3) n(3) by (simp add: BLOCK_BYTES_def)
  show ?case
  proof (cases last)
    case True
    then have n_all: "n = length data - position" by (simp add: last_def)
    have "read_back crc32c_append data position (writer_position w) first
        (?pad @ fragment_header crc32c_append ?kind ?payload @ ?payload) ?p2"
      using padded [OF read_back_last [OF n(3) 1(2,4) refl n_all 1(5)]]
        True by (simp only:)
    moreover have "cut_safe crc32c_append data position (writer_position w) first
        (?pad @ fragment_header crc32c_append ?kind ?payload @ ?payload)"
      by (rule cut, rule cut_safe_last) (use n in simp)
    moreover have "write_fragments vec_write_all crc32c_append data position first w = (None, w2)"
      using True w1(1) w2(1) by (subst write_fragments.simps) (simp add: Let_def n_def [symmetric] last_def [symmetric] del: diff_diff_left)
    ultimately show ?thesis using w1(2) w2(2,3) pos2 by auto
  next
    case False
    then have full: "writer_position w1 + HEADER_BYTES + n = BLOCK_BYTES" "position + n < length data"
      using w1(3) 1(2) by (auto simp: n_def last_def min_def split: if_splits)
    have "position + n \<le> length data" using full(2) by simp
    from 1(1) [OF w1(1) [symmetric] refl refl refl n_def last_def w2(1) [symmetric] refl False this pos2 1(4)]
    obtain ds w' where rest: "write_fragments vec_write_all crc32c_append data (position + n) False w2 = (None, w')"
      "log_writer w' = log_writer w2 @ ds" "writer_position w' < BLOCK_BYTES"
      "read_back crc32c_append data (position + n) (writer_position w2) False ds (writer_position w')"
      "cut_safe crc32c_append data (position + n) (writer_position w2) False ds"
      by auto
    have "read_back crc32c_append data position (writer_position w) first
        (?pad @ (fragment_header crc32c_append ?kind ?payload @ ?payload) @ ds) (writer_position w')"
      using padded [OF read_back_more [OF full(1) _ 1(4) refl 1(5), of crc32c_append ds "writer_position w'"]] full w2(3) False rest(4)
      by simp
    moreover have "cut_safe crc32c_append data position (writer_position w) first
        (?pad @ (fragment_header crc32c_append ?kind ?payload @ ?payload) @ ds)"
      using cut [OF cut_safe_more [OF full(1) _ 1(4) refl 1(5), of crc32c_append ds]] full w2(3) False rest(5)
      by simp
    moreover have "write_fragments vec_write_all crc32c_append data position first w = (None, w')"
      using False w1(1) w2(1) rest(1)
      by (subst write_fragments.simps) (simp add: Let_def n_def [symmetric] last_def [symmetric] del: diff_diff_left)
    ultimately show ?thesis using w1(2) w2(2) rest(2,3) by auto
  qed
qed

lemma write_record_back:
  fixes w :: "byte list LevelDbLogWriter"
  assumes "writer_position w < BLOCK_BYTES" "length data \<le> u64_max"
  shows "\<exists>ds w'. write_record vec_write_all crc32c_append data w = (None, w')
    \<and> log_writer w' = log_writer w @ ds \<and> writer_position w' < BLOCK_BYTES
    \<and> read_back crc32c_append data 0 (writer_position w) True ds (writer_position w')
    \<and> cut_safe crc32c_append data 0 (writer_position w) True ds"
  unfolding write_record_def using write_fragments_back [of 0 data w True] assms by simp

section \<open>Logs\<close>

fun write_records :: "'w Write_All \<Rightarrow> Crc \<Rightarrow> byte list list \<Rightarrow> 'w LevelDbLogWriter \<Rightarrow>
    string option \<times> 'w LevelDbLogWriter" where
  "write_records write_all crc32c_append [] w = (None, w)"
| "write_records write_all crc32c_append (data # log) w =
     (case write_record write_all crc32c_append data w of
        (Some e, w) \<Rightarrow> (Some e, w)
      | (None, w) \<Rightarrow> write_records write_all crc32c_append log w)"

text \<open>The outcomes of \<open>n\<close> calls of \<open>next_record\<close>.\<close>

fun read_records :: "Crc \<Rightarrow> nat \<Rightarrow> LevelDbLogReader \<Rightarrow> (LogError + byte list option) list \<times> LevelDbLogReader" where
  "read_records crc32c_append 0 r = ([], r)"
| "read_records crc32c_append (Suc n) r =
     (let (out, r) = next_record crc32c_append r; (outs, r) = read_records crc32c_append n r in (out # outs, r))"

text \<open>What reading the bytes \<open>ds\<close> of a log gives, whole or cut off.\<close>

definition log_back :: "Crc \<Rightarrow> byte list list \<Rightarrow> nat \<Rightarrow> nat \<Rightarrow> byte list \<Rightarrow> bool" where
  "log_back crc32c_append log limit p ds =
     (\<forall>r. assembly r = None \<longrightarrow> max_record_bytes r = limit \<longrightarrow>
        (reader_at r p ds \<longrightarrow>
           fst (read_records crc32c_append (Suc (length log)) r) = map (\<lambda>data. Inr (Some data)) log @ [Inr None])
        \<and> (\<forall>m. reader_at r p (take m ds) \<longrightarrow>
             (\<exists>k out. k \<le> length log \<and> stops out
               \<and> fst (read_records crc32c_append (Suc k) r) = map (\<lambda>data. Inr (Some data)) (take k log) @ [out])))"

lemma read_records_Suc:
  "next_record crc32c_append r = (out, r') \<Longrightarrow>
    fst (read_records crc32c_append (Suc n) r) = out # fst (read_records crc32c_append n r')"
  by (simp add: case_prod_unfold Let_def)

lemma log_back_Nil: "log_back crc32c_append [] limit p []"
proof -
  have "fst (next_record crc32c_append r) = Inr None" if "reader_at r p []" "assembly r = None" for r p
    using reader_at_end [OF that(1), of crc32c_append] that(2)
    by (subst next_record.simps) (auto simp: same_assembly_def)
  then show ?thesis by (auto simp: log_back_def case_prod_unfold Let_def)
qed

lemma log_back_Cons:
  assumes data: "read_back crc32c_append data 0 p True ds p'" "cut_safe crc32c_append data 0 p True ds" "length data \<le> limit"
    and log: "log_back crc32c_append log limit p' es"
  shows "log_back crc32c_append (data # log) limit p (ds @ es)"
  unfolding log_back_def
proof (intro allI impI conjI)
  fix r :: LevelDbLogReader assume r: "assembly r = None" "max_record_bytes r = limit"
  have first: "\<exists>r'. next_record crc32c_append r = (Inr (Some data), r') \<and> reader_at r' p' fs
      \<and> assembly r' = None \<and> max_record_bytes r' = limit" if "reader_at r p (ds @ fs)" for fs
    using data(1,3) r that unfolding read_back_def by fastforce
  show "fst (read_records crc32c_append (Suc (length (data # log))) r) = map (\<lambda>data. Inr (Some data)) (data # log) @ [Inr None]"
    if at: "reader_at r p (ds @ es)"
  proof -
    obtain r' where "next_record crc32c_append r = (Inr (Some data), r')" "reader_at r' p' es"
      "assembly r' = None" "max_record_bytes r' = limit"
      using first [OF at] by blast
    then show ?thesis
      using log read_records_Suc [of crc32c_append r "Inr (Some data)" r' "Suc (length log)"] unfolding log_back_def by simp
  qed
  fix m assume at: "reader_at r p (take m (ds @ es))"
  show "\<exists>k out. k \<le> length (data # log) \<and> stops out
      \<and> fst (read_records crc32c_append (Suc k) r) = map (\<lambda>data. Inr (Some data)) (take k (data # log)) @ [out]"
  proof (cases "m < length ds")
    case True
    then have "stops (fst (next_record crc32c_append r))"
      using data(2,3) r at unfolding cut_safe_def by auto
    then show ?thesis
      by (intro exI [of _ 0] exI [of _ "fst (next_record crc32c_append r)"]) (simp add: case_prod_unfold Let_def)
  next
    case False
    then obtain r' where r': "next_record crc32c_append r = (Inr (Some data), r')" "reader_at r' p' (take (m - length ds) es)"
      "assembly r' = None" "max_record_bytes r' = limit"
      using first [of "take (m - length ds) es"] at by auto
    then obtain k out where "k \<le> length log" "stops out"
      "fst (read_records crc32c_append (Suc k) r') = map (\<lambda>data. Inr (Some data)) (take k log) @ [out]"
      using log unfolding log_back_def by blast
    then show ?thesis
      using read_records_Suc [OF r'(1), of "Suc k"] by (intro exI [of _ "Suc k"] exI [of _ out]) simp
  qed
qed

lemma write_records_back:
  fixes w :: "byte list LevelDbLogWriter"
  assumes "writer_position w < BLOCK_BYTES" "\<forall>data\<in>set log. length data \<le> limit" "limit \<le> u64_max"
  shows "\<exists>ds w'. write_records vec_write_all crc32c_append log w = (None, w') \<and> log_writer w' = log_writer w @ ds
    \<and> log_back crc32c_append log limit (writer_position w) ds"
  using assms
proof (induction log arbitrary: w)
  case (Cons data log)
  obtain ds1 w1 where w1: "write_record vec_write_all crc32c_append data w = (None, w1)" "log_writer w1 = log_writer w @ ds1"
    "writer_position w1 < BLOCK_BYTES" "read_back crc32c_append data 0 (writer_position w) True ds1 (writer_position w1)"
    "cut_safe crc32c_append data 0 (writer_position w) True ds1"
    using write_record_back [of w data crc32c_append] Cons.prems by fastforce
  obtain ds2 w2 where w2: "write_records vec_write_all crc32c_append log w1 = (None, w2)" "log_writer w2 = log_writer w1 @ ds2"
    "log_back crc32c_append log limit (writer_position w1) ds2"
    using Cons.IH [of w1] w1(3) Cons.prems(2,3) by auto
  have "log_back crc32c_append (data # log) limit (writer_position w) (ds1 @ ds2)"
    using log_back_Cons [OF w1(4,5) _ w2(3)] Cons.prems(2) by simp
  then show ?case using w1(1,2) w2(1,2) by auto
qed (simp add: log_back_Nil)

lemma write_log_back:
  assumes "\<forall>data\<in>set log. length data \<le> limit" "limit \<le> u64_max"
  obtains w where "write_records vec_write_all crc32c_append log (LevelDbLogWriter_new []) = (None, w)"
    "log_back crc32c_append log limit 0 (log_writer w)"
  using write_records_back [OF _ assms, of "LevelDbLogWriter_new []" crc32c_append]
  by (auto simp: LevelDbLogWriter_new_def BLOCK_BYTES_def)

lemma reader_new:
  "good_source src \<Longrightarrow> reader_at (LevelDbLogReader_new src limit) 0 (source_bytes src)"
  "assembly (LevelDbLogReader_new src limit) = None" "max_record_bytes (LevelDbLogReader_new src limit) = limit"
  by (simp_all add: reader_at_def LevelDbLogReader_new_def)

text \<open>
  C23: Logs round-trip. Writing any records, of any sizes within the limit of the reader, succeeds
  and produces bytes from which the reader returns exactly these records in order and then the
  end of the log, however the source cuts the bytes into pieces and whatever the checksum
  function is.
\<close>

theorem log_round_trip:
  assumes "\<forall>data\<in>set log. length data \<le> limit" "limit \<le> u64_max"
  shows "\<exists>w. write_records vec_write_all crc32c_append log (LevelDbLogWriter_new []) = (None, w)
    \<and> (\<forall>src. good_source src \<longrightarrow> source_bytes src = log_writer w \<longrightarrow>
         fst (read_records crc32c_append (Suc (length log)) (LevelDbLogReader_new src limit))
           = map (\<lambda>data. Inr (Some data)) log @ [Inr None])"
proof -
  obtain w where w: "write_records vec_write_all crc32c_append log (LevelDbLogWriter_new []) = (None, w)"
    "log_back crc32c_append log limit 0 (log_writer w)"
    using write_log_back [OF assms] .
  have "fst (read_records crc32c_append (Suc (length log)) (LevelDbLogReader_new src limit))
      = map (\<lambda>data. Inr (Some data)) log @ [Inr None]" if "good_source src" "source_bytes src = log_writer w" for src
    using w(2) reader_new(1) [OF that(1), of limit] reader_new(2,3) [of src limit] that(2) unfolding log_back_def by metis
  then show ?thesis using w(1) by blast
qed

theorem log_round_trip_witness:
  "\<exists>w. write_records vec_write_all (\<lambda>crc bs. crc) [[1, 2, 3], []] (LevelDbLogWriter_new []) = (None, w)
    \<and> (\<forall>src. good_source src \<longrightarrow> source_bytes src = log_writer w \<longrightarrow>
         fst (read_records (\<lambda>crc bs. crc) 3 (LevelDbLogReader_new src 10)) = [Inr (Some [1, 2, 3]), Inr (Some []), Inr None])"
  using log_round_trip [of "[[1, 2, 3], []]" 10 "\<lambda>crc bs. crc"] by (simp add: u64_max_def numeral_3_eq_3)

text \<open>
  C24: A truncated log never yields a record that was not written. From any prefix of the bytes of
  a log the reader returns the first few records as they were written and then stops, with the
  end of the log or with an error.
\<close>

theorem log_prefix_safe:
  assumes "\<forall>data\<in>set log. length data \<le> limit" "limit \<le> u64_max"
    "write_records vec_write_all crc32c_append log (LevelDbLogWriter_new []) = (None, w)"
    "good_source src" "source_bytes src = take m (log_writer w)"
  shows "\<exists>k out. k \<le> length log \<and> (out = Inr None \<or> (\<exists>e. out = Inl e))
    \<and> fst (read_records crc32c_append (Suc k) (LevelDbLogReader_new src limit))
        = map (\<lambda>data. Inr (Some data)) (take k log) @ [out]"
proof -
  have "log_back crc32c_append log limit 0 (log_writer w)" using write_log_back [OF assms(1,2), of crc32c_append] assms(3) by auto
  then show ?thesis
    using reader_new(1) [OF assms(4), of limit] reader_new(2,3) [of src limit] assms(5)
    unfolding log_back_def stops_def by metis
qed

theorem log_prefix_safe_witness:
  "\<exists>w k out. write_records vec_write_all (\<lambda>crc bs. crc) [[1, 2, 3]] (LevelDbLogWriter_new []) = (None, w)
    \<and> k \<le> 1 \<and> fst (read_records (\<lambda>crc bs. crc) (Suc k) (LevelDbLogReader_new [Chunk (take 8 (log_writer w))] 10))
        = map (\<lambda>data. Inr (Some data)) (take k [[1, 2, 3]]) @ [out]"
proof -
  have small: "\<forall>data\<in>set [[1, 2, 3 :: byte]]. length data \<le> 10" "10 \<le> u64_max" by (simp_all add: u64_max_def)
  obtain w where w: "write_records vec_write_all (\<lambda>crc bs. crc) [[1, 2, 3]] (LevelDbLogWriter_new []) = (None, w)"
    using write_log_back [OF small] by blast
  then have "log_writer w \<noteq> []"
    by (subst (asm) write_records.simps(2), unfold write_record_def, subst (asm) write_fragments.simps)
      (auto simp: LevelDbLogWriter_new_def pad_block_vec put_fragment_vec BLOCK_BYTES_def HEADER_BYTES_def)
  then have "good_source [Chunk (take 8 (log_writer w))]" by (simp add: good_source_def)
  from log_prefix_safe [OF small w this, of 8] obtain k out where "k \<le> 1"
    "fst (read_records (\<lambda>crc bs. crc) (Suc k) (LevelDbLogReader_new [Chunk (take 8 (log_writer w))] 10))
      = map (\<lambda>data. Inr (Some data)) (take k [[1, 2, 3]]) @ [out]"
    by (simp del: read_records.simps) blast
  with w show ?thesis by blast
qed

section \<open>Limits\<close>

definition within_limits :: "LevelDbLogReader \<Rightarrow> bool" where
  "within_limits r =
     (length (block r) \<le> BLOCK_BYTES
      \<and> (case assembly r of None \<Rightarrow> True | Some record \<Rightarrow> length record \<le> max_record_bytes r))"

lemma source_read_length: "source_read n src = (Inr bs, src') \<Longrightarrow> length bs \<le> n"
  by (cases "(n, src)" rule: source_read.cases) auto

lemma fill_block_length:
  "length buffer \<le> BLOCK_BYTES \<Longrightarrow> fill_block buffer src = (e, buffer', src') \<Longrightarrow> length buffer' \<le> BLOCK_BYTES"
proof (induction buffer src rule: fill_block.induct)
  case (1 buffer src)
  obtain out src1 where out: "source_read (BLOCK_BYTES - length buffer) src = (out, src1)" by fastforce
  show ?case
  proof (cases "BLOCK_BYTES \<le> length buffer \<or> (\<exists>e. out = Inl e) \<or> out = Inr []")
    case True
    then show ?thesis using 1(2,3) out by (subst (asm) fill_block.simps) (auto split: if_splits)
  next
    case False
    then obtain bs where bs: "out = Inr bs" "bs \<noteq> []" "\<not> BLOCK_BYTES \<le> length buffer" by (cases out) auto
    then have "fill_block (buffer @ bs) src1 = (e, buffer', src')"
      using 1(3) out by (subst (asm) fill_block.simps) simp
    moreover have "length (buffer @ bs) \<le> BLOCK_BYTES"
      using source_read_length [OF out [unfolded bs(1)]] bs(3) by simp
    ultimately show ?thesis using 1(1) [OF bs(3) out [symmetric] bs(1,2)] by blast
  qed
qed

lemma next_fragment_block:
  "length (block r) \<le> BLOCK_BYTES \<Longrightarrow> next_fragment crc32c_append r = (out, r') \<Longrightarrow> length (block r') \<le> BLOCK_BYTES"
proof (induction crc32c_append r rule: next_fragment.induct)
  case (1 crc32c_append r)
  obtain b r1 where load: "ready r = (b, r1)" by fastforce
  have r1: "length (block r1) \<le> BLOCK_BYTES"
    using load 1(2) fill_block_length [of "[]" "reader_source r"]
    by (auto simp: ready_def load_block_def split: if_splits prod.splits option.splits)
  show ?case
  proof (cases "b = Inr True")
    case False
    then have "r' = r1"
      using 1(3) load by (subst (asm) next_fragment.simps) (auto simp: ready_def split: sum.splits bool.splits)
    then show ?thesis using r1 by simp
  next
    case True
    note step = next_fragment_ready [OF load [unfolded True], of crc32c_append]
    show ?thesis
    proof (cases "fragment_pass crc32c_append r1")
      case Skip
      then have "next_fragment crc32c_append (r1\<lparr>block_position := length (block r1)\<rparr>) = (out, r')"
        using step 1(3) by simp
      then show ?thesis
        using 1(1) [OF load [unfolded ready_def, symmetric] True refl Skip] r1 by simp
    qed (use step 1(3) r1 in auto)
  qed
qed

lemma append_fragment_limits:
  "append_fragment r payload m = Inr r' \<Longrightarrow> within_limits r \<Longrightarrow> within_limits r'"
  by (auto simp: append_fragment_def check_record_size_def within_limits_def checked_add_u64_def
      split: option.splits if_splits)

lemma next_record_limits:
  "within_limits r \<Longrightarrow> next_record crc32c_append r = (out, r') \<Longrightarrow>
    within_limits r' \<and> max_record_bytes r' = max_record_bytes r
    \<and> (\<forall>data. out = Inr (Some data) \<longrightarrow> length data \<le> max_record_bytes r)"
proof (induction crc32c_append r rule: next_record.induct)
  case (1 crc32c_append r)
  obtain x r1 where x: "next_fragment crc32c_append r = (x, r1)" by fastforce
  have r1: "within_limits r1" "max_record_bytes r1 = max_record_bytes r"
    using next_fragment_consumes [OF x] next_fragment_block [OF _ x] "1.prems"(1)
    by (auto simp: within_limits_def split: option.splits)
  note step = "1.prems"(2) [unfolded next_record.simps [of crc32c_append r] x]
  show ?case
  proof (cases "\<exists>fragment. x = Inr (Some fragment)")
    case False
    then show ?thesis using step r1 by (cases x) (auto split: option.splits if_splits)
  next
    case True
    then obtain fragment where fragment: "x = Inr (Some fragment)" by blast
    let ?payload = "fragment_payload fragment"
    note step = step [unfolded fragment]
    show ?thesis
    proof (cases "fragment_kind fragment")
      case Full
      then show ?thesis using step r1 by (auto simp: check_record_size_def split: if_splits)
    next
      case First
      show ?thesis
      proof (cases "assembly r1 = None \<and> length ?payload \<le> max_record_bytes r1")
        case True
        let ?next = "r1\<lparr>assembly := Some ?payload\<rparr>"
        have "within_limits ?next" using True r1(1) by (simp add: within_limits_def)
        moreover have "next_record crc32c_append ?next = (out, r')"
          using step True First by (simp add: check_record_size_def)
        ultimately show ?thesis
          using "1.IH"(1) [OF x [symmetric] fragment refl First] True r1(2) by (simp add: check_record_size_def)
      qed (use step First r1 in \<open>auto simp: check_record_size_def split: if_splits\<close>)
    next
      case Middle
      show ?thesis
      proof (cases "append_fragment r1 ?payload ''MIDDLE without FIRST''")
        case (Inr r2)
        have "within_limits r2" using append_fragment_limits [OF Inr r1(1)] .
        moreover have "next_record crc32c_append r2 = (out, r')" using step Middle Inr by simp
        ultimately show ?thesis
          using "1.IH"(2) [OF x [symmetric] fragment refl Middle Inr] append_fragment_same [OF Inr] r1(2) by simp
      qed (use step Middle r1 in auto)
    next
      case Last
      show ?thesis
      proof (cases "append_fragment r1 ?payload ''LAST without FIRST''")
        case (Inr r2)
        then show ?thesis
          using step Last append_fragment_same [OF Inr] append_fragment_limits [OF Inr r1(1)] r1(2)
          by (auto simp: within_limits_def)
      qed (use step Last r1 in auto)
    qed
  qed
qed

text \<open>
  C25: The reader stays within its limits on every source, also a hostile one that fails, repeats
  or forges fragments: after any number of calls it has returned no record longer than the limit
  and holds at most a block of raw bytes and an unfinished record within the limit.
\<close>

theorem log_reader_bounded:
  "(\<forall>data. Inr (Some data) \<in> set (fst (read_records crc32c_append n (LevelDbLogReader_new src limit))) \<longrightarrow>
      length data \<le> limit)
    \<and> within_limits (snd (read_records crc32c_append n (LevelDbLogReader_new src limit)))"
proof -
  have "(\<forall>data. Inr (Some data) \<in> set (fst (read_records crc32c_append n r)) \<longrightarrow> length data \<le> limit)
      \<and> within_limits (snd (read_records crc32c_append n r))" if "within_limits r" "max_record_bytes r = limit" for r
    using that
  proof (induction n arbitrary: r)
    case (Suc n)
    obtain out r1 where "next_record crc32c_append r = (out, r1)" by fastforce
    then show ?case
      using Suc.IH [of r1] next_record_limits [OF Suc.prems(1), of crc32c_append out r1] Suc.prems(2)
      by (auto simp: case_prod_unfold Let_def)
  qed simp
  moreover have "within_limits (LevelDbLogReader_new src limit)"
    by (simp add: within_limits_def LevelDbLogReader_new_def)
  ultimately show ?thesis using reader_new(3) [of src limit] by blast
qed

theorem log_reader_bounded_witness:
  "within_limits (snd (read_records (\<lambda>crc bs. crc) 2 (LevelDbLogReader_new [Chunk [1], ReadFails ''io'', Chunk [0]] 5)))"
  using log_reader_bounded [of "\<lambda>crc bs. crc" 2 "[Chunk [1], ReadFails ''io'', Chunk [0]]" 5] by blast

end
