(* ===== verification/Task_Queue.thy ===== *)
theory Task_Queue
  imports Text F64
begin

text \<open>
  Task queues (\<open>tasks-front/src/queue.rs\<close>) and the runtime that drives them
  (\<open>tasks-front/src/runtime.rs\<close>): a FIFO of pending tasks, a token bucket, dispatch slots and a
  retry ladder per queue, and the tick over all queues.

  An \<open>Instant\<close> and a \<open>Duration\<close> are their nanoseconds. \<open>powf\<close>, whose precision the standard
  library leaves open, is a parameter. Attempt and dispatch counters are natural numbers: they
  would need \<open>2\<^sup>3\<^sup>2\<close> runs of one task or \<open>2\<^sup>6\<^sup>4\<close> dispatches to wrap. The configuration is its numeric
  view; the JSON document it echoes and the transport of requests are not modelled.
\<close>

section \<open>Numbers\<close>

type_synonym Instant = nat
type_synonym Duration = nat

definition as_secs_f64 :: "Duration \<Rightarrow> f64" where
  "as_secs_f64 d = f64_add (f64_of_i64 (int (d div 1000000000)))
     (f64_div (f64_of_i64 (int (d mod 1000000000))) (f64_of_i64 1000000000))"

text \<open>On two zeros the standard leaves the sign of the result open; here the left one is taken.\<close>

definition js_min :: "f64 \<Rightarrow> f64 \<Rightarrow> f64" where
  "js_min a b = (if f64_is_nan a \<or> f64_is_nan b then f64_nan else if f64_le a b then a else b)"

definition js_max :: "f64 \<Rightarrow> f64 \<Rightarrow> f64" where
  "js_max a b = (if f64_is_nan a \<or> f64_is_nan b then f64_nan else if f64_le b a then a else b)"

section \<open>Tasks and configuration\<close>

type_synonym Headers = "(string \<times> string) list"

record TaskRecord =
  task_name :: string
  task_url :: "string option"
  task_headers :: Headers
  task_body :: string
  schedule_time :: "string option"
  task_deadline :: Duration

definition short_name :: "TaskRecord \<Rightarrow> string" where
  "short_name task = last (split_char (CHR ''/'') (task_name task))"

record QueueConfig =
  max_attempts :: f64
  max_retry_seconds :: "f64 option"
  max_backoff_seconds :: f64
  max_doublings :: f64
  min_backoff_seconds :: f64
  config_slots :: nat
  max_dispatches_per_second :: f64

definition QUEUE_CAPACITY :: int where "QUEUE_CAPACITY = 10000"

definition valid_queue_id :: "string \<Rightarrow> bool" where
  "valid_queue_id queue =
     (queue \<noteq> [] \<and> length queue \<le> 100
      \<and> list_all (\<lambda>c. of_char c \<in> {48..57::nat} \<union> {65..90} \<union> {97..122} \<or> c = CHR ''-'') queue)"

definition queue_key :: "string \<Rightarrow> string \<Rightarrow> string \<Rightarrow> string" where
  "queue_key project location queue = ''queue:'' @ project @ ''-'' @ location @ ''-'' @ queue"

datatype Status = NotStarted | Running | Retry | Failed | Finished

record Dispatch =
  dispatch_id :: nat
  dispatch_task :: TaskRecord
  dispatch_status :: Status
  attempt :: nat
  backoff_seconds :: f64
  started :: Instant
  last_run :: "Instant option"
  previous_response :: "nat option"
  execution_count :: nat

record RunRequest =
  request_queue_key :: string
  request_dispatch_id :: nat
  request_url :: "string option"
  request_headers :: Headers
  request_body :: string
  request_deadline :: Duration

datatype Outcome = HttpStatus nat | RequestFailed

record TaskQueue =
  queue_name :: string
  queue_config :: QueueConfig
  pending :: "TaskRecord list"
  queue_count :: int
  known_names :: "string set"
  queued_ids :: "string set"
  slots :: "Dispatch option list"
  open_slots :: "nat list"
  tokens :: f64
  max_tokens :: f64
  last_token_update :: Instant
  added :: "Instant list"
  completed :: "Instant list"
  failed :: "Instant list"

definition TaskQueue_new :: "string \<Rightarrow> QueueConfig \<Rightarrow> Instant \<Rightarrow> TaskQueue" where
  "TaskQueue_new key config now =
     \<lparr>queue_name = key, queue_config = config, pending = [], queue_count = 0, known_names = {},
      queued_ids = {}, slots = replicate (config_slots config) None, open_slots = [0..<config_slots config],
      tokens = 0, max_tokens = js_max (max_dispatches_per_second config) 0x3FF199999999999A,
      last_token_update = now, added = [], completed = [], failed = []\<rparr>"

section \<open>Operations of a queue\<close>

text \<open>\<open>None\<close> is the conflict.\<close>

definition enqueue :: "TaskQueue \<Rightarrow> TaskRecord \<Rightarrow> Instant \<Rightarrow> TaskQueue option" where
  "enqueue q task now =
     (if task_name task \<in> queued_ids q \<or> QUEUE_CAPACITY \<le> queue_count q \<or> task_name task \<in> known_names q then None
      else Some (q\<lparr>known_names := insert (task_name task) (known_names q),
                   queued_ids := insert (task_name task) (queued_ids q),
                   pending := pending q @ [task], queue_count := queue_count q + 1,
                   added := added q @ [now]\<rparr>))"

text \<open>\<open>None\<close> is the unknown name.\<close>

definition remove :: "TaskQueue \<Rightarrow> string \<Rightarrow> TaskQueue option" where
  "remove q name =
     (if name \<notin> known_names q then None
      else Some (q\<lparr>known_names := known_names q - {name},
                   pending := filter (\<lambda>task. task_name task \<noteq> name) (pending q),
                   queue_count := queue_count q - 1\<rparr>))"

definition is_active :: "TaskQueue \<Rightarrow> bool" where
  "is_active q = (pending q \<noteq> [] \<or> list_ex (\<lambda>slot. slot \<noteq> None) (slots q))"

definition refill_tokens :: "TaskQueue \<Rightarrow> Instant \<Rightarrow> TaskQueue" where
  "refill_tokens q now =
     (let elapsed = now - last_token_update q in
      if elapsed < 1000000000 then q
      else q\<lparr>tokens := js_min (f64_add (tokens q)
               (f64_mul (as_secs_f64 elapsed) (max_dispatches_per_second (queue_config q)))) (max_tokens q),
             last_token_update := now\<rparr>)"

text \<open>One pass of the dispatch loop: the top free slot takes the oldest pending task.\<close>

definition dispatch_one :: "TaskQueue \<Rightarrow> Instant \<Rightarrow> nat \<Rightarrow> TaskQueue" where
  "dispatch_one q now next_id =
     q\<lparr>open_slots := butlast (open_slots q), pending := tl (pending q), queue_count := queue_count q - 1,
       slots := (slots q)[last (open_slots q) := Some
         \<lparr>dispatch_id = next_id, dispatch_task = hd (pending q), dispatch_status = NotStarted, attempt = 1,
          backoff_seconds = 0, started = now, last_run = None, previous_response = None,
          execution_count = 0\<rparr>],
       tokens := f64_sub (tokens q) f64_one\<rparr>"

definition can_dispatch :: "TaskQueue \<Rightarrow> bool" where
  "can_dispatch q = (pending q \<noteq> [] \<and> open_slots q \<noteq> [] \<and> f64_le f64_one (tokens q))"

function dispatch_tasks :: "TaskQueue \<Rightarrow> Instant \<Rightarrow> nat \<Rightarrow> TaskQueue \<times> nat" where
  "dispatch_tasks q now next_id =
     (if can_dispatch q then dispatch_tasks (dispatch_one q now (next_id + 1)) now (next_id + 1)
      else (q, next_id))"
  by pat_completeness auto

termination
  by (relation "measure (\<lambda>(q, _, _). length (pending q))") (auto simp: dispatch_one_def can_dispatch_def)

declare dispatch_tasks.simps [simp del]

definition should_stop_retrying :: "Dispatch \<Rightarrow> QueueConfig \<Rightarrow> Instant \<Rightarrow> bool" where
  "should_stop_retrying d config now =
     (if f64_lt (max_attempts config) (f64_of_i64 (int (attempt d)))
      then (case max_retry_seconds config of
              None \<Rightarrow> True
            | Some seconds \<Rightarrow>
                if f64_eq seconds 0 then True
                else f64_lt (f64_mul seconds (f64_of_i64 1000))
                       (f64_mul (as_secs_f64 (now - started d)) (f64_of_i64 1000)))
      else False)"

definition update_metadata :: "(f64 \<Rightarrow> f64 \<Rightarrow> f64) \<Rightarrow> Dispatch \<Rightarrow> QueueConfig \<Rightarrow> Dispatch" where
  "update_metadata powf d config =
     (let attempts = f64_of_i64 (int (attempt d));
          multiplier = f64_add
            (powf (f64_of_i64 2) (js_min (f64_sub attempts f64_one) (max_doublings config)))
            (f64_mul (js_max 0 (f64_sub (f64_sub attempts (max_doublings config)) f64_one))
               (powf (f64_of_i64 2) (max_doublings config)))
      in d\<lparr>backoff_seconds := js_min (max_backoff_seconds config) (f64_mul multiplier (min_backoff_seconds config)),
           attempt := attempt d + 1\<rparr>)"

fun spread :: "Headers \<Rightarrow> string \<Rightarrow> string \<Rightarrow> Headers" where
  "spread [] name new = [(name, new)]"
| "spread ((key, old) # headers) name new =
     (if key = name then (key, new) # headers else (key, old) # spread headers name new)"

definition build_request :: "string \<Rightarrow> Dispatch \<Rightarrow> nat \<Rightarrow> RunRequest" where
  "build_request key d now_ms =
     (let task = dispatch_task d;
          headers = [(''Content-Type'', ''application/json''), (''X-CloudTasks-QueueName'', key),
            (''X-CloudTasks-TaskName'', short_name task),
            (''X-CloudTasks-TaskRetryCount'', decimal (attempt d - 1)),
            (''X-CloudTasks-TaskExecutionCount'', decimal (execution_count d)),
            (''X-CloudTasks-TaskETA'',
              case schedule_time task of Some time \<Rightarrow> time | None \<Rightarrow> decimal now_ms)];
          headers = fold (\<lambda>h headers. spread headers (fst h) (snd h)) (task_headers task) headers;
          headers = (case previous_response d of
              Some status \<Rightarrow> if status \<noteq> 0
                then spread headers ''X-CloudTasks-TaskPreviousResponse'' (decimal status) else headers
            | None \<Rightarrow> headers)
      in \<lparr>request_queue_key = key, request_dispatch_id = dispatch_id d, request_url = task_url task,
          request_headers = headers, request_body = task_body task, request_deadline = task_deadline task\<rparr>)"

definition backing_off :: "Dispatch \<Rightarrow> Instant \<Rightarrow> bool" where
  "backing_off d now =
     (case last_run d of None \<Rightarrow> False | Some at \<Rightarrow> f64_lt (as_secs_f64 (now - at)) (backoff_seconds d))"

definition process_slot :: "(f64 \<Rightarrow> f64 \<Rightarrow> f64) \<Rightarrow> Instant \<Rightarrow> nat \<Rightarrow> nat \<Rightarrow> TaskQueue \<times> RunRequest list \<Rightarrow>
    TaskQueue \<times> RunRequest list" where
  "process_slot powf now now_ms index state =
     (let (q, runs) = state in
      case slots q ! index of
        None \<Rightarrow> (q, runs)
      | Some d \<Rightarrow>
          (case dispatch_status d of
             Failed \<Rightarrow>
               (q\<lparr>slots := (slots q)[index := None], open_slots := open_slots q @ [index],
                  completed := completed q @ [now], failed := failed q @ [now]\<rparr>, runs)
           | Finished \<Rightarrow>
               (q\<lparr>slots := (slots q)[index := None], open_slots := open_slots q @ [index],
                  completed := completed q @ [now]\<rparr>, runs)
           | NotStarted \<Rightarrow>
               if backing_off d now then (q, runs)
               else (let d = d\<lparr>dispatch_status := Running\<rparr>
                     in (q\<lparr>slots := (slots q)[index := Some d]\<rparr>, runs @ [build_request (queue_name q) d now_ms]))
           | Retry \<Rightarrow>
               (let d = (if should_stop_retrying d (queue_config q) now then d\<lparr>dispatch_status := Failed\<rparr>
                         else (update_metadata powf d (queue_config q))\<lparr>dispatch_status := NotStarted\<rparr>)
                in (q\<lparr>slots := (slots q)[index := Some d]\<rparr>, runs))
           | Running \<Rightarrow> (q, runs)))"

definition process :: "(f64 \<Rightarrow> f64 \<Rightarrow> f64) \<Rightarrow> TaskQueue \<Rightarrow> Instant \<Rightarrow> nat \<Rightarrow> TaskQueue \<times> RunRequest list" where
  "process powf q now now_ms = fold (process_slot powf now now_ms) [0..<length (slots q)] (q, [])"

definition complete_dispatch :: "Dispatch \<Rightarrow> Outcome \<Rightarrow> Instant \<Rightarrow> Dispatch" where
  "complete_dispatch d outcome now =
     (case outcome of
        HttpStatus status \<Rightarrow>
          if 200 \<le> status \<and> status \<le> 299 then d\<lparr>dispatch_status := Finished\<rparr>
          else d\<lparr>execution_count := (if \<not> (500 \<le> status \<and> status \<le> 599) then execution_count d + 1
                                     else execution_count d),
                 previous_response := Some status, dispatch_status := Retry, last_run := Some now\<rparr>
      | RequestFailed \<Rightarrow> d\<lparr>dispatch_status := Retry, last_run := Some now\<rparr>)"

fun complete_slots :: "Dispatch option list \<Rightarrow> nat \<Rightarrow> Outcome \<Rightarrow> Instant \<Rightarrow> Dispatch option list" where
  "complete_slots [] n outcome now = []"
| "complete_slots (None # rest) n outcome now = None # complete_slots rest n outcome now"
| "complete_slots (Some d # rest) n outcome now =
     (if dispatch_id d = n \<and> dispatch_status d = Running then Some (complete_dispatch d outcome now) # rest
      else Some d # complete_slots rest n outcome now)"

definition complete :: "TaskQueue \<Rightarrow> nat \<Rightarrow> Outcome \<Rightarrow> Instant \<Rightarrow> TaskQueue" where
  "complete q n outcome now = q\<lparr>slots := complete_slots (slots q) n outcome now\<rparr>"

record Statistics =
  number_of_tasks :: int
  tasks_added :: f64
  completed_last_min :: nat
  failed_tasks :: f64
  running_tasks :: nat

definition statistics :: "TaskQueue \<Rightarrow> Instant \<Rightarrow> Statistics \<times> TaskQueue" where
  "statistics q now =
     (let q = q\<lparr>added := filter (\<lambda>at. now - at < 300000000000) (added q),
                failed := filter (\<lambda>at. now - at < 300000000000) (failed q),
                completed := filter (\<lambda>at. now - at < 60000000000) (completed q)\<rparr>
      in (\<lparr>number_of_tasks = queue_count q,
           tasks_added = f64_div (f64_of_i64 (int (length (added q)))) (f64_of_i64 5),
           completed_last_min = length (completed q),
           failed_tasks = f64_div (f64_of_i64 (int (length (failed q)))) (f64_of_i64 5),
           running_tasks = length (slots q)\<rparr>, q))"

section \<open>The runtime\<close>

text \<open>The registered queues in registration order (\<open>IndexMap\<close>) and the shared dispatch counter.\<close>

record TasksState =
  queues :: "(string \<times> TaskQueue) list"
  next_dispatch :: nat

fun index_insert :: "('k \<times> 'v) list \<Rightarrow> 'k \<Rightarrow> 'v \<Rightarrow> ('k \<times> 'v) list" where
  "index_insert [] key new = [(key, new)]"
| "index_insert ((k, old) # rest) key new =
     (if k = key then (k, new) # rest else (k, old) # index_insert rest key new)"

definition register_queue :: "TasksState \<Rightarrow> string \<Rightarrow> QueueConfig \<Rightarrow> Instant \<Rightarrow> TasksState" where
  "register_queue s key config now =
     s\<lparr>queues := index_insert (queues s) key (TaskQueue_new key config now)\<rparr>"

datatype EnqueueError = UnknownQueue | Conflict

definition runtime_enqueue :: "TasksState \<Rightarrow> string \<Rightarrow> TaskRecord \<Rightarrow> Instant \<Rightarrow> EnqueueError + TasksState" where
  "runtime_enqueue s key task now =
     (case map_of (queues s) key of
        None \<Rightarrow> Inl UnknownQueue
      | Some q \<Rightarrow>
          (case enqueue q task now of
             None \<Rightarrow> Inl Conflict
           | Some q \<Rightarrow> Inr (s\<lparr>queues := index_insert (queues s) key q\<rparr>)))"

datatype RemoveError = UnknownQueueRemoved | NameNotFound

definition runtime_remove :: "TasksState \<Rightarrow> string \<Rightarrow> string \<Rightarrow> RemoveError + TasksState" where
  "runtime_remove s key name =
     (case map_of (queues s) key of
        None \<Rightarrow> Inl UnknownQueueRemoved
      | Some q \<Rightarrow>
          (case remove q name of
             None \<Rightarrow> Inl NameNotFound
           | Some q \<Rightarrow> Inr (s\<lparr>queues := index_insert (queues s) key q\<rparr>)))"

text \<open>The tick of one queue, then of all of them in order.\<close>

definition tick_queue :: "(f64 \<Rightarrow> f64 \<Rightarrow> f64) \<Rightarrow> Instant \<Rightarrow> nat \<Rightarrow> TaskQueue \<Rightarrow> nat \<Rightarrow>
    TaskQueue \<times> nat \<times> RunRequest list \<times> bool" where
  "tick_queue powf now now_ms q next_id =
     (let q = refill_tokens q now in
      if is_active q then
        (let (q, next_id) = dispatch_tasks q now next_id;
             (q, runs) = process powf q now now_ms
         in (q, next_id, runs, True))
      else (q, next_id, [], False))"

fun tick_queues :: "(f64 \<Rightarrow> f64 \<Rightarrow> f64) \<Rightarrow> Instant \<Rightarrow> nat \<Rightarrow> (string \<times> TaskQueue) list \<Rightarrow> nat \<Rightarrow>
    (string \<times> TaskQueue) list \<times> nat \<times> RunRequest list \<times> bool" where
  "tick_queues powf now now_ms [] next_id = ([], next_id, [], False)"
| "tick_queues powf now now_ms ((key, q) # rest) next_id =
     (let (q, next_id, runs, active) = tick_queue powf now now_ms q next_id;
          (rest, next_id, later, any) = tick_queues powf now now_ms rest next_id
      in ((key, q) # rest, next_id, runs @ later, active \<or> any))"

definition tick :: "(f64 \<Rightarrow> f64 \<Rightarrow> f64) \<Rightarrow> TasksState \<Rightarrow> Instant \<Rightarrow> nat \<Rightarrow> TasksState \<times> RunRequest list \<times> bool" where
  "tick powf s now now_ms =
     (let (qs, next_id, runs, active) = tick_queues powf now now_ms (queues s) (next_dispatch s)
      in (\<lparr>queues = qs, next_dispatch = next_id\<rparr>, runs, active))"

text \<open>What \<open>run\<close> does once the request has come back.\<close>

definition run_outcome :: "TasksState \<Rightarrow> RunRequest \<Rightarrow> Outcome \<Rightarrow> Instant \<Rightarrow> TasksState" where
  "run_outcome s request outcome now =
     (case map_of (queues s) (request_queue_key request) of
        None \<Rightarrow> s
      | Some q \<Rightarrow> s\<lparr>queues := index_insert (queues s) (request_queue_key request)
                      (complete q (request_dispatch_id request) outcome now)\<rparr>)"

end
