(* ===== verification/Task_Facts.thy ===== *)
theory Task_Facts
  imports Task_Queue
begin

text \<open>
  Invariants of one task queue: the stack of free slots names exactly the free slots, dispatch
  ids are unique, and what each operation does to the dispatches and to the runs.
\<close>

section \<open>Slots\<close>

definition slots_ok :: "TaskQueue \<Rightarrow> bool" where
  "slots_ok q =
     (length (slots q) = config_slots (queue_config q) \<and> distinct (open_slots q)
      \<and> set (open_slots q) = {i. i < length (slots q) \<and> slots q ! i = None})"

definition holds :: "TaskQueue \<Rightarrow> nat \<Rightarrow> Dispatch \<Rightarrow> bool" where
  "holds q i d = (i < length (slots q) \<and> slots q ! i = Some d)"

definition ids :: "TaskQueue \<Rightarrow> nat set" where
  "ids q = {dispatch_id d | i d. holds q i d}"

definition running :: "TaskQueue \<Rightarrow> nat set" where
  "running q = {dispatch_id d | i d. holds q i d \<and> dispatch_status d = Running}"

definition unique_ids :: "TaskQueue \<Rightarrow> bool" where
  "unique_ids q = (\<forall>i j d e. holds q i d \<longrightarrow> holds q j e \<longrightarrow> dispatch_id d = dispatch_id e \<longrightarrow> i = j)"

definition queue_ok :: "TaskQueue \<Rightarrow> nat \<Rightarrow> bool" where
  "queue_ok q n = (slots_ok q \<and> unique_ids q \<and> ids q \<subseteq> {..n})"

lemma ids_iff: "(x \<in> ids q) = (\<exists>i d. holds q i d \<and> dispatch_id d = x)"
  by (auto simp: ids_def)

lemma running_iff: "(x \<in> running q) = (\<exists>i d. holds q i d \<and> dispatch_id d = x \<and> dispatch_status d = Running)"
  by (auto simp: running_def)

lemma holds_unique: "holds q i d \<Longrightarrow> holds q i e \<Longrightarrow> d = e"
  by (simp add: holds_def)

lemma running_ids: "running q \<subseteq> ids q"
  by (auto simp: running_def ids_def)

lemma queue_ok_slots:
  "slots q' = slots q \<Longrightarrow> open_slots q' = open_slots q \<Longrightarrow> queue_config q' = queue_config q \<Longrightarrow>
    queue_ok q' n = queue_ok q n \<and> ids q' = ids q \<and> running q' = running q"
  by (simp add: queue_ok_def slots_ok_def unique_ids_def ids_def running_def holds_def)

lemma queue_ok_new: "queue_ok (TaskQueue_new key config now) n" "ids (TaskQueue_new key config now) = {}"
  by (auto simp: queue_ok_def slots_ok_def unique_ids_def ids_def holds_def TaskQueue_new_def)

text \<open>The effect of an operation: surviving dispatches, new ids and the runs it starts.\<close>

definition step_effect :: "TaskQueue \<Rightarrow> nat \<Rightarrow> TaskQueue \<Rightarrow> nat \<Rightarrow> RunRequest list \<Rightarrow> bool" where
  "step_effect q n q' n' runs =
     (n \<le> n' \<and> queue_ok q' n' \<and> queue_name q' = queue_name q
      \<and> ids q' \<subseteq> ids q \<union> {n<..n'}
      \<and> running q' = running q \<union> set (map request_dispatch_id runs)
      \<and> distinct (map request_dispatch_id runs)
      \<and> set (map request_dispatch_id runs) \<inter> running q = {}
      \<and> (\<forall>r\<in>set runs. request_queue_key r = queue_name q))"

lemma step_effect_refl: "queue_ok q n \<Longrightarrow> step_effect q n q n []"
  by (simp add: step_effect_def)

lemma step_effect_trans:
  assumes "step_effect q n q1 n1 runs" "step_effect q1 n1 q2 n2 runs2"
  shows "step_effect q n q2 n2 (runs @ runs2)"
proof -
  have le: "n \<le> n1" "n1 \<le> n2" using assms by (simp_all add: step_effect_def)
  then have "{n<..n1} \<subseteq> {n<..n2}" "{n1<..n2} \<subseteq> {n<..n2}" by auto
  then have "ids q2 \<subseteq> ids q \<union> {n<..n2}" using assms unfolding step_effect_def by blast
  then show ?thesis using assms le unfolding step_effect_def by auto
qed

lemma step_effect_same:
  assumes "queue_ok q n" "slots q' = slots q" "open_slots q' = open_slots q" "queue_config q' = queue_config q"
    "queue_name q' = queue_name q"
  shows "step_effect q n q' n []"
  using queue_ok_slots [OF assms(2-4), of n] assms(1,5) by (simp add: step_effect_def)

section \<open>Dispatching\<close>

lemma holds_update:
  "i < length (slots q) \<Longrightarrow> slots q' = (slots q)[i := x] \<Longrightarrow>
    holds q' j d = (if j = i then x = Some d else holds q j d)"
  by (auto simp: holds_def nth_list_update)

lemma holds_split:
  "holds q i d \<Longrightarrow> (\<exists>j e. holds q j e \<and> P e) = (P d \<or> (\<exists>j e. j \<noteq> i \<and> holds q j e \<and> P e))"
  by (metis holds_unique)

lemma holds_update_split:
  assumes "i < length (slots q)" "slots q' = (slots q)[i := Some e]"
  shows "(\<exists>j d. holds q' j d \<and> P d) = (P e \<or> (\<exists>j d. j \<noteq> i \<and> holds q j d \<and> P d))"
proof -
  note at = holds_update [OF assms]
  have "holds q' i e" "\<And>j d. j \<noteq> i \<Longrightarrow> holds q' j d = holds q j d" by (simp_all add: at)
  then show ?thesis using holds_split [of q' i e P] by metis
qed

text \<open>A key of dispatches stays unique when the dispatch put into a slot has a fresh one.\<close>

lemma unique_update:
  assumes unique: "\<And>i j d e. holds q i d \<Longrightarrow> holds q j e \<Longrightarrow> key d = key e \<Longrightarrow> i = j"
    and update: "i < length (slots q)" "slots q' = (slots q)[i := x]"
    and fresh: "\<And>d j e. x = Some d \<Longrightarrow> j \<noteq> i \<Longrightarrow> holds q j e \<Longrightarrow> key e \<noteq> key d"
    and new: "holds q' j d" "holds q' k e" "key d = key e"
  shows "j = k"
proof -
  note at = holds_update [OF update]
  consider "j = i" "k = i" | "j = i" "k \<noteq> i" | "j \<noteq> i" "k = i" | "j \<noteq> i" "k \<noteq> i" by blast
  then show ?thesis
  proof cases
    case 2
    then have "x = Some d" "holds q k e" using new(1,2) by (simp_all add: at)
    then show ?thesis using fresh [of d k e] 2 new(3) by simp
  next
    case 3
    then have "x = Some e" "holds q j d" using new(1,2) by (simp_all add: at)
    then show ?thesis using fresh [of e j d] 3 new(3) by simp
  next
    case 4
    then have "holds q j d" "holds q k e" using new(1,2) by (simp_all add: at)
    then show ?thesis using unique new(3) by blast
  qed simp
qed

lemma unique_ids_update:
  assumes "unique_ids q" "i < length (slots q)" "slots q' = (slots q)[i := x]"
    and fresh: "\<And>d j e. x = Some d \<Longrightarrow> j \<noteq> i \<Longrightarrow> holds q j e \<Longrightarrow> dispatch_id e \<noteq> dispatch_id d"
  shows "unique_ids q'"
  unfolding unique_ids_def
proof (intro allI impI)
  fix j k d e assume new: "holds q' j d" "holds q' k e" "dispatch_id d = dispatch_id e"
  show "j = k"
    by (rule unique_update [where key = dispatch_id, OF _ assms(2,3) fresh new])
      (use assms(1) in \<open>auto simp: unique_ids_def\<close>)
qed

lemma ids_update:
  "i < length (slots q) \<Longrightarrow> slots q' = (slots q)[i := x] \<Longrightarrow> ids q' \<subseteq> ids q \<union> {dispatch_id d | d. x = Some d}"
  by (auto simp: ids_def holds_update split: if_splits)

lemma running_update:
  "i < length (slots q) \<Longrightarrow> slots q' = (slots q)[i := x] \<Longrightarrow>
    (\<And>d. slots q ! i = Some d \<Longrightarrow> dispatch_status d \<noteq> Running) \<Longrightarrow>
    (\<And>d. x = Some d \<Longrightarrow> dispatch_status d \<noteq> Running) \<Longrightarrow> running q' = running q"
  by (auto simp: running_def holds_update split: if_splits) (metis holds_def)

lemma last_open:
  assumes "slots_ok q" "open_slots q \<noteq> []"
  shows "last (open_slots q) < length (slots q)" "slots q ! last (open_slots q) = None"
  using assms last_in_set [OF assms(2)] by (auto simp: slots_ok_def)

lemma dispatch_one_effect:
  assumes ok: "queue_ok q n" and can: "can_dispatch q"
  shows "step_effect q n (dispatch_one q now (n + 1)) (n + 1) []"
proof -
  let ?q = "dispatch_one q now (n + 1)" and ?i = "last (open_slots q)"
  have slots: "slots_ok q" "open_slots q \<noteq> []" using ok can by (auto simp: queue_ok_def can_dispatch_def)
  note free = last_open [OF slots]
  obtain d where d: "slots ?q = (slots q)[?i := Some d]" "dispatch_id d = n + 1" "dispatch_status d = NotStarted"
    by (simp add: dispatch_one_def)
  have old: "dispatch_id e \<le> n" if "holds q j e" for j e using that ok by (auto simp: queue_ok_def ids_def)
  obtain bs i where bs: "open_slots q = bs @ [i]" using slots(2) by (cases "open_slots q" rule: rev_cases) auto
  have "insert i (set bs) = {j. j < length (slots q) \<and> slots q ! j = None}" "distinct bs" "i \<notin> set bs"
    using slots(1) bs by (simp_all add: slots_ok_def)
  then have bs_free: "set bs = {j. j < length (slots q) \<and> slots q ! j = None} - {i}" "distinct bs" by auto
  have "{j. j < length (slots ?q) \<and> slots ?q ! j = None} = {j. j < length (slots q) \<and> slots q ! j = None} - {i}"
    using d(1) bs free(1) by (auto simp: nth_list_update split: if_splits)
  then have "slots_ok ?q"
    using slots(1) bs bs_free unfolding slots_ok_def by (simp add: dispatch_one_def)
  moreover have "unique_ids ?q"
    by (rule unique_ids_update [OF _ free(1) d(1)]) (use ok old d(2) in \<open>fastforce simp: queue_ok_def\<close>)+
  moreover have "ids ?q \<subseteq> ids q \<union> {n<..n + 1}" using ids_update [OF free(1) d(1)] d(2) by auto
  moreover have "running ?q = running q"
    by (rule running_update [OF free(1) d(1)]) (use d(3) free(2) in auto)
  moreover have "ids q \<union> {n<..n + 1} \<subseteq> {..n + 1}" using ok by (fastforce simp: queue_ok_def)
  moreover have "queue_name ?q = queue_name q" by (simp add: dispatch_one_def)
  ultimately show ?thesis unfolding step_effect_def queue_ok_def by (simp, blast)
qed

lemma dispatch_tasks_effect:
  "queue_ok q n \<Longrightarrow> dispatch_tasks q now n = (q', n') \<Longrightarrow> step_effect q n q' n' []"
proof (induction q now n rule: dispatch_tasks.induct)
  case (1 q now n)
  show ?case
  proof (cases "can_dispatch q")
    case True
    note one = dispatch_one_effect [OF "1.prems"(1) True, of now]
    have "queue_ok (dispatch_one q now (n + 1)) (n + 1)" using one by (simp add: step_effect_def)
    moreover have "dispatch_tasks (dispatch_one q now (n + 1)) now (n + 1) = (q', n')"
      using "1.prems"(2) True by (subst (asm) dispatch_tasks.simps) simp
    ultimately show ?thesis using step_effect_trans [OF one "1.IH" [OF True]] by simp
  next
    case False
    then show ?thesis
      using "1.prems" step_effect_refl by (subst (asm) dispatch_tasks.simps) simp
  qed
qed

section \<open>Processing\<close>

definition process_effect :: "TaskQueue \<Rightarrow> nat \<Rightarrow> nat \<Rightarrow> TaskQueue \<times> RunRequest list \<Rightarrow> bool" where
  "process_effect q n k state = (step_effect q n (fst state) n (snd state)
     \<and> queue_config (fst state) = queue_config q \<and> pending (fst state) = pending q
     \<and> length (slots (fst state)) = length (slots q)
     \<and> (\<forall>i. k \<le> i \<longrightarrow> i < length (slots q) \<longrightarrow> slots (fst state) ! i = slots q ! i))"

lemma slot_effect:
  assumes "queue_ok q n" "holds q i d" "slots q' = (slots q)[i := Some e]" "open_slots q' = open_slots q"
    "queue_config q' = queue_config q" "queue_name q' = queue_name q" "dispatch_id e = dispatch_id d"
  shows "queue_ok q' n" "ids q' = ids q"
    "running q' = (if dispatch_status e = Running then insert (dispatch_id d) (running q) else running q - {dispatch_id d})"
proof -
  have i: "i < length (slots q)" using assms(2) by (simp add: holds_def)
  note at = holds_update [OF i assms(3)]
  have d: "holds q j d' \<Longrightarrow> dispatch_id d' = dispatch_id d \<Longrightarrow> j = i" for j d'
    using assms(1,2) unfolding queue_ok_def unique_ids_def by blast
  have "{j. j < length (slots q') \<and> slots q' ! j = None} = {j. j < length (slots q) \<and> slots q ! j = None}"
    using assms(2,3) by (auto simp: holds_def nth_list_update split: if_splits)
  then have "slots_ok q'" using assms(1,3-5) by (simp add: queue_ok_def slots_ok_def)
  moreover show ids: "ids q' = ids q"
    by (rule set_eqI) (simp only: ids_iff holds_update_split [OF i assms(3)] holds_split [OF assms(2)] assms(7))
  moreover have "unique_ids q'"
    by (rule unique_ids_update [OF _ i assms(3)]) (use assms(1,7) d in \<open>auto simp: queue_ok_def\<close>)
  ultimately show "queue_ok q' n" using assms(1) by (simp add: queue_ok_def)
  show "running q' = (if dispatch_status e = Running then insert (dispatch_id d) (running q) else running q - {dispatch_id d})"
  proof -
    define others where "others x = (\<exists>j d'. j \<noteq> i \<and> holds q j d' \<and> dispatch_id d' = x \<and> dispatch_status d' = Running)" for x
    have "x \<in> running q' \<longleftrightarrow> dispatch_id e = x \<and> dispatch_status e = Running \<or> others x"
      "x \<in> running q \<longleftrightarrow> dispatch_id d = x \<and> dispatch_status d = Running \<or> others x" for x
      unfolding running_iff others_def holds_update_split [OF i assms(3)] holds_split [OF assms(2)] by simp_all
    moreover have "\<not> others (dispatch_id d)" using d by (auto simp: others_def)
    ultimately show ?thesis using assms(7) by auto
  qed
qed

lemma free_effect:
  assumes "queue_ok q n" "holds q i d" "dispatch_status d \<noteq> Running" "slots q' = (slots q)[i := None]"
    "open_slots q' = open_slots q @ [i]" "queue_config q' = queue_config q" "queue_name q' = queue_name q"
  shows "queue_ok q' n" "ids q' \<subseteq> ids q" "running q' = running q"
proof -
  have i: "i < length (slots q)" "slots q ! i \<noteq> None" using assms(2) by (simp_all add: holds_def)
  note at = holds_update [OF i(1) assms(4)]
  have d: "holds q j d' \<Longrightarrow> dispatch_id d' = dispatch_id d \<Longrightarrow> j = i" for j d'
    using assms(1,2) unfolding queue_ok_def unique_ids_def by blast
  have "{j. j < length (slots q') \<and> slots q' ! j = None} = insert i {j. j < length (slots q) \<and> slots q ! j = None}"
    using i assms(4) by (auto simp: nth_list_update split: if_splits)
  then have "slots_ok q'" using i assms(1,4-6) by (auto simp: queue_ok_def slots_ok_def)
  moreover show ids: "ids q' \<subseteq> ids q" using ids_update [OF i(1) assms(4)] by auto
  moreover have "unique_ids q'"
    by (rule unique_ids_update [OF _ i(1) assms(4)]) (use assms(1) in \<open>auto simp: queue_ok_def\<close>)
  ultimately show "queue_ok q' n" using assms(1) by (auto simp: queue_ok_def)
  show "running q' = running q"
    by (rule running_update [OF i(1) assms(4)]) (use assms(2,3) in \<open>auto simp: holds_def\<close>)
qed

lemma process_slot_effect:
  assumes "process_effect q n k state" "k < length (slots q)"
  shows "process_effect q n (Suc k) (process_slot powf now now_ms k state)"
proof -
  obtain p runs where state: "state = (p, runs)" by fastforce
  have p: "step_effect q n p n runs" "queue_config p = queue_config q" "pending p = pending q"
    "length (slots p) = length (slots q)" "\<And>i. k \<le> i \<Longrightarrow> i < length (slots q) \<Longrightarrow> slots p ! i = slots q ! i"
    using assms(1) by (simp_all add: process_effect_def state)
  have ok: "queue_ok p n" using p(1) by (simp add: step_effect_def)
  have advance: "process_effect q n (Suc k) (p', runs @ later)"
    if "step_effect p n p' n later" "queue_config p' = queue_config p" "pending p' = pending p"
      "slots p' = (slots p)[k := x]" for p' later x
    using that p step_effect_trans [OF p(1) that(1)] by (simp add: process_effect_def)
  have same: "process_effect q n (Suc k) (p, runs)" using p by (simp add: process_effect_def)
  show ?thesis
  proof (cases "slots p ! k")
    case None
    then show ?thesis using same by (simp add: process_slot_def state)
  next
    case (Some d)
    have d: "holds p k d" using Some assms(2) p(4) by (simp add: holds_def)
    have change: "step_effect p n p' n later"
      if "slots p' = (slots p)[k := Some e]" "open_slots p' = open_slots p" "queue_config p' = queue_config p"
        "queue_name p' = queue_name p" "dispatch_id e = dispatch_id d" "dispatch_status d \<noteq> Running"
        "dispatch_status e = Running \<longrightarrow> map request_dispatch_id later = [dispatch_id d]
           \<and> (\<forall>r\<in>set later. request_queue_key r = queue_name p)"
        "dispatch_status e \<noteq> Running \<longrightarrow> later = []" for p' e later
    proof -
      have "dispatch_id d \<notin> running p"
        using d that(6) ok by (auto simp: running_def queue_ok_def unique_ids_def holds_def) (metis option.inject)
      then show ?thesis
        using slot_effect [OF ok d that(1-5)] that by (cases "dispatch_status e = Running") (auto simp: step_effect_def)
    qed
    have free: "step_effect p n p' n []"
      if "slots p' = (slots p)[k := None]" "open_slots p' = open_slots p @ [k]" "queue_config p' = queue_config p"
        "queue_name p' = queue_name p" "dispatch_status d \<noteq> Running" for p'
      using free_effect [OF ok d that(5,1-4)] that(4) by (auto simp: step_effect_def)
    show ?thesis
    proof (cases "dispatch_status d")
      case NotStarted
      let ?e = "d\<lparr>dispatch_status := Running\<rparr>"
      have "process_effect q n (Suc k) (p\<lparr>slots := (slots p)[k := Some ?e]\<rparr>, runs @ [build_request (queue_name p) ?e now_ms])"
        by (rule advance [OF change [where e = ?e]]) (simp_all add: NotStarted build_request_def Let_def)
      then show ?thesis using same by (simp add: process_slot_def state Some NotStarted Let_def)
    next
      case Retry
      let ?e = "if should_stop_retrying d (queue_config p) now then d\<lparr>dispatch_status := Failed\<rparr>
        else (update_metadata powf d (queue_config p))\<lparr>dispatch_status := NotStarted\<rparr>"
      have "process_effect q n (Suc k) (p\<lparr>slots := (slots p)[k := Some ?e]\<rparr>, runs @ [])"
        by (rule advance [OF change [where e = ?e]]) (simp_all add: Retry update_metadata_def Let_def)
      then show ?thesis by (simp add: process_slot_def state Some Retry Let_def)
    next
      case Failed
      have "process_effect q n (Suc k) (p\<lparr>slots := (slots p)[k := None], open_slots := open_slots p @ [k],
          completed := completed p @ [now], failed := failed p @ [now]\<rparr>, runs @ [])"
        by (rule advance [OF free]) (simp_all add: Failed)
      then show ?thesis by (simp add: process_slot_def state Some Failed)
    next
      case Finished
      have "process_effect q n (Suc k) (p\<lparr>slots := (slots p)[k := None], open_slots := open_slots p @ [k],
          completed := completed p @ [now]\<rparr>, runs @ [])"
        by (rule advance [OF free]) (simp_all add: Finished)
      then show ?thesis by (simp add: process_slot_def state Some Finished)
    qed (use same in \<open>simp add: process_slot_def state Some\<close>)
  qed
qed

lemma process_runs:
  assumes "queue_ok q n" "process powf q now now_ms = (q', runs)"
  shows "step_effect q n q' n runs" "queue_config q' = queue_config q" "pending q' = pending q"
proof -
  have "process_effect q n k (fold (process_slot powf now now_ms) [0..<k] (q, []))" if "k \<le> length (slots q)" for k
    using that
  proof (induction k)
    case 0
    show ?case using step_effect_refl [OF assms(1)] by (simp add: process_effect_def)
  next
    case (Suc k)
    then show ?case using process_slot_effect [of q n k] by simp
  qed
  from this [of "length (slots q)"] show "step_effect q n q' n runs" "queue_config q' = queue_config q" "pending q' = pending q"
    using assms(2) by (simp_all add: process_def process_effect_def)
qed

section \<open>Responses\<close>

lemma complete_slots_nth:
  "complete_slots xs n outcome now = xs \<or>
    (\<exists>i d. i < length xs \<and> xs ! i = Some d \<and> dispatch_id d = n \<and> dispatch_status d = Running
      \<and> complete_slots xs n outcome now = xs[i := Some (complete_dispatch d outcome now)])"
proof (induction xs n outcome now rule: complete_slots.induct)
  case (2 rest n outcome now)
  then show ?case by (auto intro: exI [of _ "Suc _"])
next
  case (3 d rest n outcome now)
  show ?case
  proof (cases "dispatch_id d = n \<and> dispatch_status d = Running")
    case True
    then show ?thesis by (intro disjI2 exI [of _ 0] exI [of _ d]) simp
  next
    case False
    then show ?thesis using 3 by (auto intro: exI [of _ "Suc _"])
  qed
qed simp

lemma complete_dispatch_simps [simp]:
  "dispatch_id (complete_dispatch d outcome now) = dispatch_id d"
  "dispatch_status (complete_dispatch d outcome now) \<noteq> Running"
  "attempt (complete_dispatch d outcome now) = attempt d"
  by (simp_all add: complete_dispatch_def split: Outcome.splits)

lemma complete_found:
  assumes "queue_ok q n" "m \<in> running q"
  shows "\<exists>i d. holds q i d \<and> dispatch_id d = m \<and> dispatch_status d = Running
    \<and> slots (complete q m outcome now) = (slots q)[i := Some (complete_dispatch d outcome now)]"
proof -
  have "complete_slots xs m outcome now \<noteq> xs" if "Some d \<in> set xs" "dispatch_id d = m" "dispatch_status d = Running" for xs d
    using that
  proof (induction xs m outcome now rule: complete_slots.induct)
    case (3 e rest n outcome now)
    have "complete_dispatch e outcome now \<noteq> e" if "dispatch_status e = Running"
      using that complete_dispatch_simps(2) [of e outcome now] by metis
    then show ?case using 3 by auto
  qed auto
  moreover obtain i d where "holds q i d" "dispatch_id d = m" "dispatch_status d = Running"
    using assms(2) by (auto simp: running_def)
  moreover have "Some d \<in> set (slots q)" using calculation(2) by (auto simp: holds_def in_set_conv_nth)
  ultimately have "complete_slots (slots q) m outcome now \<noteq> slots q" by blast
  then show ?thesis using complete_slots_nth [of "slots q" m outcome now] by (auto simp: holds_def complete_def)
qed

lemma complete_running:
  assumes "queue_ok q n"
  shows "queue_ok (complete q m outcome now) n" "ids (complete q m outcome now) = ids q"
    "running (complete q m outcome now) = running q - {m}"
proof -
  let ?q = "complete q m outcome now"
  consider "slots ?q = slots q" "m \<notin> running q"
    | i d where "holds q i d" "dispatch_id d = m" "dispatch_status d = Running"
        "slots ?q = (slots q)[i := Some (complete_dispatch d outcome now)]"
    using complete_slots_nth [of "slots q" m outcome now] complete_found [OF assms, of m outcome now]
    by (cases "m \<in> running q") (auto simp: complete_def holds_def running_def)
  then have "queue_ok ?q n \<and> ids ?q = ids q \<and> running ?q = running q - {m}"
  proof cases
    case 1
    then show ?thesis using queue_ok_slots [of ?q q n] assms by (simp add: complete_def)
  next
    case 2
    then show ?thesis using slot_effect [OF assms 2(1,4)] by (simp add: complete_def)
  qed
  then show "queue_ok ?q n" "ids ?q = ids q" "running ?q = running q - {m}" by simp_all
qed

end
