(* ===== verification/Task_Numbers.thy ===== *)
theory Task_Numbers
  imports Task_Queue
begin

text \<open>
  Rounded arithmetic on non-negative doubles, as the token bucket and the backoff of a task
  queue need it: sums, differences, products and durations never become negative or NaN, and
  rounding never takes an amount of at least one below one.
\<close>

lemma bit_length_less: "n < 2 ^ bit_length n"
proof (induction n rule: bit_length.induct)
  case (1 n)
  then show ?case by (cases "n = 0"; subst bit_length.simps) auto
qed

lemma bit_length_le: "n \<noteq> 0 \<Longrightarrow> 2 ^ (bit_length n - 1) \<le> n"
proof (induction n rule: bit_length.induct)
  case (1 n)
  show ?case
  proof (cases "n div 2 = 0")
    case True
    then have "n = 1" using "1.prems" by auto
    then show ?thesis by (simp add: bit_length.simps)
  next
    case False
    have "bit_length n - 1 = Suc (bit_length (n div 2) - 1)"
      using "1.prems" False bit_length.simps [of n] bit_length.simps [of "n div 2"] by simp
    then show ?thesis using "1.IH" "1.prems" False by simp
  qed
qed

lemma bit_length_ge: "2 ^ j \<le> n \<Longrightarrow> j < bit_length n"
  by (rule power_less_imp_less_exp [of "2::nat"]) (use bit_length_less [of n] in linarith)+

section \<open>Bit patterns of non-negative numbers\<close>

lemma f64_le_zero: "f64_le 0 x = (\<not> f64_is_nan x \<and> 0 \<le> f64_scaled x)"
  by (simp add: f64_le_def f64_is_nan_def f64_magnitude_def f64_scaled_def)

lemma f64_one_parts: "\<not> f64_is_nan f64_one" "f64_is_finite f64_one" "\<not> f64_negative f64_one" "f64_scaled f64_one = f64_unit"
  by (simp_all add: f64_one_def f64_is_nan_def f64_is_finite_def f64_negative_def f64_magnitude_def f64_scaled_def f64_unit_def)

lemma f64_le_one: "f64_le f64_one x = (\<not> f64_is_nan x \<and> f64_unit \<le> f64_scaled x)"
  by (simp add: f64_le_def f64_one_parts)

lemma f64_le_one_zero: "f64_le f64_one x \<Longrightarrow> f64_le 0 x"
  unfolding f64_le_one f64_le_zero using f64_unit_pos by linarith

lemma f64_positive_pattern:
  assumes "unat x \<le> 2047 * 2 ^ 52"
  shows "\<not> f64_is_nan x" "\<not> f64_negative x" "0 \<le> f64_scaled x" "1023 * 2 ^ 52 \<le> unat x \<Longrightarrow> f64_unit \<le> f64_scaled x"
proof -
  have m: "f64_magnitude x = unat x" using assms by (simp add: f64_magnitude_def)
  show "\<not> f64_is_nan x" "\<not> f64_negative x" using assms by (simp_all add: f64_is_nan_def f64_negative_def m)
  then show "0 \<le> f64_scaled x" by (simp add: f64_scaled_def Let_def)
  assume big: "1023 * 2 ^ 52 \<le> unat x"
  then have "1023 * 2 ^ 52 div 2 ^ 52 \<le> unat x div 2 ^ 52" by (rule div_le_mono)
  then have e: "1023 \<le> unat x div 2 ^ 52" by simp
  then have "(2::nat) ^ 52 * 2 ^ 1022 \<le> (2 ^ 52 + unat x mod 2 ^ 52) * 2 ^ (unat x div 2 ^ 52 - 1)"
    by (intro mult_mono power_increasing) auto
  moreover have "(2::nat) ^ 52 * 2 ^ 1022 = 2 ^ 1074" by (simp only: power_add [symmetric]) simp
  ultimately have "int (2 ^ 1074) \<le> int ((2 ^ 52 + unat x mod 2 ^ 52) * 2 ^ (unat x div 2 ^ 52 - 1))"
    by (simp only: of_nat_le_iff)
  moreover have "f64_scaled x = int ((2 ^ 52 + unat x mod 2 ^ 52) * 2 ^ (unat x div 2 ^ 52 - 1))"
    using e \<open>\<not> f64_negative x\<close> by (simp only: f64_scaled_def Let_def m) simp
  ultimately show "f64_unit \<le> f64_scaled x" by (simp only: f64_unit_def of_nat_power of_nat_numeral)
qed

lemma f64_round_pattern:
  fixes num den :: nat
  assumes "0 < den"
  defines "k \<equiv> bit_length (num div den) - 53"
  shows "unat (f64_round num den) \<le> 2047 * 2 ^ 52"
    "k * 2 ^ 52 + num div (den * 2 ^ k) \<le> unat (f64_round num den) \<or> unat (f64_round num den) = 2047 * 2 ^ 52"
proof -
  define b where "b = k * 2 ^ 52 + num div (den * 2 ^ k)
    + (if den * 2 ^ k < 2 * (num mod (den * 2 ^ k)) \<or> 2 * (num mod (den * 2 ^ k)) = den * 2 ^ k \<and> odd (num div (den * 2 ^ k)) then 1 else 0)"
  have round: "f64_round num den = (if 2047 * 2 ^ 52 \<le> b then f64_infinity else of_nat b)"
    unfolding f64_round_def Let_def b_def k_def by (rule refl)
  have inf: "unat f64_infinity = 2047 * 2 ^ 52" by (simp add: f64_infinity_def)
  have small: "unat (of_nat b :: f64) = b" if "b < 2047 * 2 ^ 52" using that by (simp add: unat_of_nat)
  show "unat (f64_round num den) \<le> 2047 * 2 ^ 52" using inf small unfolding round by auto
  show "k * 2 ^ 52 + num div (den * 2 ^ k) \<le> unat (f64_round num den) \<or> unat (f64_round num den) = 2047 * 2 ^ 52"
    using inf small unfolding round by (auto simp: b_def)
qed

lemma f64_round_zero: "f64_round 0 den = 0"
  by (simp add: f64_round_def bit_length.simps Let_def)

lemma f64_round_nonneg: "0 < den \<Longrightarrow> f64_le 0 (f64_round num den)"
  using f64_positive_pattern [OF f64_round_pattern(1)] by (simp add: f64_le_zero)

lemma f64_round_one:
  assumes "0 < den" "den * 2 ^ 1074 \<le> num"
  shows "f64_le f64_one (f64_round num den)"
proof -
  let ?q = "num div den"
  define k where "k = bit_length ?q - 53"
  have "den * 2 ^ 1074 div den \<le> ?q" using assms(2) by (rule div_le_mono)
  then have q: "2 ^ 1074 \<le> ?q" using assms(1) by (simp del: power_numeral)
  then have k: "1022 \<le> k" using bit_length_ge [OF q] by (simp add: k_def)
  have "?q \<noteq> 0" using q by (metis not_one_le_zero one_le_power le_trans one_le_numeral)
  then have "2 ^ (bit_length ?q - 1) div 2 ^ k \<le> ?q div 2 ^ k" by (intro div_le_mono bit_length_le)
  moreover have "bit_length ?q - 1 = 52 + k" using k by (simp add: k_def)
  ultimately have "2 ^ 52 \<le> num div (den * 2 ^ k)" by (simp add: power_add div_mult2_eq del: power_numeral)
  moreover have "1022 * 2 ^ 52 \<le> k * 2 ^ 52" using k by (rule mult_le_mono1)
  ultimately have "1023 * 2 ^ 52 \<le> k * 2 ^ 52 + num div (den * 2 ^ k)" by simp
  then have "1023 * 2 ^ 52 \<le> unat (f64_round num den)"
    using f64_round_pattern(2) [OF assms(1), of num] unfolding k_def by auto
  then show ?thesis
    using f64_positive_pattern [OF f64_round_pattern(1) [OF assms(1)]] by (simp add: f64_le_one)
qed

section \<open>Arithmetic\<close>

lemma f64_negative_scaled: "f64_negative x \<Longrightarrow> f64_scaled x \<le> 0" "\<not> f64_negative x \<Longrightarrow> 0 \<le> f64_scaled x"
  by (simp_all add: f64_scaled_def Let_def)

lemma f64_zero_signed: "f64_le 0 (f64_with_sign negative 0)"
  by (simp add: f64_le_zero f64_with_sign_def f64_is_nan_def f64_magnitude_def f64_scaled_def)

lemma f64_infinity_parts:
  "\<not> f64_is_nan f64_infinity" "\<not> f64_is_finite f64_infinity" "\<not> f64_negative f64_infinity" "f64_le f64_one f64_infinity"
  using f64_positive_pattern [of f64_infinity]
  by (simp_all add: f64_infinity_def f64_is_nan_def f64_is_finite_def f64_magnitude_def f64_le_one)

lemma f64_round_signed_nonneg: "0 \<le> n \<Longrightarrow> f64_le 0 (f64_round_signed n 1)"
  by (simp add: f64_round_signed_def f64_with_sign_def f64_round_nonneg)

lemma f64_round_signed_one:
  assumes "f64_unit \<le> n"
  shows "f64_le f64_one (f64_round_signed n 1)"
proof -
  have "nat f64_unit \<le> nat n" using assms by (rule nat_mono)
  then have "1 * 2 ^ 1074 \<le> nat n" by (simp add: f64_unit_def nat_power_eq del: power_numeral)
  moreover have "0 \<le> n" using assms f64_unit_pos by linarith
  ultimately show ?thesis
    using f64_round_one [of 1 "nat n"]
    by (simp add: f64_round_signed_def f64_with_sign_def del: power_numeral)
qed

lemma f64_of_i64_nonneg: "0 \<le> n \<Longrightarrow> f64_le 0 (f64_of_i64 n)"
  unfolding f64_of_i64_def by (rule f64_round_signed_nonneg) simp

lemma f64_of_i64_one: "1 \<le> n \<Longrightarrow> f64_le f64_one (f64_of_i64 n)"
  unfolding f64_of_i64_def using mult_right_mono [of 1 n f64_unit] by (intro f64_round_signed_one) simp

lemma f64_add_nonneg:
  assumes "f64_le 0 a" "f64_le 0 b"
  shows "f64_le 0 (f64_add a b)"
proof -
  have nonneg: "\<not> f64_is_nan a" "\<not> f64_is_nan b" "0 \<le> f64_scaled a" "0 \<le> f64_scaled b" using assms by (simp_all add: f64_le_zero)
  have "\<not> f64_is_finite a \<Longrightarrow> \<not> f64_negative a" "\<not> f64_is_finite b \<Longrightarrow> \<not> f64_negative b"
    using f64_infinite_scaled [of a] f64_infinite_scaled [of b] f64_negative_scaled(1) [of a] f64_negative_scaled(1) [of b] nonneg
    by fastforce+
  then show ?thesis
    using assms nonneg f64_zero_signed f64_round_signed_nonneg [of "f64_scaled a + f64_scaled b"]
    by (auto simp: f64_add_def Let_def)
qed

lemma f64_add_one:
  assumes "f64_le 0 a" "f64_le 0 b" "f64_le f64_one a \<or> f64_le f64_one b"
  shows "f64_le f64_one (f64_add a b)"
proof -
  have nonneg: "\<not> f64_is_nan a" "\<not> f64_is_nan b" "0 \<le> f64_scaled a" "0 \<le> f64_scaled b" using assms(1,2) by (simp_all add: f64_le_zero)
  have infinite: "\<not> f64_is_finite x \<Longrightarrow> \<not> f64_negative x \<and> f64_le f64_one x" if "f64_le 0 x" for x
  proof -
    assume "\<not> f64_is_finite x"
    moreover have "\<not> f64_is_nan x" using that unfolding f64_le_zero by (rule conjunct1)
    ultimately have "\<bar>f64_scaled x\<bar> = 2 ^ 2098" by (intro f64_infinite_scaled)
    moreover have "(2::int) ^ 1074 \<le> 2 ^ 2098" by (rule power_increasing) simp_all
    moreover have "(0::int) < 2 ^ 2098" by simp
    ultimately have "f64_unit \<le> f64_scaled x" "\<not> f64_scaled x \<le> 0"
      using that unfolding f64_le_zero f64_unit_def by linarith+
    then show ?thesis using that f64_negative_scaled(1) [of x] by (auto simp: f64_le_one f64_le_zero)
  qed
  have sum: "f64_unit \<le> f64_scaled a + f64_scaled b" using assms(3) nonneg by (auto simp: f64_le_one)
  have "f64_scaled a + f64_scaled b \<noteq> 0" using sum f64_unit_pos by linarith
  then show ?thesis
    using nonneg infinite [OF assms(1)] infinite [OF assms(2)] f64_round_signed_one [OF sum]
    by (auto simp: f64_add_def Let_def)
qed

lemma f64_sub_one:
  assumes "f64_le f64_one a"
  shows "f64_le 0 (f64_sub a f64_one)"
proof -
  have a: "\<not> f64_is_nan a" "f64_unit \<le> f64_scaled a" using assms by (simp_all add: f64_le_one)
  have "unat (f64_neg f64_one) = 2 ^ 63 + 1023 * 2 ^ 52" by (simp add: f64_neg_def f64_one_def)
  then have neg: "\<not> f64_is_nan (f64_neg f64_one)" "f64_is_finite (f64_neg f64_one)" "f64_scaled (f64_neg f64_one) = - f64_unit"
    by (simp_all add: f64_is_nan_def f64_is_finite_def f64_magnitude_def f64_scaled_def f64_negative_def f64_unit_def)
  show ?thesis
    using a neg f64_zero_signed f64_round_signed_nonneg [of "f64_scaled a - f64_unit"] f64_le_one_zero [OF assms]
    by (simp add: f64_sub_def f64_add_def Let_def)
qed

lemma f64_lt_zero: "f64_lt 0 x = (\<not> f64_is_nan x \<and> 0 < f64_scaled x)"
  by (simp add: f64_lt_def f64_is_nan_def f64_magnitude_def f64_scaled_def)

lemma f64_mul_positive:
  assumes "f64_lt 0 a" "f64_lt 0 b"
  shows "f64_le 0 (f64_mul a b)"
proof -
  have parts: "\<not> f64_is_nan a" "\<not> f64_is_nan b" "f64_scaled a \<noteq> 0" "f64_scaled b \<noteq> 0" "\<not> f64_negative a" "\<not> f64_negative b"
    using assms f64_negative_scaled(1) [of a] f64_negative_scaled(1) [of b] by (auto simp: f64_lt_zero)
  then show ?thesis
    using f64_round_nonneg [of "nat f64_unit"] f64_le_one_zero [OF f64_infinity_parts(4)]
    by (simp add: f64_mul_def f64_with_sign_def)
qed

lemma f64_one_positive: "f64_le f64_one x \<Longrightarrow> f64_lt 0 x"
  unfolding f64_le_one f64_lt_zero using f64_unit_pos by linarith

lemma f64_mul_infinity: "f64_lt 0 a \<Longrightarrow> f64_mul a f64_infinity = f64_infinity"
  using f64_negative_scaled(1) [of a] f64_infinity_parts f64_one_positive [OF f64_infinity_parts(4)]
  by (auto simp: f64_lt_zero f64_mul_def f64_with_sign_def)

section \<open>Durations\<close>

lemma f64_of_i64_round: "0 \<le> n \<Longrightarrow> f64_of_i64 n = f64_round (nat (n * f64_unit)) 1"
proof -
  assume "0 \<le> n"
  then have "0 \<le> n * f64_unit" by simp
  then show ?thesis unfolding f64_of_i64_def f64_round_signed_def f64_with_sign_def by (simp add: not_less)
qed

lemma f64_of_i64_positive: "0 \<le> n \<Longrightarrow> \<not> f64_negative (f64_of_i64 n)"
  using f64_positive_pattern(2) [OF f64_round_pattern(1) [of 1 "nat (n * f64_unit)"]] by (simp only: f64_of_i64_round) simp

lemma of_nat_pattern: "b < 2047 * 2 ^ 52 \<Longrightarrow> unat (of_nat b :: f64) = b"
  by (simp add: unat_of_nat)

lemma f64_of_i64_finite:
  assumes "0 \<le> n" "n < 2 ^ 64"
  shows "f64_is_finite (f64_of_i64 n)"
proof -
  define m where "m = nat (n * f64_unit)"
  define k where "k = bit_length m - 53"
  have "n * f64_unit < 2 ^ 64 * f64_unit" using assms(2) by (rule mult_strict_right_mono) simp
  then have "m < nat (2 ^ 64 * f64_unit)" unfolding m_def using assms(1) by (subst nat_mono_iff) simp_all
  also have "\<dots> = 2 ^ 1138" by (simp add: f64_unit_def nat_power_eq power_add [symmetric] del: power_numeral)
  finally have m: "m < 2 ^ 1138" .
  have "bit_length m \<le> 1138"
  proof (cases "m = 0")
    case False
    have "2 ^ (bit_length m - 1) < (2::nat) ^ 1138" using bit_length_le [OF False] m by linarith
    then show ?thesis using power_less_imp_less_exp [of "2::nat" "bit_length m - 1" 1138] by simp
  qed (simp add: bit_length.simps)
  then have k: "k \<le> 1085" by (simp add: k_def)
  have "bit_length m \<le> 53 + k" by (simp add: k_def)
  then have "2 ^ bit_length m \<le> (2::nat) ^ (53 + k)" by (rule power_increasing) simp
  then have "m < 2 ^ (53 + k)" using bit_length_less [of m] by linarith
  then have "m div 2 ^ k < 2 ^ 53" by (simp add: power_add less_mult_imp_div_less)
  then have "k * 2 ^ 52 + m div 2 ^ k + 1 < 2047 * 2 ^ 52" using k by simp
  then have small: "k * 2 ^ 52 + m div 2 ^ k + (if up then 1 else 0) < 2047 * 2 ^ 52" for up by (cases up) auto
  obtain up where "f64_of_i64 n = of_nat (k * 2 ^ 52 + m div 2 ^ k + (if up then 1 else 0))"
    using small unfolding f64_of_i64_round [OF assms(1)] m_def [symmetric] f64_round_def Let_def div_by_1 mult_1 k_def [symmetric]
    by (metis not_le)
  then have "unat (f64_of_i64 n) < 2047 * 2 ^ 52"
    using small [of up] of_nat_pattern by (simp only:)
  then show ?thesis by (simp add: f64_is_finite_def f64_magnitude_def)
qed

lemma as_secs: "f64_le 0 (as_secs_f64 d)" "1000000000 \<le> d \<Longrightarrow> f64_le f64_one (as_secs_f64 d)"
proof -
  let ?a = "f64_of_i64 (int (d mod 1000000000))" and ?b = "f64_of_i64 1000000000"
  have b: "f64_le f64_one ?b" "f64_is_finite ?b" "\<not> f64_negative ?b"
    using f64_of_i64_one f64_of_i64_finite f64_of_i64_positive by simp_all
  have "int (d mod 1000000000) < 1000000000" by simp
  then have a: "f64_le 0 ?a" "f64_is_finite ?a" "\<not> f64_negative ?a"
    using f64_of_i64_nonneg f64_of_i64_finite f64_of_i64_positive by simp_all
  have "0 < f64_scaled ?b" using b(1) f64_unit_pos unfolding f64_le_one by linarith
  then have frac: "f64_le 0 (f64_div ?a ?b)"
    using a b f64_round_nonneg [of "nat \<bar>f64_scaled ?b\<bar>"] by (simp add: f64_div_def f64_le_zero f64_le_one f64_with_sign_def)
  show "f64_le 0 (as_secs_f64 d)"
    unfolding as_secs_f64_def by (rule f64_add_nonneg [OF _ frac]) (simp add: f64_of_i64_nonneg)
  assume "1000000000 \<le> d"
  then have "1 \<le> int (d div 1000000000)" using div_le_mono [of 1000000000 d 1000000000] by simp
  then show "f64_le f64_one (as_secs_f64 d)"
    unfolding as_secs_f64_def using f64_of_i64_one f64_of_i64_nonneg by (intro f64_add_one frac) auto
qed

end
