(* ===== verification/Task_Props.thy ===== *)
theory Task_Props
  imports Task_Facts Task_Numbers "HOL-Library.Sublist"
begin

text \<open>
  What the task queues promise: every dispatch has at most one request in flight and requests
  stay within the slots, tasks start in the order they were accepted and at most once, and
  every accepted task is eventually done.
\<close>

section \<open>A concrete queue\<close>

text \<open>Two slots, an unlimited rate, no backoff, and no retry after the first attempt.\<close>

definition demo_config :: QueueConfig where
  "demo_config = \<lparr>max_attempts = 0, max_retry_seconds = None, max_backoff_seconds = 0, max_doublings = 0,
     min_backoff_seconds = 0, config_slots = 2, max_dispatches_per_second = f64_infinity\<rparr>"

definition demo_task :: TaskRecord where
  "demo_task = \<lparr>task_name = ''queues/q/tasks/a'', task_url = None, task_headers = [], task_body = [],
     schedule_time = None, task_deadline = 0\<rparr>"

definition demo_queue :: TaskQueue where
  "demo_queue = the (enqueue (TaskQueue_new ''q'' demo_config 0) demo_task 0)"

lemma demo_rate: "1000000000 \<le> d \<Longrightarrow> f64_mul (as_secs_f64 d) f64_infinity = f64_infinity"
  using f64_mul_infinity [OF f64_one_positive [OF as_secs(2)]] .

lemma demo_enqueue: "enqueue (TaskQueue_new ''q'' demo_config 0) demo_task 0 = Some demo_queue"
  by (simp add: demo_queue_def enqueue_def TaskQueue_new_def QUEUE_CAPACITY_def)

lemma demo_queue_eq:
  "demo_queue = (TaskQueue_new ''q'' demo_config 0)\<lparr>known_names := {task_name demo_task}, queued_ids := {task_name demo_task},
     pending := [demo_task], queue_count := 1, slots := [None, None], open_slots := [0, 1], added := [0]\<rparr>"
  by (simp add: demo_queue_def enqueue_def TaskQueue_new_def QUEUE_CAPACITY_def demo_config_def numeral_2_eq_2)

definition demo_ready :: TaskQueue where
  "demo_ready = demo_queue\<lparr>tokens := f64_infinity, last_token_update := 1000000000\<rparr>"

lemma demo_refill: "refill_tokens demo_queue 1000000000 = demo_ready"
proof -
  have "js_max f64_infinity 0x3FF199999999999A = f64_infinity"
    by (simp add: js_max_def f64_infinity_def f64_is_nan_def f64_magnitude_def f64_le_def f64_scaled_def f64_negative_def)
  moreover have "js_min (f64_add 0 f64_infinity) f64_infinity = f64_infinity"
    by (simp add: js_min_def f64_add_def f64_infinity_def f64_is_nan_def f64_is_finite_def f64_magnitude_def f64_le_def)
  ultimately show ?thesis
    by (simp add: refill_tokens_def demo_ready_def demo_queue_eq TaskQueue_new_def demo_config_def demo_rate)
qed

lemma demo_ready_ok: "queue_ok demo_ready 0"
proof -
  let ?q = "TaskQueue_new ''q'' demo_config 0"
  have "slots demo_ready = slots ?q" "open_slots demo_ready = open_slots ?q" "queue_config demo_ready = queue_config ?q"
    by (simp_all add: demo_ready_def demo_queue_eq TaskQueue_new_def demo_config_def numeral_2_eq_2)
  then show ?thesis using queue_ok_slots [of demo_ready ?q 0] queue_ok_new(1) [of "''q''" demo_config 0 0] by blast
qed

lemma demo_dispatch: "dispatch_tasks demo_ready now n = (dispatch_one demo_ready now (n + 1), n + 1)"
proof -
  have "can_dispatch demo_ready" "\<not> can_dispatch (dispatch_one demo_ready now (n + 1))"
    using f64_infinity_parts(4) by (simp_all add: can_dispatch_def dispatch_one_def demo_ready_def demo_queue_eq)
  then show ?thesis by (simp add: dispatch_tasks.simps)
qed

section \<open>Requests in flight\<close>

abbreviation rid :: "RunRequest \<Rightarrow> nat" where "rid \<equiv> request_dispatch_id"
abbreviation rkey :: "RunRequest \<Rightarrow> string" where "rkey \<equiv> request_queue_key"

text \<open>
  Runs of the whole runtime, with the requests that have been sent and not answered. Every
  operation holds the state mutex, so operations are a sequence.
\<close>

inductive tasks_run :: "(f64 \<Rightarrow> f64 \<Rightarrow> f64) \<Rightarrow> TasksState \<Rightarrow> RunRequest list \<Rightarrow> bool" for powf where
  tasks_start: "tasks_run powf \<lparr>queues = [], next_dispatch = 0\<rparr> []"
| tasks_register: "tasks_run powf s flight \<Longrightarrow> tasks_run powf (register_queue s key config now) flight"
| tasks_enqueue: "tasks_run powf s flight \<Longrightarrow> runtime_enqueue s key task now = Inr s' \<Longrightarrow> tasks_run powf s' flight"
| tasks_remove: "tasks_run powf s flight \<Longrightarrow> runtime_remove s key name = Inr s' \<Longrightarrow> tasks_run powf s' flight"
| tasks_tick: "tasks_run powf s flight \<Longrightarrow> tick powf s now now_ms = (s', runs, active) \<Longrightarrow>
    tasks_run powf s' (flight @ runs)"
| tasks_respond: "tasks_run powf s flight \<Longrightarrow> r \<in> set flight \<Longrightarrow>
    tasks_run powf (run_outcome s r outcome now) (remove1 r flight)"
| tasks_statistics: "tasks_run powf s flight \<Longrightarrow>
    tasks_run powf (s\<lparr>queues := map (\<lambda>e. (fst e, snd (statistics (snd e) now))) (queues s)\<rparr>) flight"

definition runtime_ok :: "(string \<times> TaskQueue) list \<Rightarrow> nat \<Rightarrow> RunRequest list \<Rightarrow> bool" where
  "runtime_ok qs n flight =
     (distinct (map fst qs) \<and> distinct (map rid flight) \<and> (\<forall>r\<in>set flight. rid r \<le> n)
      \<and> (\<forall>k q. (k, q) \<in> set qs \<longrightarrow> queue_name q = k \<and> queue_ok q n
          \<and> (\<forall>m\<in>running q. \<exists>r\<in>set flight. rid r = m \<and> rkey r = k)
          \<and> (\<forall>r\<in>set flight. rid r \<in> ids q \<longrightarrow> rkey r = k \<and> rid r \<in> running q)
          \<and> (\<forall>k' q'. (k', q') \<in> set qs \<longrightarrow> k' \<noteq> k \<longrightarrow> ids q' \<inter> ids q = {})))"

lemma runtime_okD:
  assumes "runtime_ok qs n flight" "(k, q) \<in> set qs"
  shows "queue_name q = k" "queue_ok q n" "\<And>m. m \<in> running q \<Longrightarrow> \<exists>r\<in>set flight. rid r = m \<and> rkey r = k"
    "\<And>r. r \<in> set flight \<Longrightarrow> rid r \<in> ids q \<Longrightarrow> rkey r = k \<and> rid r \<in> running q"
    "\<And>k' q'. (k', q') \<in> set qs \<Longrightarrow> k' \<noteq> k \<Longrightarrow> ids q' \<inter> ids q = {}"
  using assms unfolding runtime_ok_def by blast+

lemma queue_ok_mono: "queue_ok q n \<Longrightarrow> n \<le> n' \<Longrightarrow> queue_ok q n'"
  by (auto simp: queue_ok_def)

lemma runtime_ok_update:
  assumes ok: "runtime_ok (pre @ (k, q) # post) n flight" and step: "step_effect q n q' n' runs"
  shows "runtime_ok (pre @ (k, q') # post) n' (flight @ runs)"
proof -
  let ?old = "pre @ (k, q) # post" and ?new = "pre @ (k, q') # post"
  note q = runtime_okD [OF ok, of k q]
  have keys: "distinct (map fst ?new)" using ok by (simp add: runtime_ok_def)
  have other: "(k2, p) \<in> set ?old" "k2 \<noteq> k" if "(k2, p) \<in> set ?new" "(k2, p) \<noteq> (k, q')" for k2 p
    using that ok by (auto simp: runtime_ok_def image_iff)
  have e: "n \<le> n'" "queue_ok q' n'" "queue_name q' = k" "ids q' \<subseteq> ids q \<union> {n<..n'}"
    "running q' = running q \<union> rid ` set runs" "distinct (map rid runs)" "rid ` set runs \<inter> running q = {}"
    "\<And>r. r \<in> set runs \<Longrightarrow> rkey r = k"
    using step q(1) by (auto simp: step_effect_def)
  have old_le: "rid r \<le> n" if "r \<in> set flight" for r using ok that by (simp add: runtime_ok_def)
  have runs_ids: "rid r \<in> ids q'" if "r \<in> set runs" for r using e(5) running_ids [of q'] that by auto
  have disjoint: "ids p \<inter> ids q' = {}" if "(k2, p) \<in> set ?old" "k2 \<noteq> k" for k2 p
  proof -
    have "ids p \<subseteq> {..n}" using runtime_okD(2) [OF ok that(1)] by (simp add: queue_ok_def)
    moreover have "ids p \<inter> ids q = {}" using q(5) that by simp
    ultimately show ?thesis using e(4) by fastforce
  qed
  have old_ids: "rid r \<in> ids q" if "r \<in> set flight" "rid r \<in> ids q'" for r
    using e(4) old_le [OF that(1)] that(2) by fastforce
  have "rid r \<notin> rid ` set runs" if "r \<in> set flight" for r
    using old_ids [OF that] q(4) [OF _ that] e(7) runs_ids by (auto simp: image_iff)
  then have "distinct (map rid (flight @ runs))"
    using e(6) ok by (auto simp: runtime_ok_def)
  moreover have "\<forall>r\<in>set (flight @ runs). rid r \<le> n'"
    using old_le e(1,2) runs_ids by (fastforce simp: queue_ok_def)
  moreover have "queue_name p = k2 \<and> queue_ok p n' \<and> (\<forall>m\<in>running p. \<exists>r\<in>set (flight @ runs). rid r = m \<and> rkey r = k2)
      \<and> (\<forall>r\<in>set (flight @ runs). rid r \<in> ids p \<longrightarrow> rkey r = k2 \<and> rid r \<in> running p)
      \<and> (\<forall>k' p'. (k', p') \<in> set ?new \<longrightarrow> k' \<noteq> k2 \<longrightarrow> ids p' \<inter> ids p = {})" if p: "(k2, p) \<in> set ?new" for k2 p
  proof (cases "(k2, p) = (k, q')")
    case True
    have "rkey r = k \<and> rid r \<in> running q'" if "r \<in> set (flight @ runs)" "rid r \<in> ids q'" for r
      using that old_ids [of r] q(4) [of r] e(5,8) by auto
    moreover have "\<exists>r\<in>set (flight @ runs). rid r = m \<and> rkey r = k" if "m \<in> running q'" for m
      using that q(3) [of m] e(5,8) by auto
    moreover have "ids p' \<inter> ids q' = {}" if "(k', p') \<in> set ?new" "k' \<noteq> k" for k' p'
      using disjoint [OF other(1) [OF that(1)]] that(2) by auto
    ultimately show ?thesis using True e(2,3) by auto
  next
    case False
    note old = other [OF p False]
    note inv = runtime_okD [OF ok old(1)]
    have "rkey r = k2 \<and> rid r \<in> running p" if "r \<in> set (flight @ runs)" "rid r \<in> ids p" for r
      using that inv(4) [of r] disjoint [OF old] runs_ids [of r] by auto
    moreover have "ids p' \<inter> ids p = {}" if "(k', p') \<in> set ?new" "k' \<noteq> k2" for k' p'
    proof (cases "(k', p') = (k, q')")
      case True
      then show ?thesis using disjoint [OF old] by (simp add: Int_commute)
    next
      case False
      show ?thesis by (rule inv(5) [OF other(1) [OF that(1) False] that(2)])
    qed
    moreover have "\<exists>r\<in>set (flight @ runs). rid r = m \<and> rkey r = k2" if "m \<in> running p" for m
      using inv(3) [OF that] by auto
    ultimately show ?thesis using inv(1) queue_ok_mono [OF inv(2) e(1)] by auto
  qed
  ultimately show ?thesis using keys unfolding runtime_ok_def by blast
qed

lemma index_insert_split:
  "k \<notin> fst ` set pre \<Longrightarrow> index_insert (pre @ (k, q) # post) k q' = pre @ (k, q') # post"
  by (induction pre) auto

lemma index_insert_new: "k \<notin> fst ` set qs \<Longrightarrow> index_insert qs k q = qs @ [(k, q)]"
  by (induction qs) auto

lemma index_split:
  assumes "map_of qs k = Some q" "distinct (map fst qs)"
  obtains pre post where "qs = pre @ (k, q) # post" "\<And>q'. index_insert qs k q' = pre @ (k, q') # post"
proof -
  obtain pre post where "qs = pre @ (k, q) # post" using map_of_SomeD [OF assms(1)] by (meson split_list)
  then show ?thesis using that [of pre post] assms(2) index_insert_split [of k pre q post] by auto
qed

lemma index_insert_keys: "map_of qs k = Some q \<Longrightarrow> map fst (index_insert qs k q') = map fst qs"
  by (induction qs) (auto split: if_splits)

lemma index_insert_member:
  "distinct (map fst qs) \<Longrightarrow> (k2, p) \<in> set (index_insert qs k q') \<Longrightarrow> if k2 = k then p = q' else (k2, p) \<in> set qs"
  by (induction qs) (force split: if_splits)+

text \<open>Replacing queues by ones that lost the dispatches of answered requests, or by empty ones.\<close>

lemma runtime_ok_entries:
  assumes ok: "runtime_ok qs n flight" and keys: "distinct (map fst qs')"
    and rest: "set flight' \<subseteq> set flight" "distinct (map rid flight')"
      "\<And>r. r \<in> set flight \<Longrightarrow> (r \<in> set flight') = (rid r \<notin> answered)"
    and entry: "\<And>k q. (k, q) \<in> set qs' \<Longrightarrow> queue_name q = k \<and> queue_ok q n
      \<and> (ids q = {} \<or> (\<exists>q0. (k, q0) \<in> set qs \<and> ids q = ids q0 \<and> running q = running q0 - answered))"
  shows "runtime_ok qs' n flight'"
proof -
  have "(\<forall>m\<in>running q. \<exists>r\<in>set flight'. rid r = m \<and> rkey r = k)
      \<and> (\<forall>r\<in>set flight'. rid r \<in> ids q \<longrightarrow> rkey r = k \<and> rid r \<in> running q)
      \<and> (\<forall>k' q'. (k', q') \<in> set qs' \<longrightarrow> k' \<noteq> k \<longrightarrow> ids q' \<inter> ids q = {})" if q: "(k, q) \<in> set qs'" for k q
  proof (cases "ids q = {}")
    case True
    then show ?thesis using running_ids [of q] by auto
  next
    case False
    then obtain q0 where q0: "(k, q0) \<in> set qs" "ids q = ids q0" "running q = running q0 - answered"
      using entry [OF q] by blast
    note inv = runtime_okD [OF ok q0(1)]
    have "ids q' \<inter> ids q = {}" if "(k', q') \<in> set qs'" "k' \<noteq> k" for k' q'
      using entry [OF that(1)] inv(5) [of k'] that(2) q0(2) by auto
    moreover have "\<exists>r\<in>set flight'. rid r = m \<and> rkey r = k" if m: "m \<in> running q" for m
    proof -
      obtain r where "r \<in> set flight" "rid r = m" "rkey r = k" using m inv(3) [of m] q0(3) by auto
      then show ?thesis using rest(3) [of r] m q0(3) by auto
    qed
    moreover have "rkey r = k \<and> rid r \<in> running q" if r: "r \<in> set flight'" "rid r \<in> ids q" for r
      using r inv(4) [of r] q0(2,3) rest(1) rest(3) [of r] by auto
    ultimately show ?thesis by blast
  qed
  then show ?thesis using keys rest(1,2) ok entry unfolding runtime_ok_def by auto
qed

lemma runtime_ok_replace:
  assumes ok: "runtime_ok qs n flight" and q': "queue_name q' = k" "queue_ok q' n"
    "ids q' = {} \<or> (\<exists>q0. (k, q0) \<in> set qs \<and> ids q' = ids q0 \<and> running q' = running q0)"
  shows "runtime_ok (index_insert qs k q') n flight"
proof -
  have keys: "distinct (map fst qs)" using ok by (simp add: runtime_ok_def)
  have entries: "distinct (map fst (index_insert qs k q'))"
    using keys index_insert_keys [of qs k _ q'] index_insert_new [of k qs q']
    by (cases "map_of qs k") (auto simp: map_of_eq_None_iff)
  show ?thesis
  proof (rule runtime_ok_entries [OF ok, where answered = "{}"])
    fix k2 q2 assume "(k2, q2) \<in> set (index_insert qs k q')"
    then consider "(k2, q2) \<in> set qs" | "k2 = k" "q2 = q'"
      using index_insert_member [OF keys] by (cases "k2 = k") (simp, meson)+
    then show "queue_name q2 = k2 \<and> queue_ok q2 n
        \<and> (ids q2 = {} \<or> (\<exists>q0. (k2, q0) \<in> set qs \<and> ids q2 = ids q0 \<and> running q2 = running q0 - {}))"
    proof cases
      case 1
      then show ?thesis using runtime_okD(1,2) [OF ok 1] by auto
    next
      case 2
      then show ?thesis using q' by simp
    qed
  qed (use entries ok in \<open>auto simp: runtime_ok_def\<close>)
qed

lemma runtime_ok_same:
  assumes "runtime_ok qs n flight" "map_of qs k = Some q" "slots q' = slots q" "open_slots q' = open_slots q"
    "queue_config q' = queue_config q" "queue_name q' = queue_name q"
  shows "runtime_ok (index_insert qs k q') n flight"
  using runtime_okD(1,2) [OF assms(1) map_of_SomeD [OF assms(2)]] queue_ok_slots [OF assms(3-5), of n] assms(6)
    map_of_SomeD [OF assms(2)]
  by (intro runtime_ok_replace [OF assms(1)]) auto

lemma runtime_ok_respond:
  assumes ok: "runtime_ok qs n flight" and r: "r \<in> set flight"
  shows "runtime_ok (case map_of qs (rkey r) of None \<Rightarrow> qs
    | Some q \<Rightarrow> index_insert qs (rkey r) (complete q (rid r) outcome now)) n (remove1 r flight)" (is "runtime_ok ?after n _")
proof (rule runtime_ok_entries [OF ok, where answered = "{rid r}"])
  have keys: "distinct (map fst qs)" and flight: "distinct (map rid flight)" using ok by (simp_all add: runtime_ok_def)
  then show "set (remove1 r flight) \<subseteq> set flight" "distinct (map rid (remove1 r flight))"
    by (auto simp: set_remove1_eq distinct_map inj_on_def)
  show only: "(r' \<in> set (remove1 r flight)) = (rid r' \<notin> {rid r})" if "r' \<in> set flight" for r'
    using flight that r by (auto simp: set_remove1_eq distinct_map inj_on_def)
  have foreign: "running q = running q - {rid r}" if q: "(k, q) \<in> set qs" "k \<noteq> rkey r" for k q
    using runtime_okD(3) [OF ok q(1), of "rid r"] flight q(2) r by (auto simp: distinct_map inj_on_def)
  show "distinct (map fst ?after)"
    using keys by (auto simp: index_insert_keys split: option.split)
  fix k q assume after: "(k, q) \<in> set ?after"
  show "queue_name q = k \<and> queue_ok q n
      \<and> (ids q = {} \<or> (\<exists>q0. (k, q0) \<in> set qs \<and> ids q = ids q0 \<and> running q = running q0 - {rid r}))"
  proof (cases "k = rkey r")
    case False
    have "(k, q) \<in> set qs"
      using after False index_insert_member [OF keys, of k q "rkey r"] by (auto split: option.splits)
    then show ?thesis using foreign [OF _ False] runtime_okD(1,2) [OF ok] by blast
  next
    case True
    then obtain q0 where q0: "map_of qs (rkey r) = Some q0"
      using after by (cases "map_of qs (rkey r)") (auto simp: map_of_eq_None_iff image_iff)
    note old = map_of_SomeD [OF q0]
    have "q = complete q0 (rid r) outcome now"
      using after True q0 index_insert_member [OF keys, of k q "rkey r"] by simp
    then show ?thesis
      using True complete_running [OF runtime_okD(2) [OF ok old]] runtime_okD(1) [OF ok old] old
      by (auto simp: complete_def)
  qed
qed

lemma refill_tokens_same [simp]:
  "slots (refill_tokens q now) = slots q" "open_slots (refill_tokens q now) = open_slots q"
  "queue_config (refill_tokens q now) = queue_config q" "queue_name (refill_tokens q now) = queue_name q"
  "pending (refill_tokens q now) = pending q"
  by (simp_all add: refill_tokens_def Let_def)

lemma tick_queue_effect:
  assumes "queue_ok q n" "tick_queue powf now now_ms q n = (q', n', runs, active)"
  shows "step_effect q n q' n' runs"
proof -
  have refill: "step_effect q n (refill_tokens q now) n []" by (rule step_effect_same [OF assms(1)]) simp_all
  show ?thesis
  proof (cases "is_active (refill_tokens q now)")
    case True
    obtain q1 n1 where d: "dispatch_tasks (refill_tokens q now) now n = (q1, n1)" by fastforce
    have refilled: "queue_ok (refill_tokens q now) n" using refill by (simp add: step_effect_def)
    have dispatched: "step_effect (refill_tokens q now) n q1 n1 []" by (rule dispatch_tasks_effect [OF refilled d])
    moreover have "step_effect q1 n1 q' n' runs"
      using process_runs(1) [of q1 n1 powf now now_ms q' runs] dispatched assms(2) True d
      by (auto simp: tick_queue_def Let_def step_effect_def split: prod.splits)
    ultimately show ?thesis using step_effect_trans [OF refill step_effect_trans] by fastforce
  next
    case False
    then show ?thesis using assms(2) refill by (simp add: tick_queue_def Let_def)
  qed
qed

lemma tick_queues_ok:
  "runtime_ok (pre @ qs) n flight \<Longrightarrow> tick_queues powf now now_ms qs n = (qs', n', runs, active) \<Longrightarrow>
    runtime_ok (pre @ qs') n' (flight @ runs)"
proof (induction qs arbitrary: pre n flight qs' n' runs active)
  case (Cons e qs)
  obtain k q where e: "e = (k, q)" by fastforce
  obtain q1 n1 runs1 active1 where one: "tick_queue powf now now_ms q n = (q1, n1, runs1, active1)" by (metis prod_cases4)
  obtain qs2 n2 runs2 active2 where rest: "tick_queues powf now now_ms qs n1 = (qs2, n2, runs2, active2)" by (metis prod_cases4)
  have "queue_ok q n" using runtime_okD(2) [OF Cons.prems(1)] e by auto
  from runtime_ok_update [OF Cons.prems(1) [unfolded e] tick_queue_effect [OF this one]]
  have "runtime_ok ((pre @ [(k, q1)]) @ qs) n1 (flight @ runs1)" by simp
  from Cons.IH [OF this rest] show ?case using Cons.prems(2) e one rest by auto
qed simp

lemma tasks_run_ok: "tasks_run powf s flight \<Longrightarrow> runtime_ok (queues s) (next_dispatch s) flight"
proof (induction rule: tasks_run.induct)
  case tasks_start
  show ?case by (simp add: runtime_ok_def)
next
  case (tasks_register s flight key config now)
  then show ?case
    using runtime_ok_replace [of "queues s" "next_dispatch s" flight "TaskQueue_new key config now" key] queue_ok_new
    by (simp add: register_queue_def) (simp add: TaskQueue_new_def)
next
  case (tasks_enqueue s flight key task now s')
  then show ?case
    by (auto simp: runtime_enqueue_def enqueue_def split: option.splits if_splits intro!: runtime_ok_same)
next
  case (tasks_remove s flight key name s')
  then show ?case
    by (auto simp: runtime_remove_def remove_def split: option.splits if_splits intro!: runtime_ok_same)
next
  case (tasks_tick s flight now now_ms s' runs active)
  then show ?case
    using tick_queues_ok [of "[]" "queues s"] by (auto simp: tick_def split: prod.splits)
next
  case (tasks_respond s flight r outcome now)
  then show ?case
    using runtime_ok_respond [of "queues s" "next_dispatch s" flight r outcome now]
    by (auto simp: run_outcome_def split: option.splits)
next
  case (tasks_statistics s flight now)
  let ?qs = "map (\<lambda>e. (fst e, snd (statistics (snd e) now))) (queues s)"
  have "runtime_ok ?qs (next_dispatch s) flight"
  proof (rule runtime_ok_entries [OF tasks_statistics.IH, where answered = "{}"])
    fix k q assume "(k, q) \<in> set ?qs"
    then obtain q0 where q0: "(k, q0) \<in> set (queues s)" "q = snd (statistics q0 now)" by auto
    then have "slots q = slots q0" "open_slots q = open_slots q0" "queue_config q = queue_config q0" "queue_name q = queue_name q0"
      by (simp_all add: statistics_def Let_def)
    then show "queue_name q = k \<and> queue_ok q (next_dispatch s)
        \<and> (ids q = {} \<or> (\<exists>q0. (k, q0) \<in> set (queues s) \<and> ids q = ids q0 \<and> running q = running q0 - {}))"
      using queue_ok_slots [of q q0 "next_dispatch s"] runtime_okD(1,2) [OF tasks_statistics.IH q0(1)] q0(1) by auto
  qed (use tasks_statistics.IH in \<open>auto simp: runtime_ok_def o_def\<close>)
  then show ?case by simp
qed

text \<open>
  C27: Requests in flight. In every run of the runtime, whatever is registered, enqueued, removed
  and answered in between, a queue never occupies more slots than configured and its free stack
  names exactly the free slots. A dispatch is running exactly when one request for it is in
  flight, and then it is exactly one: no task is sent twice at the same time. A late answer for
  a dispatch that has left its queue changes nothing.
\<close>

theorem tasks_single_flight:
  assumes "tasks_run powf s flight" "map_of (queues s) k = Some q"
  shows "length (slots q) = config_slots (queue_config q) \<and> distinct (open_slots q)
    \<and> set (open_slots q) = {i. i < length (slots q) \<and> slots q ! i = None}
    \<and> (\<forall>i d. i < length (slots q) \<longrightarrow> slots q ! i = Some d \<longrightarrow>
         length (filter (\<lambda>r. request_dispatch_id r = dispatch_id d) flight) = (if dispatch_status d = Running then 1 else 0))
    \<and> (\<forall>r\<in>set flight. \<forall>outcome now. (\<forall>d. Some d \<in> set (slots q) \<longrightarrow> dispatch_id d \<noteq> request_dispatch_id r) \<longrightarrow>
         complete q (request_dispatch_id r) outcome now = q)"
proof -
  note ok = tasks_run_ok [OF assms(1)]
  note inv = runtime_okD [OF ok map_of_SomeD [OF assms(2)]]
  have count: "length (filter (\<lambda>r. rid r = dispatch_id d) flight) = (if dispatch_status d = Running then 1 else 0)"
    if d: "holds q i d" for i d
  proof -
    have flight: "distinct (map rid flight)" using ok by (simp add: runtime_ok_def)
    have id: "dispatch_id d \<in> ids q" using d by (auto simp: ids_iff)
    have status: "dispatch_id d \<in> running q \<longleftrightarrow> dispatch_status d = Running"
      using d inv(2) by (auto simp: running_iff queue_ok_def unique_ids_def) (metis holds_unique)
    have "length (filter (\<lambda>r. rid r = m) xs) = (if m \<in> rid ` set xs then 1 else 0)" if "distinct (map rid xs)" for m xs
      using that by (induction xs) auto
    moreover have "dispatch_id d \<in> rid ` set flight \<longleftrightarrow> dispatch_status d = Running"
    proof
      assume "dispatch_id d \<in> rid ` set flight"
      then obtain r where r: "r \<in> set flight" "rid r = dispatch_id d" by auto
      then have "rid r \<in> running q" using inv(4) [OF r(1)] id by simp
      then show "dispatch_status d = Running" using status r(2) by simp
    next
      assume "dispatch_status d = Running"
      then show "dispatch_id d \<in> rid ` set flight" using status inv(3) by force
    qed
    ultimately show ?thesis using flight by simp
  qed
  have stale: "complete q m outcome now = q" if "\<forall>d. Some d \<in> set (slots q) \<longrightarrow> dispatch_id d \<noteq> m" for m outcome now
    using complete_slots_nth [of "slots q" m outcome now] that nth_mem by (fastforce simp: complete_def)
  show ?thesis using inv(2) count stale by (auto simp: queue_ok_def slots_ok_def holds_def)
qed

theorem tasks_single_flight_witness:
  "\<exists>s flight q. map_of (queues s) ''q'' = Some q \<and> tick (\<lambda>_ _. f64_one) \<lparr>queues = [(''q'', demo_queue)], next_dispatch = 0\<rparr> 1000000000 0 = (s, flight, True)
    \<and> dispatch_status (the (slots q ! 1)) = Running \<and> dispatch_id (the (slots q ! 1)) = 1
    \<and> length (filter (\<lambda>r. request_dispatch_id r = 1) flight) = 1"
proof -
  let ?s0 = "\<lparr>queues = [], next_dispatch = 0\<rparr>" and ?s1 = "\<lparr>queues = [(''q'', demo_queue)], next_dispatch = 0\<rparr>"
  have "runtime_enqueue (register_queue ?s0 ''q'' demo_config 0) ''q'' demo_task 0 = Inr ?s1"
    by (simp add: runtime_enqueue_def register_queue_def demo_enqueue)
  then have run: "tasks_run (\<lambda>_ _. f64_one) ?s1 []" using tasks_enqueue [OF tasks_register [OF tasks_start]] by blast
  let ?d = "\<lparr>dispatch_id = 1, dispatch_task = demo_task, dispatch_status = Running, attempt = 1, backoff_seconds = 0,
    started = 1000000000, last_run = None, previous_response = None, execution_count = 0\<rparr>"
  let ?q = "(dispatch_one demo_ready 1000000000 1)\<lparr>slots := [None, Some ?d]\<rparr>"
  let ?s2 = "\<lparr>queues = [(''q'', ?q)], next_dispatch = 1\<rparr>" and ?r = "build_request ''q'' ?d 0"
  have process: "process (\<lambda>_ _. f64_one) (dispatch_one demo_ready 1000000000 1) 1000000000 0 = (?q, [?r])"
    by (simp add: process_def process_slot_def backing_off_def dispatch_one_def demo_ready_def demo_queue_eq TaskQueue_new_def Let_def)
  have "is_active demo_ready" by (simp add: is_active_def demo_ready_def demo_queue_eq)
  then have tick: "tick (\<lambda>_ _. f64_one) ?s1 1000000000 0 = (?s2, [?r], True)"
    using process by (simp add: tick_def tick_queue_def demo_refill demo_dispatch)
  have q: "map_of (queues ?s2) ''q'' = Some ?q" by simp
  have "length (filter (\<lambda>r. request_dispatch_id r = dispatch_id ?d) ([] @ [?r])) = (if dispatch_status ?d = Running then 1 else 0)"
    using tasks_single_flight [OF tasks_tick [OF run tick] q, THEN conjunct2, THEN conjunct2, THEN conjunct2, THEN conjunct1,
      THEN spec [of _ 1], THEN spec [of _ ?d]] by simp
  then show ?thesis
    by (intro exI [of _ ?s2] exI [of _ "[?r]"] exI [of _ ?q]) (simp add: tick)
qed

section \<open>Dispatching in order\<close>

definition fresh_dispatch :: "TaskRecord \<Rightarrow> nat \<Rightarrow> Instant \<Rightarrow> Dispatch" where
  "fresh_dispatch task n now =
     \<lparr>dispatch_id = n, dispatch_task = task, dispatch_status = NotStarted, attempt = 1,
      backoff_seconds = 0, started = now, last_run = None, previous_response = None, execution_count = 0\<rparr>"

definition dispatched :: "TaskQueue \<Rightarrow> nat \<Rightarrow> TaskQueue \<Rightarrow> Instant \<Rightarrow> nat \<Rightarrow> bool" where
  "dispatched q n q' now k =
     (k \<le> length (pending q) \<and> k \<le> length (open_slots q) \<and> pending q' = drop k (pending q)
      \<and> open_slots q' = take (length (open_slots q) - k) (open_slots q)
      \<and> (\<forall>j<k. slots q' ! (rev (open_slots q) ! j) = Some (fresh_dispatch (pending q ! j) (n + 1 + j) now))
      \<and> (\<forall>i. i \<notin> set (take k (rev (open_slots q))) \<longrightarrow> slots q' ! i = slots q ! i))"

lemma dispatched_one:
  assumes "slots_ok q" "can_dispatch q" "dispatched (dispatch_one q now (n + 1)) (n + 1) q' now k"
  shows "dispatched q n q' now (Suc k)"
proof -
  obtain bs i where open_q: "open_slots q = bs @ [i]" using assms(2) by (cases "open_slots q" rule: rev_cases) (auto simp: can_dispatch_def)
  obtain task rest where pending_q: "pending q = task # rest" using assms(2) by (cases "pending q") (auto simp: can_dispatch_def)
  let ?q = "dispatch_one q now (n + 1)"
  have one: "open_slots ?q = bs" "pending ?q = rest" "slots ?q = (slots q)[i := Some (fresh_dispatch task (n + 1) now)]"
    by (simp_all add: dispatch_one_def open_q pending_q fresh_dispatch_def)
  have i: "i < length (slots q)" "i \<notin> set bs"
    using last_open(1) [OF assms(1)] assms(1) by (simp_all add: open_q slots_ok_def)
  note rest = assms(3) [unfolded dispatched_def one]
  have "i \<notin> set (take k (rev bs))" using i(2) by (auto dest: in_set_takeD)
  then have "slots q' ! i = Some (fresh_dispatch task (n + 1) now)" using rest i(1) by simp
  then have "slots q' ! (rev (open_slots q) ! j) = Some (fresh_dispatch (pending q ! j) (n + 1 + j) now)" if "j < Suc k" for j
    using rest that by (cases j) (simp_all add: open_q pending_q)
  moreover have "slots q' ! j = slots q ! j" if "j \<notin> set (take (Suc k) (rev (open_slots q)))" for j
    using rest that by (simp add: open_q)
  ultimately show ?thesis
    using rest by (simp add: dispatched_def open_q pending_q take_append)
qed

lemma dispatch_tasks_dispatched:
  "slots_ok q \<Longrightarrow> queue_ok q n \<Longrightarrow> dispatch_tasks q now n = (q', n') \<Longrightarrow>
    n \<le> n' \<and> dispatched q n q' now (n' - n) \<and> \<not> can_dispatch q'"
proof (induction q now n rule: dispatch_tasks.induct)
  case (1 q now n)
  show ?case
  proof (cases "can_dispatch q")
    case True
    let ?q = "dispatch_one q now (n + 1)"
    have ok: "queue_ok ?q (n + 1)" using dispatch_one_effect [OF "1.prems"(2) True] by (simp add: step_effect_def)
    then have "slots_ok ?q" by (simp add: queue_ok_def)
    moreover have "dispatch_tasks ?q now (n + 1) = (q', n')"
      using "1.prems"(3) True by (subst (asm) dispatch_tasks.simps) simp
    ultimately have "n + 1 \<le> n'" "dispatched ?q (n + 1) q' now (n' - (n + 1))" "\<not> can_dispatch q'"
      using "1.IH" [OF True] ok by auto
    then show ?thesis
      using dispatched_one [OF "1.prems"(1) True, of now n q' "n' - (n + 1)"] by (simp add: Suc_diff_Suc)
  next
    case False
    then have "q' = q" "n' = n" using "1.prems"(3) by (subst (asm) dispatch_tasks.simps, simp)+
    then show ?thesis using False by (simp add: dispatched_def)
  qed
qed

text \<open>
  C28: Tasks start in order. One dispatch pass moves the oldest pending tasks, and only these,
  from the head of the queue into free slots taken from the top of the free stack, numbers them
  consecutively, leaves every other slot alone, and stops only when no task is pending, no slot
  is free or less than one token is left.
\<close>

theorem dispatch_in_order:
  assumes "queue_ok q n" "dispatch_tasks q now n = (q', n')"
  shows "n \<le> n' \<and> n' - n \<le> length (pending q) \<and> pending q' = drop (n' - n) (pending q)
    \<and> open_slots q' = take (length (open_slots q) - (n' - n)) (open_slots q)
    \<and> (\<forall>j<n' - n. slots q' ! (rev (open_slots q) ! j) = Some (fresh_dispatch (pending q ! j) (n + 1 + j) now))
    \<and> (\<forall>i. i \<notin> set (take (n' - n) (rev (open_slots q))) \<longrightarrow> slots q' ! i = slots q ! i)
    \<and> (pending q' = [] \<or> open_slots q' = [] \<or> \<not> f64_le f64_one (tokens q'))"
  using dispatch_tasks_dispatched [OF _ assms] assms(1)
  by (auto simp: dispatched_def can_dispatch_def queue_ok_def)

theorem dispatch_in_order_witness:
  "pending (fst (dispatch_tasks demo_ready 1000000000 0)) = []
    \<and> slots (fst (dispatch_tasks demo_ready 1000000000 0)) ! 1 = Some (fresh_dispatch demo_task 1 1000000000)"
proof -
  have "pending demo_ready = [demo_task]" "open_slots demo_ready = [0, 1]" by (simp_all add: demo_ready_def demo_queue_eq)
  then show ?thesis
    using dispatch_in_order [OF demo_ready_ok demo_dispatch [of 1000000000 0]] by (simp add: demo_dispatch)
qed

section \<open>Runs of one queue\<close>

text \<open>
  Runs of one queue with the names it accepted, in order. The dispatch counter is shared with
  other queues and may grow in between.
\<close>

inductive queue_run :: "(f64 \<Rightarrow> f64 \<Rightarrow> f64) \<Rightarrow> QueueConfig \<Rightarrow> TaskQueue \<Rightarrow> nat \<Rightarrow> string list \<Rightarrow> bool" for powf config where
  run_new: "queue_run powf config (TaskQueue_new key config now) n []"
| run_enqueue: "queue_run powf config q n accepted \<Longrightarrow> enqueue q task now = Some q' \<Longrightarrow>
    queue_run powf config q' n (accepted @ [task_name task])"
| run_remove: "queue_run powf config q n accepted \<Longrightarrow> remove q name = Some q' \<Longrightarrow> queue_run powf config q' n accepted"
| run_refill: "queue_run powf config q n accepted \<Longrightarrow> queue_run powf config (refill_tokens q now) n accepted"
| run_dispatch: "queue_run powf config q n accepted \<Longrightarrow> dispatch_tasks q now n = (q', n') \<Longrightarrow>
    queue_run powf config q' n' accepted"
| run_process: "queue_run powf config q n accepted \<Longrightarrow> process powf q now now_ms = (q', runs) \<Longrightarrow>
    queue_run powf config q' n accepted"
| run_complete: "queue_run powf config q n accepted \<Longrightarrow> queue_run powf config (complete q m outcome now) n accepted"
| run_statistics: "queue_run powf config q n accepted \<Longrightarrow> queue_run powf config (snd (statistics q now)) n accepted"
| run_others: "queue_run powf config q n accepted \<Longrightarrow> n \<le> n' \<Longrightarrow> queue_run powf config q n' accepted"

section \<open>Processing, slot by slot\<close>

fun process_dispatch :: "(f64 \<Rightarrow> f64 \<Rightarrow> f64) \<Rightarrow> QueueConfig \<Rightarrow> Instant \<Rightarrow> Dispatch option \<Rightarrow> Dispatch option" where
  "process_dispatch powf config now None = None"
| "process_dispatch powf config now (Some d) =
     (case dispatch_status d of
        Failed \<Rightarrow> None
      | Finished \<Rightarrow> None
      | NotStarted \<Rightarrow> Some (if backing_off d now then d else d\<lparr>dispatch_status := Running\<rparr>)
      | Retry \<Rightarrow> Some (if should_stop_retrying d config now then d\<lparr>dispatch_status := Failed\<rparr>
          else (update_metadata powf d config)\<lparr>dispatch_status := NotStarted\<rparr>)
      | Running \<Rightarrow> Some d)"

definition unchanged :: "TaskQueue \<Rightarrow> TaskQueue \<Rightarrow> bool" where
  "unchanged q q' = (queue_config q' = queue_config q \<and> pending q' = pending q \<and> queued_ids q' = queued_ids q
      \<and> tokens q' = tokens q \<and> max_tokens q' = max_tokens q \<and> last_token_update q' = last_token_update q)"

lemma process_slot_map:
  assumes "k < length (slots q)" "process_slot powf now now_ms k (q, runs) = (q', runs')"
  shows "slots q' = (slots q)[k := process_dispatch powf (queue_config q) now (slots q ! k)]" "unchanged q q'"
proof -
  have "slots q' = (slots q)[k := process_dispatch powf (queue_config q) now (slots q ! k)] \<and> unchanged q q'"
  proof (cases "slots q ! k")
    case None
    have "(slots q)[k := None] = slots q" using None list_update_id [of "slots q" k] by simp
    then show ?thesis using assms None by (auto simp: process_slot_def unchanged_def)
  next
    case (Some d)
    have keep: "(slots q)[k := Some d] = slots q" using Some list_update_id [of "slots q" k] by simp
    show ?thesis
      using assms(2) keep Some
      by (cases "dispatch_status d") (auto simp: process_slot_def unchanged_def Let_def split: if_splits)
  qed
  then show "slots q' = (slots q)[k := process_dispatch powf (queue_config q) now (slots q ! k)]" "unchanged q q'" by auto
qed

lemma process_map:
  assumes "process powf q now now_ms = (q', runs)"
  shows "slots q' = map (process_dispatch powf (queue_config q) now) (slots q)" "unchanged q q'"
proof -
  let ?f = "process_dispatch powf (queue_config q) now"
  have "slots p = map ?f (take k (slots q)) @ drop k (slots q) \<and> unchanged q p"
    if "k \<le> length (slots q)" "fold (process_slot powf now now_ms) [0..<k] (q, []) = (p, rs)" for k p rs
    using that
  proof (induction k arbitrary: p rs)
    case 0
    then show ?case by (simp add: unchanged_def)
  next
    case (Suc k)
    obtain p1 rs1 where p1: "fold (process_slot powf now now_ms) [0..<k] (q, []) = (p1, rs1)" by fastforce
    have inv: "slots p1 = map ?f (take k (slots q)) @ drop k (slots q)" "unchanged q p1" "length (slots p1) = length (slots q)"
      using Suc.IH [OF _ p1] Suc.prems(1) by auto
    have step: "process_slot powf now now_ms k (p1, rs1) = (p, rs)" using Suc.prems(2) p1 by simp
    have k: "k < length (slots p1)" "k < length (slots q)" using Suc.prems(1) inv(3) by auto
    have "slots p1 ! k = slots q ! k" using inv(1) k(2) by (simp add: nth_append)
    then have "slots p = map ?f (take (Suc k) (slots q)) @ drop (Suc k) (slots q)"
      using process_slot_map(1) [OF k(1) step] inv(1,2) k(2)
      by (simp add: unchanged_def list_update_append take_Suc_conv_app_nth Cons_nth_drop_Suc [symmetric])
    then show ?case using process_slot_map(2) [OF k(1) step] inv(2) by (simp add: unchanged_def)
  qed
  from this [of "length (slots q)" q' runs] assms
  show "slots q' = map ?f (slots q)" "unchanged q q'" by (simp_all add: process_def)
qed

lemma process_dispatch_task: "process_dispatch powf config now x = Some d' \<Longrightarrow> \<exists>d. x = Some d \<and> dispatch_task d = dispatch_task d'"
  by (cases x) (auto simp: update_metadata_def Let_def split: Status.splits if_splits)

section \<open>Names\<close>

abbreviation dispatch_name :: "Dispatch \<Rightarrow> string" where
  "dispatch_name d \<equiv> task_name (dispatch_task d)"

definition names_ok :: "TaskQueue \<Rightarrow> string list \<Rightarrow> bool" where
  "names_ok q accepted =
     (distinct accepted \<and> set accepted = queued_ids q \<and> subseq (map task_name (pending q)) accepted
      \<and> (\<forall>i d. holds q i d \<longrightarrow> dispatch_name d \<in> set accepted \<and> dispatch_name d \<notin> task_name ` set (pending q))
      \<and> (\<forall>i j d e. holds q i d \<longrightarrow> holds q j e \<longrightarrow> dispatch_name d = dispatch_name e \<longrightarrow> i = j))"

lemma subseq_distinct: "subseq xs ys \<Longrightarrow> distinct ys \<Longrightarrow> distinct xs \<and> set xs \<subseteq> set ys"
  by (induction rule: list_emb.induct) auto

lemma names_ok_slots:
  assumes "names_ok q accepted" "queued_ids q' = queued_ids q" "pending q' = pending q"
    "\<And>i d'. holds q' i d' \<Longrightarrow> \<exists>d. holds q i d \<and> dispatch_task d = dispatch_task d'"
  shows "names_ok q' accepted"
proof -
  have "dispatch_name d' \<in> set accepted \<and> dispatch_name d' \<notin> task_name ` set (pending q)" if "holds q' i d'" for i d'
    using assms(4) [OF that] assms(1) unfolding names_ok_def by metis
  moreover have "i = j" if "holds q' i d'" "holds q' j e'" "dispatch_name d' = dispatch_name e'" for i j d' e'
    using assms(4) [OF that(1)] assms(4) [OF that(2)] that(3) assms(1) unfolding names_ok_def by metis
  ultimately show ?thesis using assms(1-3) unfolding names_ok_def by metis
qed

lemma names_ok_dispatch_one:
  assumes ok: "slots_ok q" "names_ok q accepted" and can: "can_dispatch q"
  shows "names_ok (dispatch_one q now n) accepted"
proof -
  let ?q = "dispatch_one q now n" and ?i = "last (open_slots q)"
  obtain task rest where pending: "pending q = task # rest" using can by (cases "pending q") (auto simp: can_dispatch_def)
  have free: "?i < length (slots q)" using last_open [OF ok(1)] can by (simp add: can_dispatch_def)
  have new: "slots ?q = (slots q)[?i := Some (fresh_dispatch task n now)]" "pending ?q = rest" "queued_ids ?q = queued_ids q"
    by (simp_all add: dispatch_one_def pending fresh_dispatch_def)
  note at = holds_update [OF free new(1)]
  have sub: "subseq (map task_name (task # rest)) accepted" "distinct accepted" using ok(2) pending by (auto simp: names_ok_def)
  have distinct: "task_name task \<notin> task_name ` set rest" "task_name task \<in> set accepted"
    using subseq_distinct [OF sub] by auto
  have old: "dispatch_name d \<in> set accepted" "dispatch_name d \<noteq> task_name task" "dispatch_name d \<notin> task_name ` set rest"
    if "holds q j d" for j d
    using ok(2) that unfolding names_ok_def pending by auto
  have same: "i = j" if "holds q i d" "holds q j e" "dispatch_name d = dispatch_name e" for i j d e
    using ok(2) that unfolding names_ok_def by blast
  have name: "dispatch_name (fresh_dispatch task n now) = task_name task" by (simp add: fresh_dispatch_def)
  have "dispatch_name d \<in> set accepted \<and> dispatch_name d \<notin> task_name ` set rest" if "holds ?q i d" for i d
    using that old [of i d] distinct name unfolding at by (cases "i = ?i") auto
  moreover have "i = j" if "holds ?q i d" "holds ?q j e" "dispatch_name d = dispatch_name e" for i j d e
  proof (rule unique_update [where key = dispatch_name, OF _ free new(1) _ that])
    show "i = j" if "holds q i d" "holds q j e" "dispatch_name d = dispatch_name e" for i j d e
      by (rule same [OF that])
  qed (use old(2) name in auto)
  moreover have "subseq (map task_name rest) accepted" using sub(1) subseq_Cons' by fastforce
  ultimately show ?thesis using ok(2) new(2,3) unfolding names_ok_def by simp
qed

lemma dispatch_tasks_config: "dispatch_tasks q now n = (q', n') \<Longrightarrow> queue_config q' = queue_config q"
proof (induction q now n rule: dispatch_tasks.induct)
  case (1 q now n)
  then show ?case
    by (cases "can_dispatch q"; subst (asm) (3) dispatch_tasks.simps) (simp_all add: dispatch_one_def)
qed

lemma dispatch_tasks_names:
  "queue_ok q n \<Longrightarrow> names_ok q accepted \<Longrightarrow> dispatch_tasks q now n = (q', n') \<Longrightarrow> names_ok q' accepted"
proof (induction q now n rule: dispatch_tasks.induct)
  case (1 q now n)
  show ?case
  proof (cases "can_dispatch q")
    case True
    have "queue_ok (dispatch_one q now (n + 1)) (n + 1)"
      using dispatch_one_effect [OF "1.prems"(1) True] by (simp add: step_effect_def)
    moreover have "names_ok (dispatch_one q now (n + 1)) accepted"
      using names_ok_dispatch_one [OF _ "1.prems"(2) True] "1.prems"(1) by (simp add: queue_ok_def)
    ultimately show ?thesis
      using "1.IH" [OF True] "1.prems"(3) True by (subst (asm) (2) dispatch_tasks.simps) simp
  next
    case False
    then show ?thesis using "1.prems"(2,3) by (subst (asm) dispatch_tasks.simps) simp
  qed
qed

lemma names_ok_same:
  "slots q' = slots q \<Longrightarrow> pending q' = pending q \<Longrightarrow> queued_ids q' = queued_ids q \<Longrightarrow> names_ok q' accepted = names_ok q accepted"
  by (simp add: names_ok_def holds_def)

lemma names_ok_enqueue:
  assumes "names_ok q accepted" "enqueue q task now = Some q'"
  shows "names_ok q' (accepted @ [task_name task])"
proof -
  have q': "slots q' = slots q" "pending q' = pending q @ [task]" "queued_ids q' = insert (task_name task) (queued_ids q)"
    "task_name task \<notin> queued_ids q"
    using assms(2) by (auto simp: enqueue_def split: if_splits)
  have h: "holds q' i d = holds q i d" for i d by (simp add: holds_def q'(1))
  have old: "distinct accepted" "set accepted = queued_ids q" "subseq (map task_name (pending q)) accepted"
    "\<And>i d. holds q i d \<Longrightarrow> dispatch_name d \<in> set accepted \<and> dispatch_name d \<notin> task_name ` set (pending q)"
    "\<And>i j d e. holds q i d \<Longrightarrow> holds q j e \<Longrightarrow> dispatch_name d = dispatch_name e \<Longrightarrow> i = j"
    using assms(1) unfolding names_ok_def by blast+
  have new: "dispatch_name d \<noteq> task_name task" if "holds q i d" for i d using old(4) [OF that] old(2) q'(4) by auto
  have "subseq (map task_name (pending q')) (accepted @ [task_name task])"
    using old(3) by (simp add: q'(2) list_emb_append_mono)
  moreover have "dispatch_name d \<in> set (accepted @ [task_name task]) \<and> dispatch_name d \<notin> task_name ` set (pending q')"
    if "holds q i d" for i d
    using old(4) [OF that] new [OF that] by (simp add: q'(2))
  ultimately show ?thesis
    unfolding names_ok_def h using old(1,2,5) q'(3,4) by (intro conjI allI impI) (simp, simp, blast+)
qed

lemma names_ok_remove:
  assumes "names_ok q accepted" "remove q name = Some q'"
  shows "names_ok q' accepted"
proof -
  have q': "slots q' = slots q" "pending q' = filter (\<lambda>task. task_name task \<noteq> name) (pending q)" "queued_ids q' = queued_ids q"
    using assms(2) by (auto simp: remove_def split: if_splits)
  have "subseq (map task_name (filter P xs)) (map task_name xs)" for P and xs :: "TaskRecord list"
    by (simp add: subseq_map)
  then have sub: "subseq (map task_name (pending q')) accepted"
    using assms(1) q'(2) subseq_order.trans unfolding names_ok_def by metis
  have h: "holds q' i d = holds q i d" for i d by (simp add: holds_def q'(1))
  have "task_name ` set (pending q') \<subseteq> task_name ` set (pending q)" by (auto simp: q'(2))
  then show ?thesis using assms(1) sub q'(3) unfolding names_ok_def h by blast
qed

lemma names_ok_process:
  assumes "names_ok q accepted" "process powf q now now_ms = (q', runs)"
  shows "names_ok q' accepted"
proof (rule names_ok_slots [OF assms(1)])
  note m = process_map [OF assms(2)]
  show "queued_ids q' = queued_ids q" "pending q' = pending q" using m(2) by (simp_all add: unchanged_def)
  show "\<exists>d. holds q i d \<and> dispatch_task d = dispatch_task d'" if "holds q' i d'" for i d'
    using that process_dispatch_task [of powf "queue_config q" now "slots q ! i" d'] m(1) by (auto simp: holds_def)
qed

lemma names_ok_complete:
  assumes "names_ok q accepted"
  shows "names_ok (complete q m outcome now) accepted"
proof (rule names_ok_slots [OF assms])
  show "\<exists>d. holds q i d \<and> dispatch_task d = dispatch_task d'" if "holds (complete q m outcome now) i d'" for i d'
  proof -
    have task: "dispatch_task (complete_dispatch d outcome now) = dispatch_task d" for d
      by (simp add: complete_dispatch_def split: Outcome.splits)
    consider "complete_slots (slots q) m outcome now = slots q"
      | j d where "j < length (slots q)" "slots q ! j = Some d"
          "complete_slots (slots q) m outcome now = (slots q)[j := Some (complete_dispatch d outcome now)]"
      using complete_slots_nth [of "slots q" m outcome now] by blast
    then show ?thesis
    proof cases
      case 1
      then show ?thesis using that by (auto simp: holds_def complete_def)
    next
      case 2
      then show ?thesis using that task [of d] by (cases "i = j") (auto simp: holds_def complete_def)
    qed
  qed
qed (simp_all add: complete_def)

lemma queue_run_ok: "queue_run powf config q n accepted \<Longrightarrow> queue_ok q n \<and> queue_config q = config \<and> names_ok q accepted"
proof (induction rule: queue_run.induct)
  case (run_new key now n)
  have "names_ok (TaskQueue_new key config now) []"
    by (auto simp: names_ok_def TaskQueue_new_def holds_def)
  then show ?case using queue_ok_new by (simp add: TaskQueue_new_def)
next
  case (run_enqueue q n accepted task now q')
  have "slots q' = slots q" "open_slots q' = open_slots q" "queue_config q' = queue_config q"
    using run_enqueue.hyps(2) by (auto simp: enqueue_def split: if_splits)
  then show ?case using run_enqueue.IH queue_ok_slots [of q' q n] names_ok_enqueue run_enqueue.hyps(2) by metis
next
  case (run_remove q n accepted name q')
  have "slots q' = slots q" "open_slots q' = open_slots q" "queue_config q' = queue_config q"
    using run_remove.hyps(2) by (auto simp: remove_def split: if_splits)
  then show ?case using run_remove.IH queue_ok_slots [of q' q n] names_ok_remove run_remove.hyps(2) by metis
next
  case (run_refill q n accepted now)
  let ?q = "refill_tokens q now"
  have "slots ?q = slots q" "open_slots ?q = open_slots q" "queue_config ?q = queue_config q"
    "pending ?q = pending q" "queued_ids ?q = queued_ids q"
    by (simp_all add: refill_tokens_def Let_def)
  then show ?case using run_refill.IH queue_ok_slots [of ?q q n] names_ok_same [of ?q q] by metis
next
  case (run_dispatch q n accepted now q' n')
  then have "step_effect q n q' n' []" using dispatch_tasks_effect by blast
  moreover have "queue_config q' = queue_config q" using run_dispatch.hyps(2) dispatch_tasks_config by blast
  moreover have "names_ok q' accepted" using dispatch_tasks_names [OF _ _ run_dispatch.hyps(2)] run_dispatch.IH by blast
  ultimately show ?case using run_dispatch.IH by (simp add: step_effect_def)
next
  case (run_process q n accepted now now_ms q' runs)
  then have "step_effect q n q' n runs" "queue_config q' = queue_config q" "names_ok q' accepted"
    using process_runs(1,2) [OF _ run_process.hyps(2)] names_ok_process [OF _ run_process.hyps(2)] by blast+
  then show ?case using run_process.IH by (simp add: step_effect_def)
next
  case (run_complete q n accepted m outcome now)
  have "queue_config (complete q m outcome now) = queue_config q" by (simp add: complete_def)
  then show ?case using run_complete.IH complete_running(1) names_ok_complete by metis
next
  case (run_statistics q n accepted now)
  let ?q = "snd (statistics q now)"
  have "slots ?q = slots q" "open_slots ?q = open_slots q" "queue_config ?q = queue_config q"
    "pending ?q = pending q" "queued_ids ?q = queued_ids q"
    by (simp_all add: statistics_def Let_def)
  then show ?case using run_statistics.IH queue_ok_slots [of ?q q n] names_ok_same [of ?q q] by metis
next
  case (run_others q n accepted n')
  then show ?case using queue_ok_mono by blast
qed

text \<open>
  C29: No task runs twice. In every run of a queue each name is accepted at most once, also after
  it was removed or has finished; the pending tasks keep the order in which they were accepted;
  and no two of the pending and dispatched tasks have the same name.
\<close>

theorem names_accepted_once:
  assumes "queue_run powf config q n accepted"
  shows "distinct accepted \<and> subseq (map task_name (pending q)) accepted
    \<and> (\<forall>i j d e. i < length (slots q) \<longrightarrow> j < length (slots q) \<longrightarrow> slots q ! i = Some d \<longrightarrow> slots q ! j = Some e \<longrightarrow>
         task_name (dispatch_task d) = task_name (dispatch_task e) \<longrightarrow> i = j)
    \<and> (\<forall>d. Some d \<in> set (slots q) \<longrightarrow> task_name (dispatch_task d) \<in> set accepted - task_name ` set (pending q))
    \<and> (\<forall>task now. task_name task \<in> set accepted \<longrightarrow> enqueue q task now = None)"
proof -
  have "names_ok q accepted" using queue_run_ok [OF assms] by simp
  then show ?thesis
    unfolding names_ok_def holds_def by (auto simp: in_set_conv_nth enqueue_def)
qed

theorem names_accepted_once_witness:
  "queue_run (\<lambda>_ _. f64_one) demo_config demo_queue 0 [task_name demo_task] \<and> enqueue demo_queue demo_task 7 = None"
proof -
  have run: "queue_run (\<lambda>_ _. f64_one) demo_config demo_queue 0 ([] @ [task_name demo_task])"
    by (rule run_enqueue [OF run_new demo_enqueue])
  then show ?thesis using names_accepted_once [OF run] by simp
qed

end
