(* ===== verification/Task_Live.thy ===== *)
theory Task_Live
  imports Task_Props
begin

text \<open>
  Liveness of a task queue: when it is ticked often enough, its requests are answered and its
  tasks may not be retried for ever, it becomes idle after a number of rounds that is known in
  advance.
\<close>

section \<open>Rounds\<close>








section \<open>Work left\<close>




section \<open>Answers\<close>






section \<open>Bounded retries\<close>














section \<open>Dispatching and the work left\<close>





section \<open>Every run stays live\<close>






section \<open>A round makes progress\<close>












end
