(* ===== verification/Pubsub_Names.thy ===== *)
theory Pubsub_Names
  imports Text Ord_Map
begin

text \<open>
  Errors (\<open>pubsub-front/src/error.rs\<close>), resource names (\<open>names.rs\<close>) and subscription filters
  (\<open>filter.rs\<close>) of the Pub/Sub broker. A filter is scanned character by character; which
  characters are alphanumeric or white space is Unicode data and a parameter.
\<close>

section \<open>Errors\<close>

datatype Code = Ok | Cancelled | Unknown | InvalidArgument | DeadlineExceeded | NotFound | AlreadyExists
  | PermissionDenied | ResourceExhausted | FailedPrecondition | Aborted | OutOfRange | Unimplemented
  | Internal | Unavailable | DataLoss | Unauthenticated

record PubsubError =
  error_code :: Code
  error_message :: string

abbreviation pubsub_error :: "Code \<Rightarrow> string \<Rightarrow> PubsubError" where
  "pubsub_error code message \<equiv> \<lparr>error_code = code, error_message = message\<rparr>"

definition invalid_argument :: "string \<Rightarrow> PubsubError" where
  "invalid_argument message = pubsub_error InvalidArgument message"

definition not_found :: "string \<Rightarrow> PubsubError" where
  "not_found message = pubsub_error NotFound message"

definition already_exists :: "string \<Rightarrow> PubsubError" where
  "already_exists message = pubsub_error AlreadyExists message"

definition failed_precondition :: "string \<Rightarrow> PubsubError" where
  "failed_precondition message = pubsub_error FailedPrecondition message"

definition out_of_range :: "string \<Rightarrow> PubsubError" where
  "out_of_range message = pubsub_error OutOfRange message"

definition unimplemented :: "string \<Rightarrow> PubsubError" where
  "unimplemented message = pubsub_error Unimplemented message"

definition application_error :: PubsubError where
  "application_error = pubsub_error Unknown ''Application error processing RPC''"

definition invalid_name :: "string \<Rightarrow> string \<Rightarrow> PubsubError" where
  "invalid_name collection name =
     invalid_argument (''Invalid ['' @ collection @ ''] name: (name='' @ name @ '')'')"

definition http_status :: "PubsubError \<Rightarrow> nat" where
  "http_status e =
     (case error_code e of
        InvalidArgument \<Rightarrow> 400 | FailedPrecondition \<Rightarrow> 400 | OutOfRange \<Rightarrow> 400
      | NotFound \<Rightarrow> 404
      | AlreadyExists \<Rightarrow> 409 | Aborted \<Rightarrow> 409
      | PermissionDenied \<Rightarrow> 403
      | Unauthenticated \<Rightarrow> 401
      | ResourceExhausted \<Rightarrow> 429
      | Unimplemented \<Rightarrow> 501
      | Unavailable \<Rightarrow> 503
      | DeadlineExceeded \<Rightarrow> 504
      | Cancelled \<Rightarrow> 499
      | _ \<Rightarrow> 500)"

definition status_name :: "PubsubError \<Rightarrow> string" where
  "status_name e =
     (case error_code e of
        Ok \<Rightarrow> ''OK''
      | Cancelled \<Rightarrow> ''CANCELLED''
      | Unknown \<Rightarrow> ''UNKNOWN''
      | InvalidArgument \<Rightarrow> ''INVALID_ARGUMENT''
      | DeadlineExceeded \<Rightarrow> ''DEADLINE_EXCEEDED''
      | NotFound \<Rightarrow> ''NOT_FOUND''
      | AlreadyExists \<Rightarrow> ''ALREADY_EXISTS''
      | PermissionDenied \<Rightarrow> ''PERMISSION_DENIED''
      | ResourceExhausted \<Rightarrow> ''RESOURCE_EXHAUSTED''
      | FailedPrecondition \<Rightarrow> ''FAILED_PRECONDITION''
      | Aborted \<Rightarrow> ''ABORTED''
      | OutOfRange \<Rightarrow> ''OUT_OF_RANGE''
      | Unimplemented \<Rightarrow> ''UNIMPLEMENTED''
      | Internal \<Rightarrow> ''INTERNAL''
      | Unavailable \<Rightarrow> ''UNAVAILABLE''
      | DataLoss \<Rightarrow> ''DATA_LOSS''
      | Unauthenticated \<Rightarrow> ''UNAUTHENTICATED'')"

section \<open>Resource names\<close>

record ResourceName =
  resource_project :: string
  resource_id :: string

definition ascii_alphabetic :: "char \<Rightarrow> bool" where
  "ascii_alphabetic c = (of_char c \<in> {65..90::nat} \<union> {97..122})"

definition valid_id :: "string \<Rightarrow> bool" where
  "valid_id resource =
     (if length resource < 3 \<or> 255 < length resource then False
      else if \<not> ascii_alphabetic (hd resource) then False
      else if strip_prefix ''goog'' resource \<noteq> None then False
      else list_all (\<lambda>c. is_ascii_digit c \<or> ascii_alphabetic c \<or> c \<in> set ''-_.~+%'') resource)"

definition parse_name :: "string \<Rightarrow> string \<Rightarrow> PubsubError + ResourceName" where
  "parse_name collection name =
     (case strip_prefix ''projects/'' name of
        None \<Rightarrow> Inl (invalid_name collection name)
      | Some rest \<Rightarrow>
          (case split_once (CHR ''/'') rest of
             None \<Rightarrow> Inl (invalid_name collection name)
           | Some (project, rest) \<Rightarrow>
               (case split_once (CHR ''/'') rest of
                  None \<Rightarrow> Inl (invalid_name collection name)
                | Some (found, resource) \<Rightarrow>
                    if found \<noteq> collection \<or> \<not> valid_id resource then Inl (invalid_name collection name)
                    else Inr \<lparr>resource_project = project, resource_id = resource\<rparr>)))"

definition parse_project :: "string \<Rightarrow> string \<Rightarrow> PubsubError + string" where
  "parse_project collection parent =
     (case strip_prefix ''projects/'' parent of
        None \<Rightarrow> Inl (invalid_name collection parent)
      | Some project \<Rightarrow> if CHR ''/'' \<in> set project then Inl (invalid_name collection parent) else Inr project)"

definition split_revision :: "string \<Rightarrow> string \<times> string option" where
  "split_revision name =
     (case split_once (CHR ''@'') name of Some (base, revision) \<Rightarrow> (base, Some revision) | None \<Rightarrow> (name, None))"

section \<open>Filters\<close>

type_synonym Attributes = "(string, string) ord_map"

datatype PubsubFilter =
    Equals string string
  | NotEquals string string
  | Exists string
  | HasPrefix string string
  | Not PubsubFilter
  | And PubsubFilter PubsubFilter
  | Or PubsubFilter PubsubFilter

primrec filter_matches_attributes :: "PubsubFilter \<Rightarrow> Attributes \<Rightarrow> bool" where
  "filter_matches_attributes (Equals key val) attributes = (map_of attributes key = Some val)"
| "filter_matches_attributes (NotEquals key val) attributes = (map_of attributes key \<noteq> Some val)"
| "filter_matches_attributes (Exists key) attributes = (map_of attributes key \<noteq> None)"
| "filter_matches_attributes (HasPrefix key prefix) attributes =
     (case map_of attributes key of None \<Rightarrow> False | Some val \<Rightarrow> strip_prefix prefix val \<noteq> None)"
| "filter_matches_attributes (Not inner) attributes = (\<not> filter_matches_attributes inner attributes)"
| "filter_matches_attributes (And left right) attributes =
     (filter_matches_attributes left attributes \<and> filter_matches_attributes right attributes)"
| "filter_matches_attributes (Or left right) attributes =
     (filter_matches_attributes left attributes \<or> filter_matches_attributes right attributes)"

datatype Token = Ident string | Text string | Symbol nat | NotEqual

record CharClass =
  is_whitespace :: "nat \<Rightarrow> bool"
  is_alphanumeric :: "nat \<Rightarrow> bool"

abbreviation code :: "char \<Rightarrow> nat" where "code \<equiv> of_char"

text \<open>The loop over a quoted text: its characters and what follows the closing quote.\<close>

fun quoted_text :: "nat list \<Rightarrow> (nat list \<times> nat list) option" where
  "quoted_text [] = None"
| "quoted_text (c # cs) =
     (if c = 34 then Some ([], cs)
      else if c = 92 then
        (case cs of
           [] \<Rightarrow> None
         | escaped # cs \<Rightarrow> map_option (\<lambda>(v, rest). (escaped # v, rest)) (quoted_text cs))
      else map_option (\<lambda>(v, rest). (c # v, rest)) (quoted_text cs))"

lemma quoted_text_shorter: "quoted_text cs = Some (v, rest) \<Longrightarrow> length rest < length cs"
  by (induction cs arbitrary: v rest rule: quoted_text.induct) (fastforce split: if_splits list.splits)+

definition word_char :: "CharClass \<Rightarrow> nat \<Rightarrow> bool" where
  "word_char cls c = (is_alphanumeric cls c \<or> c = code (CHR ''_''))"

function tokenize :: "CharClass \<Rightarrow> nat list \<Rightarrow> Token list option" where
  "tokenize cls [] = Some []"
| "tokenize cls (c # cs) =
     (if is_whitespace cls c then tokenize cls cs
      else if c = 34 then
        (case quoted_text cs of
           None \<Rightarrow> None
         | Some (v, rest) \<Rightarrow> map_option (Cons (Text (str_of_chars v))) (tokenize cls rest))
      else if c = code (CHR ''!'') \<and> cs \<noteq> [] \<and> hd cs = code (CHR ''='') then
        map_option (Cons NotEqual) (tokenize cls (tl cs))
      else if c \<in> code ` set ''()=:,.-'' then map_option (Cons (Symbol c)) (tokenize cls cs)
      else if word_char cls c then
        map_option (Cons (Ident (str_of_chars (c # takeWhile (word_char cls) cs))))
          (tokenize cls (dropWhile (word_char cls) cs))
      else None)"
  by pat_completeness auto

termination
  by (relation "measure (\<lambda>(_, cs). length cs)")
    (auto simp: less_Suc_eq_le length_dropWhile_le dest!: quoted_text_shorter)

declare tokenize.simps [simp del]

text \<open>The parser reads the tokens that are left; \<open>None\<close> is a failed match that consumes nothing.\<close>

fun keyword :: "string \<Rightarrow> Token list \<Rightarrow> Token list option" where
  "keyword word (Ident w # ts) = (if w = word then Some ts else None)"
| "keyword word _ = None"

fun symbol :: "char \<Rightarrow> Token list \<Rightarrow> Token list option" where
  "symbol s (Symbol c # ts) = (if c = code s then Some ts else None)"
| "symbol s _ = None"

fun filter_key :: "Token list \<Rightarrow> (string \<times> Token list) option" where
  "filter_key (Ident k # ts) = Some (k, ts)"
| "filter_key (Text k # ts) = Some (k, ts)"
| "filter_key _ = None"

definition attribute_path :: "Token list \<Rightarrow> (string \<times> Token list) option" where
  "attribute_path ts =
     (case keyword ''attributes'' ts of
        None \<Rightarrow> None
      | Some ts \<Rightarrow> (case symbol (CHR ''.'') ts of None \<Rightarrow> None | Some ts \<Rightarrow> filter_key ts))"

fun text_then :: "(string \<Rightarrow> PubsubFilter) \<Rightarrow> Token list \<Rightarrow> (PubsubFilter \<times> Token list) option" where
  "text_then build (Text v # ts) = Some (build v, ts)"
| "text_then build _ = None"

text \<open>The alternatives of \<open>primary\<close> after the parenthesis.\<close>

definition has_prefix_filter :: "Token list \<Rightarrow> (PubsubFilter \<times> Token list) option" where
  "has_prefix_filter ts =
     (case symbol (CHR ''('') ts of
        None \<Rightarrow> None
      | Some ts \<Rightarrow>
          (case attribute_path ts of
             None \<Rightarrow> None
           | Some (key, ts) \<Rightarrow>
               (case symbol (CHR '','') ts of
                  None \<Rightarrow> None
                | Some ts \<Rightarrow>
                    (case text_then (HasPrefix key) ts of
                       None \<Rightarrow> None
                     | Some (f, ts) \<Rightarrow> map_option (Pair f) (symbol (CHR '')'') ts)))))"

definition attribute_filter :: "Token list \<Rightarrow> (PubsubFilter \<times> Token list) option" where
  "attribute_filter ts =
     (case symbol (CHR '':'') ts of
        Some ts \<Rightarrow> map_option (\<lambda>(key, ts). (Exists key, ts)) (filter_key ts)
      | None \<Rightarrow>
          (case symbol (CHR ''.'') ts of
             None \<Rightarrow> None
           | Some ts \<Rightarrow>
               (case filter_key ts of
                  None \<Rightarrow> None
                | Some (key, Symbol c # ts) \<Rightarrow> if c = code (CHR ''='') then text_then (Equals key) ts else None
                | Some (key, NotEqual # ts) \<Rightarrow> text_then (NotEquals key) ts
                | Some _ \<Rightarrow> None)))"

text \<open>
  The recursive descent. A parser is a function on the tokens that are left; \<open>primary_filter\<close>
  takes the parser for a parenthesised filter. The \<open>while\<close> loops of \<open>or\<close> and \<open>and\<close> are
  \<open>operand_loop\<close>, whose fuel is the number of tokens, since each turn reads the operator; the
  fuel of \<open>or_filter\<close> bounds the nesting, since each level reads a parenthesis.
\<close>

type_synonym Parser = "Token list \<Rightarrow> (PubsubFilter \<times> Token list) option"

definition primary_filter :: "Parser \<Rightarrow> Parser" where
  "primary_filter nested ts =
     (case symbol (CHR ''('') ts of
        Some ts \<Rightarrow>
          (case nested ts of None \<Rightarrow> None | Some (inner, ts) \<Rightarrow> map_option (Pair inner) (symbol (CHR '')'') ts))
      | None \<Rightarrow>
          (case keyword ''hasPrefix'' ts of
             Some ts \<Rightarrow> has_prefix_filter ts
           | None \<Rightarrow> (case keyword ''attributes'' ts of None \<Rightarrow> None | Some ts \<Rightarrow> attribute_filter ts)))"

fun unary_filter :: "Parser \<Rightarrow> Parser" where
  "unary_filter nested [] = primary_filter nested []"
| "unary_filter nested (t # ts) =
     (if t = Ident ''NOT'' \<or> t = Symbol (code (CHR ''-''))
      then map_option (\<lambda>(f, ts). (Not f, ts)) (unary_filter nested ts)
      else primary_filter nested (t # ts))"

fun operand_loop :: "string \<Rightarrow> (PubsubFilter \<Rightarrow> PubsubFilter \<Rightarrow> PubsubFilter) \<Rightarrow> Parser \<Rightarrow> nat \<Rightarrow> PubsubFilter \<Rightarrow> Parser" where
  "operand_loop word combine operand 0 left ts = None"
| "operand_loop word combine operand (Suc n) left ts =
     (case keyword word ts of
        None \<Rightarrow> Some (left, ts)
      | Some ts \<Rightarrow>
          (case operand ts of
             None \<Rightarrow> None
           | Some (right, ts) \<Rightarrow> operand_loop word combine operand n (combine left right) ts))"

definition operands :: "string \<Rightarrow> (PubsubFilter \<Rightarrow> PubsubFilter \<Rightarrow> PubsubFilter) \<Rightarrow> Parser \<Rightarrow> Parser" where
  "operands word combine operand ts =
     (case operand ts of
        None \<Rightarrow> None
      | Some (left, ts) \<Rightarrow> operand_loop word combine operand (Suc (length ts)) left ts)"

definition and_filter :: "Parser \<Rightarrow> Parser" where
  "and_filter nested = operands ''AND'' And (unary_filter nested)"

fun or_filter :: "nat \<Rightarrow> Parser" where
  "or_filter 0 ts = None"
| "or_filter (Suc n) ts = operands ''OR'' Or (and_filter (or_filter n)) ts"

definition parse_filter :: "CharClass \<Rightarrow> string \<Rightarrow> PubsubError + PubsubFilter" where
  "parse_filter cls s =
     (case tokenize cls (str_chars s) of
        None \<Rightarrow> Inl application_error
      | Some ts \<Rightarrow>
          (case or_filter (Suc (length ts)) ts of
             None \<Rightarrow> Inl application_error
           | Some (f, rest) \<Rightarrow> if rest \<noteq> [] then Inl application_error else Inr f))"

end
