(* ===== verification/Pubsub_Broker.thy ===== *)
theory Pubsub_Broker
  imports Pubsub_Names
begin

text \<open>
  The Pub/Sub broker (\<open>pubsub-front/src/broker.rs\<close>): topics, subscriptions with leases and push
  delivery, dead letters, seeking, snapshots and schemas.

  An \<open>Instant\<close> and a \<open>SystemTime\<close> are nanoseconds, the latter since the epoch. A call reads the
  clocks once; they are its argument \<open>Clock\<close>. Counters are natural numbers: they would need
  \<open>2\<^sup>6\<^sup>4\<close> messages or leases to wrap. An operation returns its error or the new state with its
  result. \<open>notify\<close>, which only wakes waiters, is left out. The message types are generated from
  the protocol definitions; of them the fields the broker reads or writes are modelled, and
  what it passes through is one opaque field. The Avro library, SHA-256, URL parsing, date
  formatting, JSON and base64 are parameters (\<open>Env\<close>).
\<close>

section \<open>Data\<close>

type_synonym Instant = nat
type_synonym SystemTime = nat
type_synonym Opaque = nat

record Clock =
  now_instant :: Instant
  now_system :: SystemTime

record ProtoDuration =
  duration_secs :: int
  duration_nanos :: int

record ProtoTimestamp =
  stamp_seconds :: int
  stamp_nanos :: int

record PubsubMessage =
  message_data :: string
  message_attributes :: Attributes
  message_id :: string
  publish_time :: "ProtoTimestamp option"
  ordering_key :: string

record SchemaSettings =
  settings_schema :: string
  settings_encoding :: int
  first_revision_id :: string
  last_revision_id :: string

record Topic =
  topic_name :: string
  schema_settings :: "SchemaSettings option"
  topic_retention :: "ProtoDuration option"
  topic_labels :: Opaque

record PushConfig =
  push_endpoint :: string
  push_attributes :: Opaque

record DeadLetterPolicy =
  dead_letter_topic :: string
  max_delivery_attempts :: int

record RetryPolicy =
  minimum_backoff :: "ProtoDuration option"
  maximum_backoff :: "ProtoDuration option"

record Subscription =
  sub_name :: string
  sub_topic :: string
  push_config :: "PushConfig option"
  ack_deadline_seconds :: int
  retain_acked_messages :: bool
  sub_retention :: "ProtoDuration option"
  enable_message_ordering :: bool
  sub_filter :: string
  dead_letter_policy :: "DeadLetterPolicy option"
  retry_policy :: "RetryPolicy option"
  detached :: bool
  enable_exactly_once_delivery :: bool
  export_configs :: "Opaque option"
  sub_labels :: Opaque

record PubsubSnapshot =
  snap_name :: string
  snap_topic :: string
  snap_expire :: "ProtoTimestamp option"

record ReceivedMessage =
  ack_id :: string
  received_message :: PubsubMessage
  delivery_attempt :: int

datatype Encoding = EncodingUnspecified | EncodingJson | EncodingBinary

datatype SchemaType = TypeUnspecified | ProtocolBuffer | Avro

datatype SchemaView = ViewUnspecified | ViewBasic | ViewFull

record PubsubSchema =
  schema_name :: string
  schema_type :: int
  schema_definition :: string
  schema_revision_id :: string
  schema_revision_time :: "ProtoTimestamp option"

section \<open>State\<close>

record StoredMessage =
  stored_id :: nat
  stored_message :: PubsubMessage
  published :: Instant
  published_at :: SystemTime

datatype MessageState = Available | Leased nat Instant | Pushing Instant | Acked

record Tracked =
  tracked_message :: StoredMessage
  tracked_state :: MessageState
  attempts :: nat
  sequence_number :: nat

record 'avro BoundSchema =
  bound_revision :: string
  bound_parsed :: 'avro
  bound_encoding :: Encoding
  bound_deleted :: bool

record 'avro TopicEntry =
  entry_topic :: Topic
  generation :: nat
  topic_messages :: "StoredMessage list"
  entry_schema :: "'avro BoundSchema option"

record SubscriptionEntry =
  subscription :: Subscription
  topic_generation :: nat
  original_topic :: string
  topic_deleted :: bool
  entry_filter :: "PubsubFilter option"
  messages :: "(nat, Tracked) ord_map"

record SnapshotEntry =
  entry_snapshot :: PubsubSnapshot
  snapshot_generation :: nat
  unacked :: "nat ord_set"
  created :: Instant

record 'avro SchemaRevision =
  revision_id :: string
  definition_text :: string
  created_at :: SystemTime
  revision_parsed :: 'avro

record 'avro SchemaEntry =
  entry_name :: string
  revisions :: "'avro SchemaRevision list"

text \<open>
  \<open>in_flight\<close> has a mutex of its own; \<open>next_seq\<close> is the process-wide counter behind
  \<open>next_sequence\<close>.
\<close>

record 'avro BrokerState =
  topics :: "(string, 'avro TopicEntry) ord_map"
  subscriptions :: "(string, SubscriptionEntry) ord_map"
  snapshots :: "(string, SnapshotEntry) ord_map"
  schemas :: "(string, 'avro SchemaEntry) ord_map"
  next_message_id :: nat
  next_ack :: nat
  next_generation :: nat
  revision_counter :: nat
  in_flight :: "(string \<times> nat) ord_set"
  next_seq :: nat

record PushJob =
  job_subscription :: string
  job_message_id :: nat
  job_endpoint :: string
  job_body :: string

text \<open>
  The parameters: \<open>Schema::parse_str\<close>; whether a message is JSON of the schema; where reading one
  binary datum of a message ends, if it succeeds; \<open>Url::parse\<close>; the RFC 3339 text of whole seconds since the
  epoch; the bytes of SHA-256; base64; and the JSON text of a string and of the attributes.
\<close>

record 'avro Env =
  char_class :: CharClass
  parse_str :: "string \<Rightarrow> 'avro option"
  json_matches :: "'avro \<Rightarrow> string \<Rightarrow> bool"
  datum_end :: "'avro \<Rightarrow> string \<Rightarrow> nat option"
  url_parses :: "string \<Rightarrow> bool"
  format_rfc3339 :: "nat \<Rightarrow> string"
  sha256 :: "string \<Rightarrow> nat list"
  base64_encode :: "string \<Rightarrow> string"
  json_of_string :: "string \<Rightarrow> string"
  json_of_attributes :: "Attributes \<Rightarrow> string"

definition Broker_new :: "nat \<Rightarrow> 'avro BrokerState" where
  "Broker_new sequence =
     \<lparr>topics = [], subscriptions = [], snapshots = [], schemas = [], next_message_id = 1, next_ack = 1,
      next_generation = 1, revision_counter = 0, in_flight = [], next_seq = sequence\<rparr>"

definition DELETED_TOPIC :: string where "DELETED_TOPIC = ''_deleted-topic_''"
definition DELETED_SCHEMA :: string where "DELETED_SCHEMA = ''_deleted-schema_''"
definition DEFAULT_ACK_DEADLINE :: int where "DEFAULT_ACK_DEADLINE = 10"
definition DEFAULT_RETENTION_SECONDS :: int where "DEFAULT_RETENTION_SECONDS = 604800"
definition MIN_RETENTION_SECONDS :: int where "MIN_RETENTION_SECONDS = 600"
definition MAX_RETENTION_SECONDS :: int where "MAX_RETENTION_SECONDS = 604800"

definition seconds :: "nat \<Rightarrow> nat" where "seconds n = n * 1000000000"

definition SNAPSHOT_TTL :: nat where "SNAPSHOT_TTL = seconds (168 * 3600)"
definition PUSH_RETRY :: nat where "PUSH_RETRY = seconds 1"

definition timestamp :: "SystemTime \<Rightarrow> ProtoTimestamp" where
  "timestamp time =
     \<lparr>stamp_seconds = min (int (time div 1000000000)) i64_max, stamp_nanos = int (time mod 1000000000)\<rparr>"

definition retention_ok :: "ProtoDuration option \<Rightarrow> bool" where
  "retention_ok retention =
     (case retention of
        None \<Rightarrow> True
      | Some d \<Rightarrow> MIN_RETENTION_SECONDS \<le> duration_secs d \<and> duration_secs d \<le> MAX_RETENTION_SECONDS)"

section \<open>Texts\<close>

definition decimal_int :: "int \<Rightarrow> string" where
  "decimal_int n = (if n < 0 then ''-'' @ decimal (nat (- n)) else decimal (nat n))"

text \<open>The format \<open>{:0w}\<close>: the sign counts to the width.\<close>

definition padded :: "nat \<Rightarrow> int \<Rightarrow> string" where
  "padded width n =
     (let digits = decimal_int \<bar>n\<bar>; sign = (if n < 0 then ''-'' else [])
      in sign @ replicate (width - length digits - length sign) (CHR ''0'') @ digits)"

definition trim_end_char :: "char \<Rightarrow> string \<Rightarrow> string" where
  "trim_end_char c s = rev (dropWhile (\<lambda>x. x = c) (rev s))"

definition rfc3339_base :: "'avro Env \<Rightarrow> SystemTime \<Rightarrow> string" where
  "rfc3339_base env time =
     (let secs = time div 1000000000
      in trim_end_char (CHR ''Z'') (format_rfc3339 env (if int secs \<le> i64_max then secs else 0)))"

definition rfc3339_millis :: "'avro Env \<Rightarrow> SystemTime \<Rightarrow> string" where
  "rfc3339_millis env time =
     rfc3339_base env time @ ''.'' @ padded 3 (int (time mod 1000000000 div 1000000)) @ ''Z''"

definition rfc3339_nanos :: "'avro Env \<Rightarrow> SystemTime \<Rightarrow> string" where
  "rfc3339_nanos env time = rfc3339_base env time @ ''.'' @ padded 9 (int (time mod 1000000000)) @ ''Z''"

definition json_string :: "'avro Env \<Rightarrow> string \<Rightarrow> string" where
  "json_string env s = replace_char (CHR ''/'') [CHR 0x5C, CHR ''/''] (json_of_string env s)"

definition push_envelope :: "'avro Env \<Rightarrow> string \<Rightarrow> StoredMessage \<Rightarrow> string" where
  "push_envelope env name m =
     (let time = (case publish_time (stored_message m) of
            None \<Rightarrow> []
          | Some stamp \<Rightarrow> rfc3339_millis env (seconds (nat (stamp_seconds stamp)) + nat (stamp_nanos stamp)));
          quoted = (\<lambda>s. [CHR 0x22] @ s @ [CHR 0x22, CHR '':'']);
          number = json_string env (message_id (stored_message m))
      in ''{'' @ quoted ''subscription'' @ json_string env name
         @ '','' @ quoted ''message'' @ ''{'' @ quoted ''publishTime'' @ json_string env time
         @ '','' @ quoted ''data'' @ json_string env (base64_encode env (message_data (stored_message m)))
         @ '','' @ quoted ''publish_time'' @ json_string env time
         @ '','' @ quoted ''messageId'' @ number
         @ '','' @ quoted ''attributes'' @ replace_char (CHR ''/'') [CHR 0x5C, CHR ''/'']
                     (json_of_attributes env (message_attributes (stored_message m)))
         @ '','' @ quoted ''message_id'' @ number @ ''}}'')"

section \<open>Avro\<close>

definition parse_definition :: "'avro Env \<Rightarrow> string \<Rightarrow> PubsubError + 'avro" where
  "parse_definition env text_of =
     (if list_all (is_whitespace (char_class env)) (str_chars text_of)
      then Inl (invalid_argument ''Could not parse schema definition'')
      else (case parse_str env text_of of
              None \<Rightarrow> Inl (invalid_argument ''Could not parse schema definition'')
            | Some schema \<Rightarrow> Inr schema))"

definition validate_json :: "'avro Env \<Rightarrow> 'avro \<Rightarrow> string \<Rightarrow> PubsubError + unit" where
  "validate_json env schema message =
     (if json_matches env schema message then Inr ()
      else Inl (invalid_argument ''Could not parse JSON Avro message''))"

definition validate_binary :: "'avro Env \<Rightarrow> 'avro \<Rightarrow> string \<Rightarrow> PubsubError + unit" where
  "validate_binary env schema message =
     (if datum_end env schema message = Some (length message) then Inr ()
      else Inl (invalid_argument ''Could not parse binary Avro message''))"

section \<open>One subscription\<close>

definition is_push :: "SubscriptionEntry \<Rightarrow> bool" where
  "is_push e = (case push_config (subscription e) of None \<Rightarrow> False | Some c \<Rightarrow> push_endpoint c \<noteq> [])"

definition track :: "Instant \<Rightarrow> StoredMessage \<Rightarrow> SubscriptionEntry \<Rightarrow> SubscriptionEntry" where
  "track now m e =
     (if (case entry_filter e of
            None \<Rightarrow> False
          | Some f \<Rightarrow> \<not> filter_matches_attributes f (message_attributes (stored_message m)))
      then e
      else e\<lparr>messages := om_insert (stored_id m)
               \<lparr>tracked_message = m, tracked_state = (if is_push e then Pushing now else Available),
                attempts = 0, sequence_number = stored_id m\<rparr> (messages e)\<rparr>)"

definition map_tracked :: "(Tracked \<Rightarrow> Tracked) \<Rightarrow> SubscriptionEntry \<Rightarrow> SubscriptionEntry" where
  "map_tracked f e = e\<lparr>messages := map (\<lambda>(k, t). (k, f t)) (messages e)\<rparr>"

definition start_pushing :: "Instant \<Rightarrow> SubscriptionEntry \<Rightarrow> SubscriptionEntry" where
  "start_pushing now =
     map_tracked (\<lambda>t. if tracked_state t = Available then t\<lparr>tracked_state := Pushing now\<rparr> else t)"

fun is_pushing :: "MessageState \<Rightarrow> bool" where
  "is_pushing (Pushing _) = True"
| "is_pushing _ = False"

fun is_leased :: "MessageState \<Rightarrow> bool" where
  "is_leased (Leased _ _) = True"
| "is_leased _ = False"

definition stop_pushing :: "SubscriptionEntry \<Rightarrow> SubscriptionEntry" where
  "stop_pushing =
     map_tracked (\<lambda>t. if is_pushing (tracked_state t) then t\<lparr>tracked_state := Available\<rparr> else t)"

text \<open>
  \<open>take\<close>: the ordering keys of leased messages are blocked, the available messages are sorted
  by sequence number and id, and leased until the limit is reached.
\<close>

definition blocked_keys :: "SubscriptionEntry \<Rightarrow> string list" where
  "blocked_keys e =
     (if enable_message_ordering (subscription e)
      then filter (\<lambda>k. k \<noteq> [])
             (map (\<lambda>(_, t). ordering_key (stored_message (tracked_message t)))
               (filter (\<lambda>(_, t). is_leased (tracked_state t)) (messages e)))
      else [])"

definition candidates :: "SubscriptionEntry \<Rightarrow> (nat \<times> nat) list" where
  "candidates e =
     sort (map (\<lambda>(k, t). (sequence_number t, k)) (filter (\<lambda>(_, t). tracked_state t = Available) (messages e)))"

fun take_candidates :: "nat \<Rightarrow> string list \<Rightarrow> nat \<Rightarrow> Instant \<Rightarrow> (nat \<times> nat) list \<Rightarrow>
    SubscriptionEntry \<Rightarrow> ReceivedMessage list \<Rightarrow> nat \<Rightarrow> SubscriptionEntry \<times> ReceivedMessage list \<times> nat" where
  "take_candidates limit blocked first_ack deadline [] e received used = (e, received, used)"
| "take_candidates limit blocked first_ack deadline ((_, k) # rest) e received used =
     (if limit \<le> length received then (e, received, used)
      else (case map_of (messages e) k of
              None \<Rightarrow> take_candidates limit blocked first_ack deadline rest e received used
            | Some t \<Rightarrow>
                (let key = ordering_key (stored_message (tracked_message t)) in
                 if enable_message_ordering (subscription e) \<and> key \<noteq> [] \<and> key \<in> set blocked
                 then take_candidates limit blocked first_ack deadline rest e received used
                 else (let ack = first_ack + used;
                           t = t\<lparr>attempts := attempts t + 1, tracked_state := Leased ack deadline\<rparr>
                       in take_candidates limit blocked first_ack deadline rest
                            (e\<lparr>messages := om_insert k t (messages e)\<rparr>)
                            (received @ [\<lparr>ack_id = sub_name (subscription e) @ '':'' @ decimal ack,
                               received_message = stored_message (tracked_message t),
                               delivery_attempt = (if dead_letter_policy (subscription e) \<noteq> None
                                 then min (int (attempts t)) (2 ^ 31 - 1) else 0)\<rparr>])
                            (used + 1)))))"

definition take_messages :: "SubscriptionEntry \<Rightarrow> int \<Rightarrow> nat \<Rightarrow> Instant \<Rightarrow>
    SubscriptionEntry \<times> ReceivedMessage list \<times> nat" where
  "take_messages e max_messages first_ack now =
     (let deadline = now + seconds (if ack_deadline_seconds (subscription e) < 0 then 10
                                    else nat (ack_deadline_seconds (subscription e)))
      in take_candidates (nat max_messages) (blocked_keys e) first_ack deadline (candidates e) e [] 0)"

definition find_lease :: "SubscriptionEntry \<Rightarrow> nat \<Rightarrow> nat option" where
  "find_lease e ack =
     map_option fst (find (\<lambda>(_, t). case tracked_state t of Leased leased _ \<Rightarrow> leased = ack | _ \<Rightarrow> False) (messages e))"

definition acknowledge_message :: "nat \<Rightarrow> SubscriptionEntry \<Rightarrow> SubscriptionEntry" where
  "acknowledge_message k e =
     (case map_of (messages e) k of
        None \<Rightarrow> e
      | Some t \<Rightarrow> e\<lparr>messages := om_insert k (t\<lparr>tracked_state := Acked\<rparr>) (messages e)\<rparr>)"

type_synonym Forwarded = "(string \<times> StoredMessage \<times> nat) list"

text \<open>The entry, the messages to forward and the sequence counter are threaded.\<close>

definition modify_deadline :: "nat \<Rightarrow> int \<Rightarrow> Instant \<Rightarrow> SubscriptionEntry \<times> Forwarded \<times> nat \<Rightarrow>
    SubscriptionEntry \<times> Forwarded \<times> nat" where
  "modify_deadline k secs now = (\<lambda>(e, forwarded, seq).
     (case map_of (messages e) k of
        None \<Rightarrow> (e, forwarded, seq)
      | Some t \<Rightarrow>
          (case tracked_state t of
             Leased ack _ \<Rightarrow>
               if secs = 0 then
                 (if (case dead_letter_policy (subscription e) of
                        None \<Rightarrow> False
                      | Some policy \<Rightarrow> max_delivery_attempts policy \<le> min (int (attempts t)) (2 ^ 31 - 1))
                  then (e\<lparr>messages := om_remove k (messages e)\<rparr>,
                        forwarded @ [(sub_name (subscription e), tracked_message t, attempts t)], seq)
                  else (e\<lparr>messages := om_insert k
                            (t\<lparr>sequence_number := seq,
                               tracked_state := (if is_push e then Pushing now else Available)\<rparr>) (messages e)\<rparr>,
                        forwarded, seq + 1))
               else (e\<lparr>messages := om_insert k
                         (t\<lparr>tracked_state := Leased ack (now + seconds (nat secs))\<rparr>) (messages e)\<rparr>,
                     forwarded, seq)
           | _ \<Rightarrow> (e, forwarded, seq))))"

definition expired_ids :: "Instant \<Rightarrow> SubscriptionEntry \<Rightarrow> nat list" where
  "expired_ids now e =
     map fst (filter (\<lambda>(_, t). case tracked_state t of Leased _ deadline \<Rightarrow> deadline \<le> now | _ \<Rightarrow> False) (messages e))"

definition expire :: "Instant \<Rightarrow> SubscriptionEntry \<times> Forwarded \<times> nat \<Rightarrow> SubscriptionEntry \<times> Forwarded \<times> nat" where
  "expire now s = fold (\<lambda>k. modify_deadline k 0 now) (expired_ids now (fst s)) s"

section \<open>Delivery\<close>

definition deliver :: "Instant \<Rightarrow> string \<Rightarrow> StoredMessage list \<Rightarrow> 'avro BrokerState \<Rightarrow> 'avro BrokerState" where
  "deliver now topic stored st =
     (case map_of (topics st) topic of
        None \<Rightarrow> st
      | Some entry \<Rightarrow>
          st\<lparr>topics := om_insert topic (entry\<lparr>topic_messages := topic_messages entry @ stored\<rparr>) (topics st),
             subscriptions := map (\<lambda>(name, s).
               (name, if topic_deleted s \<or> topic_generation s \<noteq> generation entry then s
                      else fold (track now) stored s)) (subscriptions st)\<rparr>)"

definition dead_letter_copy :: "'avro Env \<Rightarrow> Clock \<Rightarrow> nat \<Rightarrow> string \<times> StoredMessage \<times> nat \<Rightarrow> StoredMessage" where
  "dead_letter_copy env clock new_id = (\<lambda>(name, m, count).
     let parsed = parse_name ''subscriptions'' name;
         resource = (case parsed of Inr n \<Rightarrow> resource_id n | Inl _ \<Rightarrow> []);
         project = (case parsed of Inr n \<Rightarrow> resource_project n | Inl _ \<Rightarrow> []);
         copy = stored_message m;
         attributes = om_insert ''CloudPubSubDeadLetterSourceDeliveryCount'' (decimal count) (message_attributes copy);
         attributes = om_insert ''CloudPubSubDeadLetterSourceSubscription'' resource attributes;
         attributes = om_insert ''CloudPubSubDeadLetterSourceSubscriptionProject'' project attributes;
         attributes = om_insert ''CloudPubSubDeadLetterSourceTopicPublishTime''
           (rfc3339_millis env (published_at m)) attributes
     in \<lparr>stored_id = new_id,
         stored_message = copy\<lparr>message_attributes := attributes, message_id := decimal new_id,
           publish_time := Some (timestamp (now_system clock))\<rparr>,
         published = now_instant clock, published_at = now_system clock\<rparr>)"

definition forward_dead_letter :: "'avro Env \<Rightarrow> Clock \<Rightarrow> string \<times> StoredMessage \<times> nat \<Rightarrow>
    'avro BrokerState \<Rightarrow> 'avro BrokerState" where
  "forward_dead_letter env clock letter st =
     (case Option.bind (map_of (subscriptions st) (fst letter)) (\<lambda>e. dead_letter_policy (subscription e)) of
        None \<Rightarrow> st
      | Some policy \<Rightarrow>
          if map_of (topics st) (dead_letter_topic policy) = None then st
          else deliver (now_instant clock) (dead_letter_topic policy)
                 [dead_letter_copy env clock (next_message_id st) letter]
                 (st\<lparr>next_message_id := next_message_id st + 1\<rparr>))"

definition forward_dead_letters :: "'avro Env \<Rightarrow> Clock \<Rightarrow> Forwarded \<Rightarrow> 'avro BrokerState \<Rightarrow> 'avro BrokerState" where
  "forward_dead_letters env clock forwarded st = fold (forward_dead_letter env clock) forwarded st"

section \<open>Schemas of topics\<close>

definition encoding_of :: "int \<Rightarrow> Encoding option" where
  "encoding_of n =
     (if n = 0 then Some EncodingUnspecified else if n = 1 then Some EncodingJson
      else if n = 2 then Some EncodingBinary else None)"

definition find_revision :: "string \<Rightarrow> 'avro SchemaRevision list \<Rightarrow> 'avro SchemaRevision option" where
  "find_revision wanted revs = find (\<lambda>r. revision_id r = wanted) revs"

definition bind_schema :: "'avro BrokerState \<Rightarrow> SchemaSettings \<Rightarrow> PubsubError + SchemaSettings \<times> 'avro BoundSchema" where
  "bind_schema st settings =
     (case (case parse_name ''schemas'' (settings_schema settings) of
              Inl _ \<Rightarrow> None
            | Inr _ \<Rightarrow> map_of (schemas st) (settings_schema settings)) of
        None \<Rightarrow> Inl (not_found ''Schema could not be found'')
      | Some entry \<Rightarrow>
          (case encoding_of (settings_encoding settings) of
             None \<Rightarrow> Inl (invalid_argument ''Invalid schema encoding provided'')
           | Some EncodingUnspecified \<Rightarrow> Inl (invalid_argument ''Invalid schema encoding provided'')
           | Some encoding \<Rightarrow>
               if first_revision_id settings \<noteq> []
                  \<and> find_revision (first_revision_id settings) (revisions entry) = None
               then Inl (not_found ''First revision could not be found'')
               else (case (if last_revision_id settings = []
                           then (case revisions entry of [] \<Rightarrow> Inl (not_found ''Schema could not be found'')
                                 | revs \<Rightarrow> Inr (last revs))
                           else (case find_revision (last_revision_id settings) (revisions entry) of
                                   None \<Rightarrow> Inl (not_found ''Last revision could not be found'')
                                 | Some r \<Rightarrow> Inr r)) of
                       Inl e \<Rightarrow> Inl e
                     | Inr r \<Rightarrow>
                         Inr (settings, \<lparr>bound_revision = revision_id r, bound_parsed = revision_parsed r,
                                         bound_encoding = encoding, bound_deleted = False\<rparr>))))"

section \<open>Topics\<close>

definition create_topic :: "Topic \<Rightarrow> 'avro BrokerState \<Rightarrow> PubsubError + 'avro BrokerState \<times> Topic" where
  "create_topic request st =
     result_bind (parse_name ''topics'' (topic_name request)) (\<lambda>_.
       if map_of (topics st) (topic_name request) \<noteq> None then Inl (already_exists ''Topic already exists'')
       else if \<not> retention_ok (topic_retention request)
       then Inl (invalid_argument ''message_retention_duration out of bounds'')
       else result_bind
         (case schema_settings request of
            None \<Rightarrow> Inr (request\<lparr>schema_settings := None\<rparr>, None)
          | Some settings \<Rightarrow>
              result_bind (bind_schema st settings) (\<lambda>(settings, bound).
                Inr (request\<lparr>schema_settings := Some settings\<rparr>, Some bound)))
         (\<lambda>(topic, schema).
            Inr (st\<lparr>next_generation := next_generation st + 1,
                    topics := om_insert (topic_name request)
                      \<lparr>entry_topic = topic, generation = next_generation st, topic_messages = [],
                       entry_schema = schema\<rparr> (topics st)\<rparr>, topic)))"

definition get_topic :: "string \<Rightarrow> 'avro BrokerState \<Rightarrow> PubsubError + Topic" where
  "get_topic name st =
     result_bind (parse_name ''topics'' name) (\<lambda>_.
       case map_of (topics st) name of
         None \<Rightarrow> Inl (not_found ''Topic not found'')
       | Some entry \<Rightarrow> Inr (entry_topic entry))"

text \<open>Pages of a sorted name list: from the page token, or from the start when it is unknown.\<close>

fun position_of :: "'a \<Rightarrow> 'a list \<Rightarrow> nat option" where
  "position_of x [] = None"
| "position_of x (y # ys) = (if y = x then Some 0 else map_option Suc (position_of x ys))"

definition paginate :: "string list \<Rightarrow> int \<Rightarrow> string \<Rightarrow> string list \<times> string" where
  "paginate names page_size page_token =
     (let start = (if page_token = [] then 0
                   else (case position_of page_token names of None \<Rightarrow> 0 | Some i \<Rightarrow> i));
          stop = (if 0 < page_size then min (start + nat page_size) (length names) else length names)
      in (take (stop - start) (drop start names), if stop < length names then names ! stop else []))"

definition list_topics :: "string \<Rightarrow> int \<Rightarrow> string \<Rightarrow> 'avro BrokerState \<Rightarrow> PubsubError + Topic list \<times> string" where
  "list_topics project page_size page_token st =
     (case parse_project ''topics'' project of
        Inl _ \<Rightarrow> Inl application_error
      | Inr project \<Rightarrow>
          (let names = filter (\<lambda>name. strip_prefix (''projects/'' @ project @ ''/topics/'') name \<noteq> None)
                         (map fst (topics st));
               (page, next_token) = paginate names page_size page_token
           in Inr (List.map_filter (\<lambda>name. map_option entry_topic (map_of (topics st) name)) page, next_token)))"

definition update_topic_path :: "'avro BrokerState \<Rightarrow> Topic \<Rightarrow> string \<Rightarrow>
    PubsubError + (SchemaSettings \<times> 'avro BoundSchema) option" where
  "update_topic_path st update path =
     (if path = ''schema_settings'' then
        (case schema_settings update of
           None \<Rightarrow> Inl (invalid_argument ''No schema name provided'')
         | Some requested \<Rightarrow>
             if settings_schema requested = [] then Inl (invalid_argument ''No schema name provided'')
             else result_bind (bind_schema st requested) (\<lambda>b. Inr (Some b)))
      else if \<not> retention_ok (topic_retention update)
      then Inl (invalid_argument ''message_retention_duration out of bounds'')
      else Inr None)"

fun update_topic_paths :: "'avro BrokerState \<Rightarrow> Topic \<Rightarrow> string list \<Rightarrow> (SchemaSettings \<times> 'avro BoundSchema) option \<Rightarrow>
    PubsubError + (SchemaSettings \<times> 'avro BoundSchema) option" where
  "update_topic_paths st update [] bound = Inr bound"
| "update_topic_paths st update (path # paths) bound =
     result_bind (update_topic_path st update path) (\<lambda>b.
       update_topic_paths st update paths (if b = None then bound else b))"

definition Topic_default :: Topic where
  "Topic_default = \<lparr>topic_name = [], schema_settings = None, topic_retention = None, topic_labels = 0\<rparr>"

definition update_topic :: "Topic option \<Rightarrow> string list \<Rightarrow> 'avro BrokerState \<Rightarrow>
    PubsubError + 'avro BrokerState \<times> Topic" where
  "update_topic topic paths st =
     (if paths = [] then Inl (invalid_argument
        ''The update_mask in the UpdateTopicRequest must be set, and must contain a non-empty paths list.'')
      else case find (\<lambda>path. path \<noteq> ''schema_settings'' \<and> path \<noteq> ''message_retention_duration'') paths of
        Some path \<Rightarrow> Inl (invalid_argument
          (''Invalid update_mask provided in the UpdateTopicRequest: '' @ path
           @ '' is not a known Topic field. Note that field paths must be of the form 'schema_settings' rather than 'schemaSetings'.''))
      | None \<Rightarrow>
          (let update = (case topic of Some t \<Rightarrow> t | None \<Rightarrow> Topic_default) in
           result_bind (parse_name ''topics'' (topic_name update)) (\<lambda>_.
             case map_of (topics st) (topic_name update) of
               None \<Rightarrow> Inl (not_found ''Topic not found.'')
             | Some entry \<Rightarrow>
                 result_bind (update_topic_paths st update paths None) (\<lambda>bound.
                   let t = (if ''message_retention_duration'' \<in> set paths
                            then (entry_topic entry)\<lparr>topic_retention := topic_retention update\<rparr>
                            else entry_topic entry);
                       entry = (case bound of
                                  None \<Rightarrow> entry\<lparr>entry_topic := t\<rparr>
                                | Some (settings, schema) \<Rightarrow>
                                    entry\<lparr>entry_topic := t\<lparr>schema_settings := Some settings\<rparr>, entry_schema := Some schema\<rparr>)
                   in Inr (st\<lparr>topics := om_insert (topic_name update) entry (topics st)\<rparr>, entry_topic entry)))))"

definition delete_topic :: "string \<Rightarrow> 'avro BrokerState \<Rightarrow> PubsubError + 'avro BrokerState" where
  "delete_topic name st =
     result_bind (parse_name ''topics'' name) (\<lambda>_.
       case map_of (topics st) name of
         None \<Rightarrow> Inl (not_found ''Topic not found'')
       | Some entry \<Rightarrow>
           Inr (st\<lparr>topics := om_remove name (topics st),
                   subscriptions := map (\<lambda>(n, s).
                     (n, if topic_generation s = generation entry
                         then s\<lparr>topic_deleted := True,
                                subscription := (subscription s)\<lparr>sub_topic := DELETED_TOPIC\<rparr>\<rparr>
                         else s)) (subscriptions st)\<rparr>))"

definition list_topic_subscriptions :: "string \<Rightarrow> int \<Rightarrow> string \<Rightarrow> 'avro BrokerState \<Rightarrow> PubsubError + string list \<times> string" where
  "list_topic_subscriptions topic page_size page_token st =
     result_bind (parse_name ''topics'' topic) (\<lambda>_.
       let gen = map_option generation (map_of (topics st) topic);
           names = map fst (filter (\<lambda>(_, e). \<not> topic_deleted e \<and> \<not> detached (subscription e)
                     \<and> Some (topic_generation e) = gen) (subscriptions st))
       in Inr (paginate names page_size page_token))"

definition list_topic_snapshots :: "string \<Rightarrow> int \<Rightarrow> string \<Rightarrow> 'avro BrokerState \<Rightarrow> PubsubError + string list \<times> string" where
  "list_topic_snapshots topic page_size page_token st =
     result_bind (parse_name ''topics'' topic) (\<lambda>_.
       let gen = map_option generation (map_of (topics st) topic);
           names = map fst (filter (\<lambda>(_, e). gen = Some (snapshot_generation e)) (snapshots st))
       in Inr (paginate names page_size page_token))"

section \<open>Publishing\<close>

definition prepare_message :: "'avro Env \<Rightarrow> 'avro TopicEntry \<Rightarrow> PubsubMessage \<Rightarrow> PubsubError + PubsubMessage" where
  "prepare_message env entry m =
     (case entry_schema entry of
        None \<Rightarrow> Inr m
      | Some bound \<Rightarrow>
          if bound_deleted bound then Inl (not_found ''Schema associated with topic deleted.'')
          else if (case bound_encoding bound of
                     EncodingBinary \<Rightarrow> validate_binary env (bound_parsed bound) (message_data m)
                   | _ \<Rightarrow> validate_json env (bound_parsed bound) (message_data m)) \<noteq> Inr ()
          then Inl (invalid_argument ''Could not parse message'')
          else (let name = (case schema_settings (entry_topic entry) of
                              None \<Rightarrow> [] | Some settings \<Rightarrow> settings_schema settings);
                    attributes = om_insert ''googclient_schemaencoding''
                      (case bound_encoding bound of EncodingBinary \<Rightarrow> ''BINARY'' | _ \<Rightarrow> ''JSON'') (message_attributes m);
                    attributes = om_insert ''googclient_schemaname'' name attributes;
                    attributes = om_insert ''googclient_schemarevisionid'' (bound_revision bound) attributes
                in Inr (m\<lparr>message_attributes := attributes\<rparr>)))"

fun prepare_messages :: "'avro Env \<Rightarrow> 'avro TopicEntry \<Rightarrow> PubsubMessage list \<Rightarrow> PubsubError + PubsubMessage list" where
  "prepare_messages env entry [] = Inr []"
| "prepare_messages env entry (m # ms) =
     result_bind (prepare_message env entry m) (\<lambda>m. result_bind (prepare_messages env entry ms) (\<lambda>ms. Inr (m # ms)))"

fun store_messages :: "Clock \<Rightarrow> nat \<Rightarrow> PubsubMessage list \<Rightarrow> StoredMessage list" where
  "store_messages clock n [] = []"
| "store_messages clock n (m # ms) =
     \<lparr>stored_id = n,
      stored_message = m\<lparr>message_id := decimal n, publish_time := Some (timestamp (now_system clock))\<rparr>,
      published = now_instant clock, published_at = now_system clock\<rparr> # store_messages clock (n + 1) ms"

definition publish :: "'avro Env \<Rightarrow> Clock \<Rightarrow> string \<Rightarrow> PubsubMessage list \<Rightarrow> 'avro BrokerState \<Rightarrow>
    PubsubError + 'avro BrokerState \<times> string list \<times> StoredMessage list" where
  "publish env clock topic ms st =
     result_bind (parse_name ''topics'' topic) (\<lambda>_.
       case map_of (topics st) topic of
         None \<Rightarrow> Inl (not_found ''Topic not found'')
       | Some entry \<Rightarrow>
           if ms = [] then Inl (invalid_argument ''No messages to publish'')
           else if list_ex (\<lambda>m. message_data m = [] \<and> message_attributes m = []) ms
           then Inl (invalid_argument ''Some messages are empty'')
           else result_bind (prepare_messages env entry ms) (\<lambda>prepared.
             let stored = store_messages clock (next_message_id st) prepared;
                 st = st\<lparr>next_message_id := next_message_id st + length prepared\<rparr>
             in Inr (deliver (now_instant clock) topic stored st, map (\<lambda>m. decimal (stored_id m)) stored, stored)))"

section \<open>Subscriptions\<close>

definition validate_push_config :: "'avro Env \<Rightarrow> PushConfig \<Rightarrow> PubsubError + unit" where
  "validate_push_config env config =
     (let endpoint = push_endpoint config in
      if endpoint = [] then Inr ()
      else if \<not> (strip_prefix ''http://'' endpoint \<noteq> None \<or> strip_prefix ''https://'' endpoint \<noteq> None)
              \<or> \<not> url_parses env endpoint
      then Inl (invalid_argument ''Unsupported push_endpoint'')
      else Inr ())"

definition PushConfig_default :: PushConfig where
  "PushConfig_default = \<lparr>push_endpoint = [], push_attributes = 0\<rparr>"

text \<open>A non-zero number of nanoseconds never prints as nine zeros, so the final \<open>replace\<close> has no effect.\<close>

definition duration_text :: "ProtoDuration \<Rightarrow> string" where
  "duration_text d =
     (if duration_nanos d = 0 then decimal_int (duration_secs d) @ ''s''
      else decimal_int (duration_secs d) @ ''.'' @ padded 9 (duration_nanos d) @ ''s'')"

definition validate_dead_letter :: "'avro BrokerState \<Rightarrow> DeadLetterPolicy \<Rightarrow> PubsubError + DeadLetterPolicy" where
  "validate_dead_letter st policy =
     (if (case parse_name ''topics'' (dead_letter_topic policy) of Inl _ \<Rightarrow> True | Inr _ \<Rightarrow> False)
         \<or> map_of (topics st) (dead_letter_topic policy) = None
      then Inl (not_found ''Dead letter topic not found'')
      else (let policy = (if max_delivery_attempts policy = 0 then policy\<lparr>max_delivery_attempts := 5\<rparr> else policy) in
        if max_delivery_attempts policy < 5 then Inl (out_of_range
          (''The value for max_delivery_attempts is too small. You passed '' @ decimal_int (max_delivery_attempts policy)
           @ '' in the request, but the minimum value is 5.''))
        else if 100 < max_delivery_attempts policy then Inl (out_of_range
          (''The value for max_delivery_attempts is too large. You passed '' @ decimal_int (max_delivery_attempts policy)
           @ '' in the request, but the maximum value is 100.''))
        else Inr policy))"

definition proto_seconds :: "int \<Rightarrow> ProtoDuration" where
  "proto_seconds secs = \<lparr>duration_secs = secs, duration_nanos = 0\<rparr>"

definition validate_retry :: "RetryPolicy \<Rightarrow> PubsubError + RetryPolicy" where
  "validate_retry policy =
     (let minimum = (case minimum_backoff policy of None \<Rightarrow> proto_seconds 10 | Some d \<Rightarrow> d);
          maximum = (case maximum_backoff policy of None \<Rightarrow> proto_seconds 600 | Some d \<Rightarrow> d)
      in if duration_secs maximum < duration_secs minimum
            \<or> duration_secs maximum = duration_secs minimum \<and> duration_nanos maximum < duration_nanos minimum
         then Inl (invalid_argument
           (''The value for maximum_backoff is too small. You passed '' @ duration_text maximum
            @ '' in the request, but the minimum value is '' @ duration_text minimum @ ''.''))
         else Inr \<lparr>minimum_backoff = Some minimum, maximum_backoff = Some maximum\<rparr>)"

definition validate_policies :: "'avro Env \<Rightarrow> 'avro BrokerState \<Rightarrow> Subscription \<Rightarrow> PubsubError + Subscription" where
  "validate_policies env st s =
     result_bind (case dead_letter_policy s of
                    None \<Rightarrow> Inr s
                  | Some policy \<Rightarrow> result_bind (validate_dead_letter st policy) (\<lambda>policy.
                      Inr (s\<lparr>dead_letter_policy := Some policy\<rparr>))) (\<lambda>s.
     result_bind (case retry_policy s of
                    None \<Rightarrow> Inr s
                  | Some policy \<Rightarrow> result_bind (validate_retry policy) (\<lambda>policy.
                      Inr (s\<lparr>retry_policy := Some policy\<rparr>))) (\<lambda>s.
       let config = (case push_config s of None \<Rightarrow> PushConfig_default | Some c \<Rightarrow> c) in
       result_bind (validate_push_config env config) (\<lambda>_.
         Inr (s\<lparr>push_config := Some config, export_configs := None\<rparr>))))"

definition validated_subscription :: "'avro Env \<Rightarrow> 'avro BrokerState \<Rightarrow> Subscription \<Rightarrow> PubsubError + Subscription" where
  "validated_subscription env st s =
     (let s = (if ack_deadline_seconds s = 0 then s\<lparr>ack_deadline_seconds := DEFAULT_ACK_DEADLINE\<rparr> else s) in
      if \<not> (0 \<le> ack_deadline_seconds s \<and> ack_deadline_seconds s \<le> 600)
      then Inl (invalid_argument ''ack_deadline_secs out of bounds'')
      else if sub_retention s \<noteq> None \<and> \<not> retention_ok (sub_retention s)
      then Inl (invalid_argument ''message_retention_duration out of bounds'')
      else validate_policies env st
             (if sub_retention s = None then s\<lparr>sub_retention := Some (proto_seconds DEFAULT_RETENTION_SECONDS)\<rparr> else s))"

definition subscription_filter :: "'avro Env \<Rightarrow> string \<Rightarrow> PubsubError + PubsubFilter option" where
  "subscription_filter env expression =
     (if expression = [] then Inr None else result_bind (parse_filter (char_class env) expression) (\<lambda>f. Inr (Some f)))"

text \<open>A new subscription is seeded with the messages a topic with retention still holds.\<close>

definition seed :: "Clock \<Rightarrow> 'avro TopicEntry \<Rightarrow> SubscriptionEntry \<Rightarrow> SubscriptionEntry" where
  "seed clock topic e =
     (case topic_retention (entry_topic topic) of
        None \<Rightarrow> e
      | Some d \<Rightarrow>
          fold (track (now_instant clock))
            (filter (\<lambda>m. now_instant clock - published m \<le> seconds (nat (duration_secs d))) (topic_messages topic)) e)"

definition create_subscription :: "'avro Env \<Rightarrow> Clock \<Rightarrow> Subscription \<Rightarrow> 'avro BrokerState \<Rightarrow>
    PubsubError + 'avro BrokerState \<times> Subscription" where
  "create_subscription env clock request st =
     result_bind (parse_name ''subscriptions'' (sub_name request)) (\<lambda>_.
     result_bind (parse_name ''topics'' (sub_topic request)) (\<lambda>_.
       case map_of (topics st) (sub_topic request) of
         None \<Rightarrow> Inl (not_found ''Subscription topic does not exist'')
       | Some topic \<Rightarrow>
           if map_of (subscriptions st) (sub_name request) \<noteq> None
           then Inl (already_exists ''Subscription already exists'')
           else result_bind (validated_subscription env st request) (\<lambda>s.
                result_bind (subscription_filter env (sub_filter s)) (\<lambda>f.
                  let e = \<lparr>subscription = s, topic_generation = generation topic, original_topic = sub_topic s,
                           topic_deleted = False, entry_filter = f, messages = []\<rparr>;
                      e = seed clock topic e;
                      e = (if is_push e then start_pushing (now_instant clock) e else e)
                  in Inr (st\<lparr>subscriptions := om_insert (sub_name s) e (subscriptions st)\<rparr>, s)))))"

definition get_subscription :: "string \<Rightarrow> 'avro BrokerState \<Rightarrow> PubsubError + Subscription" where
  "get_subscription name st =
     result_bind (parse_name ''subscriptions'' name) (\<lambda>_.
       case map_of (subscriptions st) name of
         None \<Rightarrow> Inl (not_found ''Subscription does not exist'')
       | Some e \<Rightarrow> Inr (subscription e))"

definition list_subscriptions :: "string \<Rightarrow> int \<Rightarrow> string \<Rightarrow> 'avro BrokerState \<Rightarrow> PubsubError + Subscription list \<times> string" where
  "list_subscriptions project page_size page_token st =
     (case parse_project ''subscriptions'' project of
        Inl _ \<Rightarrow> Inl application_error
      | Inr project \<Rightarrow>
          (let names = filter (\<lambda>name. strip_prefix (''projects/'' @ project @ ''/subscriptions/'') name \<noteq> None)
                         (map fst (subscriptions st));
               (page, next_token) = paginate names page_size page_token
           in Inr (List.map_filter (\<lambda>name. map_option subscription (map_of (subscriptions st) name)) page, next_token)))"

definition mask_error :: "string \<Rightarrow> PubsubError option" where
  "mask_error path =
     (if path \<in> {''ack_deadline_seconds'', ''push_config'', ''retain_acked_messages'', ''message_retention_duration'',
                  ''dead_letter_policy'', ''retry_policy'', ''enable_exactly_once_delivery''} then None
      else if path \<in> {''topic'', ''enable_message_ordering'', ''detached''} then Some (invalid_argument
        (''Invalid update_mask provided in the UpdateSubscriptionRequest: the '' @ path
         @ '' field in the Subscription is not mutable.''))
      else if path \<in> {''filter'', ''expiration_policy''} then Some (invalid_argument
        (''Updating the '' @ path @ '' field is currently unsupported in the Pub/Sub Emulator.''))
      else Some (invalid_argument
        (''Invalid update_mask provided in the UpdateSubscriptionRequest: '' @ path
         @ '' is not a known Subscription field. Note that field paths must be of the form 'push_config' rather than 'pushConfig'.'')))"

definition apply_mask_path :: "Subscription \<Rightarrow> string \<Rightarrow> Subscription \<Rightarrow> Subscription" where
  "apply_mask_path update path s =
     (if path = ''ack_deadline_seconds'' then s\<lparr>ack_deadline_seconds := ack_deadline_seconds update\<rparr>
      else if path = ''push_config'' then s\<lparr>push_config := push_config update\<rparr>
      else if path = ''retain_acked_messages'' then s\<lparr>retain_acked_messages := retain_acked_messages update\<rparr>
      else if path = ''message_retention_duration'' then s\<lparr>sub_retention := sub_retention update\<rparr>
      else if path = ''dead_letter_policy'' then s\<lparr>dead_letter_policy := dead_letter_policy update\<rparr>
      else if path = ''retry_policy'' then s\<lparr>retry_policy := retry_policy update\<rparr>
      else if path = ''enable_exactly_once_delivery''
      then s\<lparr>enable_exactly_once_delivery := enable_exactly_once_delivery update\<rparr>
      else s)"

definition switch_push :: "Instant \<Rightarrow> bool \<Rightarrow> SubscriptionEntry \<Rightarrow> SubscriptionEntry" where
  "switch_push now was_push e =
     (if is_push e \<and> \<not> was_push then start_pushing now e
      else if was_push \<and> \<not> is_push e then stop_pushing e
      else e)"

definition Subscription_default :: Subscription where
  "Subscription_default =
     \<lparr>sub_name = [], sub_topic = [], push_config = None, ack_deadline_seconds = 0, retain_acked_messages = False,
      sub_retention = None, enable_message_ordering = False, sub_filter = [], dead_letter_policy = None,
      retry_policy = None, detached = False, enable_exactly_once_delivery = False, export_configs = None,
      sub_labels = 0\<rparr>"

definition update_subscription :: "'avro Env \<Rightarrow> Clock \<Rightarrow> Subscription option \<Rightarrow> string list \<Rightarrow> 'avro BrokerState \<Rightarrow>
    PubsubError + 'avro BrokerState \<times> Subscription" where
  "update_subscription env clock s paths st =
     (if paths = [] then Inl (invalid_argument
        ''The update_mask in the UpdateSubscriptionRequest must be set, and must contain a non-empty paths list.'')
      else case List.map_filter mask_error paths of
        e # _ \<Rightarrow> Inl e
      | [] \<Rightarrow>
          (let update = (case s of Some s \<Rightarrow> s | None \<Rightarrow> Subscription_default) in
           result_bind (parse_name ''subscriptions'' (sub_name update)) (\<lambda>_.
             case map_of (subscriptions st) (sub_name update) of
               None \<Rightarrow> Inl (not_found ''Subscription not found.'')
             | Some entry \<Rightarrow>
                 result_bind (validated_subscription env st (fold (apply_mask_path update) paths (subscription entry)))
                   (\<lambda>validated.
                     case map_of (subscriptions st) (sub_name validated) of
                       None \<Rightarrow> Inl (not_found ''Subscription not found.'')
                     | Some entry \<Rightarrow>
                         Inr (st\<lparr>subscriptions := om_insert (sub_name validated)
                                (switch_push (now_instant clock) (is_push entry) (entry\<lparr>subscription := validated\<rparr>))
                                (subscriptions st)\<rparr>, validated)))))"

definition delete_subscription :: "string \<Rightarrow> 'avro BrokerState \<Rightarrow> PubsubError + 'avro BrokerState" where
  "delete_subscription name st =
     result_bind (parse_name ''subscriptions'' name) (\<lambda>_.
       if map_of (subscriptions st) name = None then Inl (not_found ''Subscription does not exist'')
       else Inr (st\<lparr>subscriptions := om_remove name (subscriptions st)\<rparr>))"

definition modify_push_config :: "'avro Env \<Rightarrow> Clock \<Rightarrow> string \<Rightarrow> PushConfig option \<Rightarrow> 'avro BrokerState \<Rightarrow>
    PubsubError + 'avro BrokerState" where
  "modify_push_config env clock name config st =
     result_bind (parse_name ''subscriptions'' name) (\<lambda>_.
       case map_of (subscriptions st) name of
         None \<Rightarrow> Inl (not_found ''Subscription does not exist'')
       | Some entry \<Rightarrow>
           (let config = (case config of None \<Rightarrow> PushConfig_default | Some c \<Rightarrow> c) in
            result_bind (validate_push_config env config) (\<lambda>_.
              Inr (st\<lparr>subscriptions := om_insert name
                     (switch_push (now_instant clock) (is_push entry)
                       (entry\<lparr>subscription := (subscription entry)\<lparr>push_config := Some config\<rparr>\<rparr>))
                     (subscriptions st)\<rparr>))))"

section \<open>Pulling and acknowledging\<close>

definition pull :: "Clock \<Rightarrow> string \<Rightarrow> int \<Rightarrow> 'avro BrokerState \<Rightarrow>
    PubsubError + 'avro BrokerState \<times> ReceivedMessage list" where
  "pull clock name max_messages st =
     result_bind (parse_name ''subscriptions'' name) (\<lambda>_.
       case map_of (subscriptions st) name of
         None \<Rightarrow> Inl (not_found ''Subscription does not exist'')
       | Some e \<Rightarrow>
           if detached (subscription e) then Inl (failed_precondition ''Subscription is detached.'')
           else (let (e, received, used) = take_messages e max_messages (next_ack st) (now_instant clock)
                 in Inr (st\<lparr>subscriptions := om_insert name e (subscriptions st), next_ack := next_ack st + used\<rparr>,
                         received)))"

definition subscription_check :: "string \<Rightarrow> 'avro BrokerState \<Rightarrow> PubsubError + unit" where
  "subscription_check name st =
     result_bind (parse_name ''subscriptions'' name) (\<lambda>_.
       case map_of (subscriptions st) name of
         None \<Rightarrow> Inl (not_found ''Subscription does not exist'')
       | Some e \<Rightarrow>
           if detached (subscription e) then Inl (failed_precondition ''Subscription is detached.'') else Inr ())"

definition parse_ack_id :: "string \<Rightarrow> string \<Rightarrow> PubsubError + nat" where
  "parse_ack_id name ack =
     (case rsplit_once (CHR '':'') ack of
        None \<Rightarrow> Inl (invalid_argument (''Invalid ack id (ack_id='' @ ack @ '')''))
      | Some (owner, number) \<Rightarrow>
          (case parse_u64 number of
             None \<Rightarrow> Inl (invalid_argument (''Invalid ack id (ack_id='' @ ack @ '')''))
           | Some n \<Rightarrow>
               if owner \<noteq> name then Inl (invalid_argument
                 (''Subscription '' @ name @ '' received an invalid ack ID '' @ ack
                  @ '', meant for subscription: '' @ owner))
               else Inr n))"

fun parse_ack_ids :: "string \<Rightarrow> string list \<Rightarrow> PubsubError + nat list" where
  "parse_ack_ids name [] = Inr []"
| "parse_ack_ids name (ack # acks) =
     result_bind (parse_ack_id name ack) (\<lambda>n. result_bind (parse_ack_ids name acks) (\<lambda>ns. Inr (n # ns)))"

text \<open>The loop of \<open>acknowledge\<close>: the entry and whether a lease was not found.\<close>

fun acknowledge_leases :: "nat list \<Rightarrow> SubscriptionEntry \<Rightarrow> bool \<Rightarrow> SubscriptionEntry \<times> bool" where
  "acknowledge_leases [] e stale = (e, stale)"
| "acknowledge_leases (ack # acks) e stale =
     (case find_lease e ack of
        Some k \<Rightarrow> acknowledge_leases acks (acknowledge_message k e) stale
      | None \<Rightarrow> acknowledge_leases acks e True)"

text \<open>With exactly-once delivery an error may leave some of the leases acknowledged.\<close>

definition acknowledge :: "string \<Rightarrow> string list \<Rightarrow> 'avro BrokerState \<Rightarrow> PubsubError option \<times> 'avro BrokerState" where
  "acknowledge name ack_ids st =
     (case parse_name ''subscriptions'' name of
        Inl e \<Rightarrow> (Some e, st)
      | Inr _ \<Rightarrow>
          (case map_of (subscriptions st) name of
             None \<Rightarrow> (Some (not_found ''Subscription does not exist''), st)
           | Some entry \<Rightarrow>
               if ack_ids = [] then (Some (invalid_argument ''No ack ids specified.''), st)
               else (case parse_ack_ids name ack_ids of
                       Inl e \<Rightarrow> (Some e, st)
                     | Inr parsed \<Rightarrow>
                         (let (entry, stale) = acknowledge_leases parsed entry False;
                              st = st\<lparr>subscriptions := om_insert name entry (subscriptions st)\<rparr>
                          in (if enable_exactly_once_delivery (subscription entry) \<and> stale
                              then Some (invalid_argument []) else None, st)))))"

definition modify_leases :: "int \<Rightarrow> Instant \<Rightarrow> nat list \<Rightarrow> SubscriptionEntry \<times> Forwarded \<times> nat \<Rightarrow>
    SubscriptionEntry \<times> Forwarded \<times> nat" where
  "modify_leases secs now acks s =
     fold (\<lambda>ack s. case find_lease (fst s) ack of None \<Rightarrow> s | Some k \<Rightarrow> modify_deadline k secs now s) acks s"

definition modify_ack_deadline :: "'avro Env \<Rightarrow> Clock \<Rightarrow> string \<Rightarrow> string list \<Rightarrow> int \<Rightarrow> 'avro BrokerState \<Rightarrow>
    PubsubError + 'avro BrokerState" where
  "modify_ack_deadline env clock name ack_ids secs st =
     result_bind (parse_name ''subscriptions'' name) (\<lambda>_.
       case map_of (subscriptions st) name of
         None \<Rightarrow> Inl (not_found ''Subscription does not exist'')
       | Some entry \<Rightarrow>
           if ack_ids = [] then Inl (invalid_argument ''No ack ids specified'')
           else if secs < 0 then Inl (invalid_argument ''Ack deadline cannot be negative'')
           else result_bind (parse_ack_ids name ack_ids) (\<lambda>parsed.
             let (entry, forwarded, seq) = modify_leases secs (now_instant clock) parsed (entry, [], next_seq st)
             in Inr (forward_dead_letters env clock forwarded
                  (st\<lparr>subscriptions := om_insert name entry (subscriptions st), next_seq := seq\<rparr>))))"

section \<open>The timer and push delivery\<close>

definition push_jobs :: "'avro Env \<Rightarrow> Instant \<Rightarrow> (string \<times> nat) ord_set \<Rightarrow> string \<Rightarrow> SubscriptionEntry \<Rightarrow> PushJob list" where
  "push_jobs env now flights name e =
     (if is_push e
      then (let endpoint = (case push_config (subscription e) of None \<Rightarrow> [] | Some c \<Rightarrow> push_endpoint c) in
        List.map_filter (\<lambda>(_, t).
          case tracked_state t of
            Pushing next_attempt \<Rightarrow>
              if next_attempt \<le> now \<and> (name, stored_id (tracked_message t)) \<notin> set flights
              then Some \<lparr>job_subscription = name, job_message_id = stored_id (tracked_message t),
                         job_endpoint = endpoint, job_body = push_envelope env name (tracked_message t)\<rparr>
              else None
          | _ \<Rightarrow> None) (messages e))
      else [])"

fun tick_subscriptions :: "'avro Env \<Rightarrow> Instant \<Rightarrow> (string \<times> nat) ord_set \<Rightarrow> (string, SubscriptionEntry) ord_map \<Rightarrow>
    Forwarded \<Rightarrow> nat \<Rightarrow> PushJob list \<Rightarrow> (string, SubscriptionEntry) ord_map \<times> Forwarded \<times> nat \<times> PushJob list" where
  "tick_subscriptions env now flights [] forwarded seq jobs = ([], forwarded, seq, jobs)"
| "tick_subscriptions env now flights ((name, e) # rest) forwarded seq jobs =
     (let (e, forwarded, seq) = expire now (e, forwarded, seq);
          (rest, forwarded, seq, jobs) =
            tick_subscriptions env now flights rest forwarded seq (jobs @ push_jobs env now flights name e)
      in ((name, e) # rest, forwarded, seq, jobs))"

definition broker_tick :: "'avro Env \<Rightarrow> Clock \<Rightarrow> 'avro BrokerState \<Rightarrow> 'avro BrokerState \<times> PushJob list" where
  "broker_tick env clock st =
     (let (subs, forwarded, seq, jobs) =
            tick_subscriptions env (now_instant clock) (in_flight st) (subscriptions st) [] (next_seq st) [];
          st = forward_dead_letters env clock forwarded (st\<lparr>subscriptions := subs, next_seq := seq\<rparr>)
      in (st\<lparr>in_flight := fold (\<lambda>job. os_insert (job_subscription job, job_message_id job)) jobs (in_flight st)\<rparr>, jobs))"

text \<open>
  \<open>push_finished\<close> takes two locks one after the other; other operations may run in between, so
  it is two steps.
\<close>

definition push_landed :: "PushJob \<Rightarrow> 'avro BrokerState \<Rightarrow> 'avro BrokerState" where
  "push_landed job st = st\<lparr>in_flight := os_remove (job_subscription job, job_message_id job) (in_flight st)\<rparr>"

definition push_recorded :: "Clock \<Rightarrow> PushJob \<Rightarrow> bool \<Rightarrow> 'avro BrokerState \<Rightarrow> 'avro BrokerState" where
  "push_recorded clock job delivered st =
     (case map_of (subscriptions st) (job_subscription job) of
        None \<Rightarrow> st
      | Some e \<Rightarrow>
          (case map_of (messages e) (job_message_id job) of
             None \<Rightarrow> st
           | Some t \<Rightarrow>
               if is_pushing (tracked_state t)
               then st\<lparr>subscriptions := om_insert (job_subscription job)
                      (if delivered then acknowledge_message (job_message_id job) e
                       else e\<lparr>messages := om_insert (job_message_id job)
                              (t\<lparr>tracked_state := Pushing (now_instant clock + PUSH_RETRY)\<rparr>) (messages e)\<rparr>)
                      (subscriptions st)\<rparr>
               else st))"

section \<open>Seeking and snapshots\<close>

definition seek_state :: "SystemTime \<Rightarrow> bool \<Rightarrow> Tracked \<Rightarrow> Tracked" where
  "seek_state target retain t =
     (if target \<le> published_at (tracked_message t)
      then (if tracked_state t = Acked \<and> \<not> retain then t else t\<lparr>tracked_state := Available, attempts := 0\<rparr>)
      else t\<lparr>tracked_state := Acked\<rparr>)"

definition seek_to_time :: "Clock \<Rightarrow> string \<Rightarrow> ProtoTimestamp \<Rightarrow> 'avro BrokerState \<Rightarrow> PubsubError + 'avro BrokerState" where
  "seek_to_time clock name time st =
     result_bind (parse_name ''subscriptions'' name) (\<lambda>_.
       case map_of (subscriptions st) name of
         None \<Rightarrow> Inl (not_found ''Subscription does not exist'')
       | Some e \<Rightarrow>
           (let target = seconds (nat (stamp_seconds time)) + nat (stamp_nanos time);
                e = map_tracked (seek_state target (retain_acked_messages (subscription e))) e;
                e = (if is_push e then start_pushing (now_instant clock) e else e)
            in Inr (st\<lparr>subscriptions := om_insert name e (subscriptions st)\<rparr>)))"

definition seek_snapshot_state :: "nat ord_set \<Rightarrow> Instant \<Rightarrow> Tracked \<Rightarrow> Tracked" where
  "seek_snapshot_state wanted at t =
     (if stored_id (tracked_message t) \<in> set wanted \<or> at < published (tracked_message t)
      then t\<lparr>tracked_state := Available, attempts := 0\<rparr>
      else t\<lparr>tracked_state := Acked\<rparr>)"

definition seek_to_snapshot :: "Clock \<Rightarrow> string \<Rightarrow> string \<Rightarrow> 'avro BrokerState \<Rightarrow> PubsubError + 'avro BrokerState" where
  "seek_to_snapshot clock name snapshot st =
     result_bind (parse_name ''subscriptions'' name) (\<lambda>_.
       case map_of (subscriptions st) name of
         None \<Rightarrow> Inl (not_found ''Subscription does not exist'')
       | Some e \<Rightarrow>
           result_bind (parse_name ''snapshots'' snapshot) (\<lambda>_.
             case map_of (snapshots st) snapshot of
               None \<Rightarrow> Inl (not_found ''Snapshot does not exist'')
             | Some snap \<Rightarrow>
                 if topic_deleted e \<or> topic_generation e \<noteq> snapshot_generation snap
                 then Inl (failed_precondition (''The subscription's topic '' @ sub_topic (subscription e)
                   @ '' is different from that of the snapshot '' @ snap_topic (entry_snapshot snap)
                   @ ''; they must match in order for Seek work. Note that if a topic is deleted and then re-created with the same name, it is considered a distinct topic for these purposes.''))
                 else (let e = map_tracked (seek_snapshot_state (unacked snap) (created snap)) e;
                           e = (if is_push e then start_pushing (now_instant clock) e else e)
                       in Inr (st\<lparr>subscriptions := om_insert name e (subscriptions st)\<rparr>))))"

definition create_snapshot :: "Clock \<Rightarrow> string \<Rightarrow> string \<Rightarrow> 'avro BrokerState \<Rightarrow>
    PubsubError + 'avro BrokerState \<times> PubsubSnapshot" where
  "create_snapshot clock name sub st =
     result_bind (parse_name ''snapshots'' name) (\<lambda>_.
       case map_of (subscriptions st) sub of
         None \<Rightarrow> Inl (not_found ''Subscription does not exist'')
       | Some e \<Rightarrow>
           if map_of (snapshots st) name \<noteq> None then Inl (already_exists ''Snapshot already exists'')
           else (let snapshot = \<lparr>snap_name = name, snap_topic = original_topic e,
                                 snap_expire = Some (timestamp (now_system clock + SNAPSHOT_TTL))\<rparr>
                 in Inr (st\<lparr>snapshots := om_insert name
                        \<lparr>entry_snapshot = snapshot, snapshot_generation = topic_generation e,
                         unacked = map fst (filter (\<lambda>(_, t). tracked_state t \<noteq> Acked) (messages e)),
                         created = now_instant clock\<rparr> (snapshots st)\<rparr>, snapshot)))"

definition get_snapshot :: "string \<Rightarrow> 'avro BrokerState \<Rightarrow> PubsubError + PubsubSnapshot" where
  "get_snapshot name st =
     result_bind (parse_name ''snapshots'' name) (\<lambda>_.
       case map_of (snapshots st) name of
         None \<Rightarrow> Inl (not_found ''Snapshot does not exist'')
       | Some e \<Rightarrow> Inr (entry_snapshot e))"

definition list_snapshots :: "string \<Rightarrow> int \<Rightarrow> string \<Rightarrow> 'avro BrokerState \<Rightarrow> PubsubError + PubsubSnapshot list \<times> string" where
  "list_snapshots project page_size page_token st =
     (case parse_project ''snapshots'' project of
        Inl _ \<Rightarrow> Inl application_error
      | Inr project \<Rightarrow>
          (let names = filter (\<lambda>name. strip_prefix (''projects/'' @ project @ ''/snapshots/'') name \<noteq> None)
                         (map fst (snapshots st));
               (page, next_token) = paginate names page_size page_token
           in Inr (List.map_filter (\<lambda>name. map_option entry_snapshot (map_of (snapshots st) name)) page, next_token)))"

definition delete_snapshot :: "string \<Rightarrow> 'avro BrokerState \<Rightarrow> PubsubError + 'avro BrokerState" where
  "delete_snapshot name st =
     result_bind (parse_name ''snapshots'' name) (\<lambda>_.
       if map_of (snapshots st) name = None then Inl (not_found ''Snapshot does not exist'')
       else Inr (st\<lparr>snapshots := om_remove name (snapshots st)\<rparr>))"

section \<open>Schemas\<close>

definition schema_type_of :: "int \<Rightarrow> SchemaType option" where
  "schema_type_of n =
     (if n = 0 then Some TypeUnspecified else if n = 1 then Some ProtocolBuffer
      else if n = 2 then Some Avro else None)"

definition PubsubSchema_default :: PubsubSchema where
  "PubsubSchema_default =
     \<lparr>schema_name = [], schema_type = 0, schema_definition = [], schema_revision_id = [], schema_revision_time = None\<rparr>"

definition parse_schema :: "'avro Env \<Rightarrow> PubsubSchema \<Rightarrow> PubsubError + 'avro" where
  "parse_schema env schema =
     (case schema_type_of (schema_type schema) of
        Some Avro \<Rightarrow> parse_definition env (schema_definition schema)
      | Some ProtocolBuffer \<Rightarrow> Inl (unimplemented ''Protocol buffer support not implemented in emulator'')
      | _ \<Rightarrow> Inl (invalid_argument ''Invalid schema type''))"

fun le_chars :: "nat \<Rightarrow> nat \<Rightarrow> string" where
  "le_chars 0 n = []"
| "le_chars (Suc k) n = char_of (n mod 256) # le_chars k (n div 256)"

definition hex_digit :: "nat \<Rightarrow> char" where
  "hex_digit n = ''0123456789abcdef'' ! n"

text \<open>The first four bytes of the digest in hexadecimal.\<close>

definition revision_digest :: "'avro Env \<Rightarrow> string \<Rightarrow> nat \<Rightarrow> SystemTime \<Rightarrow> string" where
  "revision_digest env text_of counter time =
     concat (map (\<lambda>b. [hex_digit (b div 16 mod 16), hex_digit (b mod 16)])
       (take 4 (sha256 env (text_of @ le_chars 8 counter @ le_chars 16 time))))"

definition new_revision :: "'avro Env \<Rightarrow> Clock \<Rightarrow> string \<Rightarrow> 'avro \<Rightarrow> 'avro BrokerState \<Rightarrow>
    'avro BrokerState \<times> 'avro SchemaRevision" where
  "new_revision env clock text_of parsed st =
     (let counter = revision_counter st + 1
      in (st\<lparr>revision_counter := counter\<rparr>,
          \<lparr>revision_id = revision_digest env text_of counter (now_system clock), definition_text = text_of,
           created_at = now_system clock, revision_parsed = parsed\<rparr>))"

definition revision_view :: "string \<Rightarrow> 'avro SchemaRevision \<Rightarrow> SchemaView \<Rightarrow> PubsubSchema" where
  "revision_view name r view =
     \<lparr>schema_name = name, schema_type = 2,
      schema_definition = (if view = ViewBasic then [] else definition_text r),
      schema_revision_id = revision_id r, schema_revision_time = Some (timestamp (created_at r))\<rparr>"

definition create_schema :: "'avro Env \<Rightarrow> Clock \<Rightarrow> string \<Rightarrow> string \<Rightarrow> PubsubSchema option \<Rightarrow> 'avro BrokerState \<Rightarrow>
    PubsubError + 'avro BrokerState \<times> PubsubSchema" where
  "create_schema env clock parent schema_id schema st =
     (let name = parent @ ''/schemas/'' @ schema_id;
          schema = (case schema of None \<Rightarrow> PubsubSchema_default | Some s \<Rightarrow> s)
      in result_bind (parse_name ''schemas'' name) (\<lambda>_.
         result_bind (parse_schema env schema) (\<lambda>parsed.
           if map_of (schemas st) name \<noteq> None then Inl (already_exists ''Schema already exists'')
           else (let (st, r) = new_revision env clock (schema_definition schema) parsed st
                 in Inr (st\<lparr>schemas := om_insert name \<lparr>entry_name = name, revisions = [r]\<rparr> (schemas st)\<rparr>,
                         revision_view name r ViewFull)))))"

definition lookup_revision :: "'avro SchemaEntry \<Rightarrow> string option \<Rightarrow> PubsubError + 'avro SchemaRevision" where
  "lookup_revision entry wanted =
     (case wanted of
        Some r \<Rightarrow> (case find_revision r (revisions entry) of
                     None \<Rightarrow> Inl (not_found ''Schema revision not found'') | Some r \<Rightarrow> Inr r)
      | None \<Rightarrow> (case revisions entry of [] \<Rightarrow> Inl (not_found ''Schema not found'') | rs \<Rightarrow> Inr (last rs)))"

definition get_schema :: "string \<Rightarrow> SchemaView \<Rightarrow> 'avro BrokerState \<Rightarrow> PubsubError + PubsubSchema" where
  "get_schema name view st =
     (let (base, wanted) = split_revision name in
      result_bind (parse_name ''schemas'' base) (\<lambda>_.
        case map_of (schemas st) base of
          None \<Rightarrow> Inl (not_found ''Schema not found'')
        | Some entry \<Rightarrow> result_bind (lookup_revision entry wanted) (\<lambda>r. Inr (revision_view (entry_name entry) r view))))"

definition list_schemas :: "string \<Rightarrow> SchemaView \<Rightarrow> int \<Rightarrow> string \<Rightarrow> 'avro BrokerState \<Rightarrow>
    PubsubError + PubsubSchema list \<times> string" where
  "list_schemas parent view page_size page_token st =
     (case parse_project ''schemas'' parent of
        Inl _ \<Rightarrow> Inl application_error
      | Inr project \<Rightarrow>
          (let names = filter (\<lambda>name. strip_prefix (''projects/'' @ project @ ''/schemas/'') name \<noteq> None)
                         (map fst (schemas st));
               (page, next_token) = paginate names page_size page_token
           in Inr (List.map_filter (\<lambda>name. case map_of (schemas st) name of
                     None \<Rightarrow> None
                   | Some entry \<Rightarrow> (case revisions entry of [] \<Rightarrow> None
                       | rs \<Rightarrow> Some (revision_view (entry_name entry) (last rs) view))) page, next_token)))"

definition list_schema_revisions :: "'avro Env \<Rightarrow> string \<Rightarrow> SchemaView \<Rightarrow> int \<Rightarrow> string \<Rightarrow> 'avro BrokerState \<Rightarrow>
    PubsubError + PubsubSchema list \<times> string" where
  "list_schema_revisions env name view page_size page_token st =
     (let (base, _) = split_revision name in
      result_bind (parse_name ''schemas'' base) (\<lambda>_.
        case map_of (schemas st) base of
          None \<Rightarrow> Inl (not_found ''Schema not found'')
        | Some entry \<Rightarrow>
            (let all = revisions entry;
                 start = (if page_token = [] then 0
                          else (case position_of page_token (map (\<lambda>r. rfc3339_nanos env (created_at r)) all) of
                                  None \<Rightarrow> 0 | Some i \<Rightarrow> i));
                 stop = (if 0 < page_size then min (start + nat page_size) (length all) else length all)
             in Inr (map (\<lambda>r. revision_view (entry_name entry) r view) (take (stop - start) (drop start all)),
                     if stop < length all then rfc3339_nanos env (created_at (all ! stop)) else []))))"

definition commit_schema :: "'avro Env \<Rightarrow> Clock \<Rightarrow> string \<Rightarrow> PubsubSchema option \<Rightarrow> 'avro BrokerState \<Rightarrow>
    PubsubError + 'avro BrokerState \<times> PubsubSchema" where
  "commit_schema env clock name schema st =
     (let (base, _) = split_revision name;
          schema = (case schema of None \<Rightarrow> PubsubSchema_default | Some s \<Rightarrow> s)
      in result_bind (parse_name ''schemas'' base) (\<lambda>_.
         result_bind (parse_schema env schema) (\<lambda>parsed.
           case map_of (schemas st) base of
             None \<Rightarrow> Inl (not_found ''Schema not found'')
           | Some entry \<Rightarrow>
               (let (st, r) = new_revision env clock (schema_definition schema) parsed st
                in Inr (st\<lparr>schemas := om_insert base (entry\<lparr>revisions := revisions entry @ [r]\<rparr>) (schemas st)\<rparr>,
                        revision_view (entry_name entry) r ViewFull)))))"

definition rollback_schema :: "'avro Env \<Rightarrow> Clock \<Rightarrow> string \<Rightarrow> string \<Rightarrow> 'avro BrokerState \<Rightarrow>
    PubsubError + 'avro BrokerState \<times> PubsubSchema" where
  "rollback_schema env clock name wanted st =
     (let (base, _) = split_revision name in
      result_bind (parse_name ''schemas'' base) (\<lambda>_.
        case map_of (schemas st) base of
          None \<Rightarrow> Inl (not_found ''Schema not found'')
        | Some entry \<Rightarrow>
            (case find_revision wanted (revisions entry) of
               None \<Rightarrow> Inl (not_found ''Revision not found'')
             | Some source \<Rightarrow>
                 (let (st, r) = new_revision env clock (definition_text source) (revision_parsed source) st
                  in Inr (st\<lparr>schemas := om_insert base (entry\<lparr>revisions := revisions entry @ [r]\<rparr>) (schemas st)\<rparr>,
                          revision_view (entry_name entry) r ViewFull)))))"

definition delete_schema_revision :: "string \<Rightarrow> 'avro BrokerState \<Rightarrow> PubsubError + 'avro BrokerState \<times> PubsubSchema" where
  "delete_schema_revision name st =
     (let (base, wanted) = split_revision name in
      result_bind (parse_name ''schemas'' base) (\<lambda>_.
        case map_of (schemas st) base of
          None \<Rightarrow> Inl (not_found ''Schema not found'')
        | Some entry \<Rightarrow>
            (case Option.bind wanted (\<lambda>r. position_of r (map revision_id (revisions entry))) of
               None \<Rightarrow> Inl (not_found ''Schema revision not found'')
             | Some i \<Rightarrow>
                 if length (revisions entry) = 1
                 then Inl (invalid_argument ''Cannot delete last revision. Please use DeleteSchema.'')
                 else Inr (st\<lparr>schemas := om_insert base
                             (entry\<lparr>revisions := take i (revisions entry) @ drop (i + 1) (revisions entry)\<rparr>) (schemas st)\<rparr>,
                           revision_view (entry_name entry) (revisions entry ! i) ViewFull))))"

definition forget_schema :: "string \<Rightarrow> 'avro TopicEntry \<Rightarrow> 'avro TopicEntry" where
  "forget_schema base t =
     (case schema_settings (entry_topic t) of
        None \<Rightarrow> t
      | Some settings \<Rightarrow>
          if settings_schema settings = base
          then t\<lparr>entry_topic := (entry_topic t)\<lparr>schema_settings := Some (settings\<lparr>settings_schema := DELETED_SCHEMA\<rparr>)\<rparr>,
                 entry_schema := map_option (\<lambda>b. b\<lparr>bound_deleted := True\<rparr>) (entry_schema t)\<rparr>
          else t)"

definition delete_schema :: "string \<Rightarrow> 'avro BrokerState \<Rightarrow> PubsubError + 'avro BrokerState" where
  "delete_schema name st =
     (let (base, _) = split_revision name in
      result_bind (parse_name ''schemas'' base) (\<lambda>_.
        if map_of (schemas st) base = None then Inl (not_found ''Schema not found'')
        else Inr (st\<lparr>schemas := om_remove base (schemas st),
                     topics := map (\<lambda>(n, t). (n, forget_schema base t)) (topics st)\<rparr>)))"

definition validate_schema :: "'avro Env \<Rightarrow> PubsubSchema option \<Rightarrow> PubsubError + unit" where
  "validate_schema env schema =
     result_bind (parse_schema env (case schema of None \<Rightarrow> PubsubSchema_default | Some s \<Rightarrow> s)) (\<lambda>_. Inr ())"

definition validate_message :: "'avro Env \<Rightarrow> string option \<Rightarrow> PubsubSchema option \<Rightarrow> string \<Rightarrow> Encoding \<Rightarrow>
    'avro BrokerState \<Rightarrow> PubsubError + unit" where
  "validate_message env name schema message encoding st =
     result_bind
       (if name \<noteq> None \<and> name \<noteq> Some []
        then (let (base, wanted) = split_revision (the name) in
              result_bind (parse_name ''schemas'' base) (\<lambda>_.
                case map_of (schemas st) base of
                  None \<Rightarrow> Inl (not_found ''Schema not found'')
                | Some entry \<Rightarrow> result_bind (lookup_revision entry wanted) (\<lambda>r. Inr (revision_parsed r))))
        else parse_schema env (case schema of None \<Rightarrow> PubsubSchema_default | Some s \<Rightarrow> s))
       (\<lambda>parsed. case encoding of
           EncodingJson \<Rightarrow> validate_json env parsed message
         | EncodingBinary \<Rightarrow> validate_binary env parsed message
         | EncodingUnspecified \<Rightarrow> Inl (invalid_argument ''No encoding provided.''))"

text \<open>The functions consumer empties its subscription and creates its topic.\<close>

definition drain :: "string \<Rightarrow> 'avro BrokerState \<Rightarrow> 'avro BrokerState" where
  "drain name st =
     (case map_of (subscriptions st) name of
        None \<Rightarrow> st
      | Some e \<Rightarrow> st\<lparr>subscriptions := om_insert name (e\<lparr>messages := []\<rparr>) (subscriptions st)\<rparr>)"

definition ensure_topic :: "string \<Rightarrow> 'avro BrokerState \<Rightarrow> 'avro BrokerState" where
  "ensure_topic name st =
     (case create_topic (Topic_default\<lparr>topic_name := name\<rparr>) st of Inl _ \<Rightarrow> st | Inr (st, _) \<Rightarrow> st)"

end
