(* ===== verification/Pubsub_Run.thy ===== *)
theory Pubsub_Run
  imports Pubsub_Broker
begin

text \<open>
  Runs of the Pub/Sub broker. Every call that changes the broker is one \<open>Op\<close>; \<open>apply_op\<close> is the
  state after it, the unchanged state where the call fails before changing anything. The reachable
  states are those of every interleaving of calls, whatever their arguments and clocks; a push
  outcome is two calls, one per lock. Every reachable state satisfies \<open>broker_ok\<close>.
\<close>

section \<open>Operations\<close>

datatype Op =
    CreateTopic Topic
  | UpdateTopic "Topic option" "string list"
  | DeleteTopic string
  | Publish string "PubsubMessage list"
  | CreateSubscription Subscription
  | UpdateSubscription "Subscription option" "string list"
  | DeleteSubscription string
  | ModifyPushConfig string "PushConfig option"
  | Pull string int
  | Acknowledge string "string list"
  | ModifyAckDeadline string "string list" int
  | Tick
  | PushLanded PushJob
  | PushRecorded PushJob bool
  | SeekToTime string ProtoTimestamp
  | SeekToSnapshot string string
  | CreateSnapshot string string
  | DeleteSnapshot string
  | CreateSchema string string "PubsubSchema option"
  | CommitSchema string "PubsubSchema option"
  | RollbackSchema string string
  | DeleteSchemaRevision string
  | DeleteSchema string
  | Drain string
  | EnsureTopic string

definition state_after :: "'s \<Rightarrow> 'e + 's \<Rightarrow> 's" where
  "state_after st r = (case r of Inl _ \<Rightarrow> st | Inr st' \<Rightarrow> st')"

definition first_after :: "'s \<Rightarrow> 'e + 's \<times> 'r \<Rightarrow> 's" where
  "first_after st r = (case r of Inl _ \<Rightarrow> st | Inr (st', _) \<Rightarrow> st')"

fun apply_op :: "'avro Env \<Rightarrow> Clock \<Rightarrow> Op \<Rightarrow> 'avro BrokerState \<Rightarrow> 'avro BrokerState" where
  "apply_op env clock (CreateTopic t) st = first_after st (create_topic t st)"
| "apply_op env clock (UpdateTopic t paths) st = first_after st (update_topic t paths st)"
| "apply_op env clock (DeleteTopic n) st = state_after st (delete_topic n st)"
| "apply_op env clock (Publish n ms) st = first_after st (publish env clock n ms st)"
| "apply_op env clock (CreateSubscription s) st = first_after st (create_subscription env clock s st)"
| "apply_op env clock (UpdateSubscription s paths) st = first_after st (update_subscription env clock s paths st)"
| "apply_op env clock (DeleteSubscription n) st = state_after st (delete_subscription n st)"
| "apply_op env clock (ModifyPushConfig n c) st = state_after st (modify_push_config env clock n c st)"
| "apply_op env clock (Pull n limit) st = first_after st (pull clock n limit st)"
| "apply_op env clock (Acknowledge n acks) st = snd (acknowledge n acks st)"
| "apply_op env clock (ModifyAckDeadline n acks secs) st =
     state_after st (modify_ack_deadline env clock n acks secs st)"
| "apply_op env clock Tick st = fst (broker_tick env clock st)"
| "apply_op env clock (PushLanded job) st = push_landed job st"
| "apply_op env clock (PushRecorded job delivered) st = push_recorded clock job delivered st"
| "apply_op env clock (SeekToTime n time) st = state_after st (seek_to_time clock n time st)"
| "apply_op env clock (SeekToSnapshot n snap) st = state_after st (seek_to_snapshot clock n snap st)"
| "apply_op env clock (CreateSnapshot n sub) st = first_after st (create_snapshot clock n sub st)"
| "apply_op env clock (DeleteSnapshot n) st = state_after st (delete_snapshot n st)"
| "apply_op env clock (CreateSchema p n s) st = first_after st (create_schema env clock p n s st)"
| "apply_op env clock (CommitSchema n s) st = first_after st (commit_schema env clock n s st)"
| "apply_op env clock (RollbackSchema n r) st = first_after st (rollback_schema env clock n r st)"
| "apply_op env clock (DeleteSchemaRevision n) st = first_after st (delete_schema_revision n st)"
| "apply_op env clock (DeleteSchema n) st = state_after st (delete_schema n st)"
| "apply_op env clock (Drain n) st = drain n st"
| "apply_op env clock (EnsureTopic n) st = ensure_topic n st"

definition run_ops :: "'avro Env \<Rightarrow> (Clock \<times> Op) list \<Rightarrow> 'avro BrokerState \<Rightarrow> 'avro BrokerState" where
  "run_ops env = fold (\<lambda>(clock, op). apply_op env clock op)"

inductive broker_reachable :: "'avro Env \<Rightarrow> 'avro BrokerState \<Rightarrow> bool" for env where
  start: "broker_reachable env (Broker_new sequence)"
| step: "broker_reachable env st \<Longrightarrow> broker_reachable env (apply_op env clock op st)"

lemma reachable_run: "broker_reachable env st \<Longrightarrow> broker_reachable env (run_ops env ops st)"
  by (induction ops arbitrary: st) (auto simp: run_ops_def intro: broker_reachable.step)

section \<open>The invariant\<close>

fun lease_of :: "MessageState \<Rightarrow> nat option" where
  "lease_of (Leased ack _) = Some ack"
| "lease_of _ = None"

text \<open>
  A tracked message stands under its id, which has been given out, as has the number of its lease;
  the two flags say whether it may be available and whether it may be waiting to be pushed.
\<close>

definition tracked_ok :: "nat \<Rightarrow> nat \<Rightarrow> bool \<Rightarrow> bool \<Rightarrow> nat \<Rightarrow> Tracked \<Rightarrow> bool" where
  "tracked_ok ids acks available pushing k t =
     (stored_id (tracked_message t) = k \<and> k < ids
      \<and> (case tracked_state t of
           Available \<Rightarrow> available | Pushing _ \<Rightarrow> pushing | Leased ack _ \<Rightarrow> ack < acks | Acked \<Rightarrow> True))"

definition leases_differ :: "(nat, Tracked) ord_map \<Rightarrow> bool" where
  "leases_differ ms =
     (\<forall>k t k' t'. map_of ms k = Some t \<longrightarrow> map_of ms k' = Some t' \<longrightarrow> lease_of (tracked_state t) \<noteq> None \<longrightarrow>
        lease_of (tracked_state t) = lease_of (tracked_state t') \<longrightarrow> k = k')"

definition messages_ok :: "nat \<Rightarrow> nat \<Rightarrow> bool \<Rightarrow> bool \<Rightarrow> (nat, Tracked) ord_map \<Rightarrow> bool" where
  "messages_ok ids acks available pushing ms =
     (om_ok ms \<and> (\<forall>k t. map_of ms k = Some t \<longrightarrow> tracked_ok ids acks available pushing k t) \<and> leases_differ ms)"

abbreviation entry_ok :: "nat \<Rightarrow> nat \<Rightarrow> SubscriptionEntry \<Rightarrow> bool" where
  "entry_ok ids acks e \<equiv> messages_ok ids acks (\<not> is_push e) (is_push e) (messages e)"

definition subscriptions_ok :: "nat \<Rightarrow> nat \<Rightarrow> (string, SubscriptionEntry) ord_map \<Rightarrow> bool" where
  "subscriptions_ok ids acks subs =
     (om_ok subs \<and> (\<forall>name e. map_of subs name = Some e \<longrightarrow> sub_name (subscription e) = name \<and> entry_ok ids acks e))"

definition topics_ok :: "nat \<Rightarrow> (string, 'avro TopicEntry) ord_map \<Rightarrow> bool" where
  "topics_ok ids ts =
     (\<forall>name entry. map_of ts name = Some entry \<longrightarrow> (\<forall>m\<in>set (topic_messages entry). stored_id m < ids))"

definition broker_ok :: "'avro BrokerState \<Rightarrow> bool" where
  "broker_ok st =
     (subscriptions_ok (next_message_id st) (next_ack st) (subscriptions st)
      \<and> topics_ok (next_message_id st) (topics st))"

section \<open>One subscription\<close>

lemma tracked_ok_mono:
  "tracked_ok ids acks a p k t \<Longrightarrow> ids \<le> ids' \<Longrightarrow> acks \<le> acks' \<Longrightarrow> (a \<longrightarrow> a') \<Longrightarrow> (p \<longrightarrow> p') \<Longrightarrow>
    tracked_ok ids' acks' a' p' k t"
  unfolding tracked_ok_def by (cases "tracked_state t") auto

lemma messages_ok_mono:
  "messages_ok ids acks a p ms \<Longrightarrow> ids \<le> ids' \<Longrightarrow> acks \<le> acks' \<Longrightarrow> (a \<longrightarrow> a') \<Longrightarrow> (p \<longrightarrow> p') \<Longrightarrow>
    messages_ok ids' acks' a' p' ms"
  unfolding messages_ok_def by (auto intro: tracked_ok_mono)

lemma messages_ok_empty [simp]: "messages_ok ids acks a p []"
  by (simp add: messages_ok_def leases_differ_def)

lemma messages_ok_insert:
  assumes "messages_ok ids acks a p ms" "tracked_ok ids acks a p k t"
    "\<And>k' t'. map_of ms k' = Some t' \<Longrightarrow> lease_of (tracked_state t) \<noteq> None \<Longrightarrow>
      lease_of (tracked_state t') = lease_of (tracked_state t) \<Longrightarrow> k' = k"
  shows "messages_ok ids acks a p (om_insert k t ms)"
  unfolding messages_ok_def
proof (intro conjI)
  show "om_ok (om_insert k t ms)" using assms(1) by (simp add: messages_ok_def)
  show "\<forall>k' t'. map_of (om_insert k t ms) k' = Some t' \<longrightarrow> tracked_ok ids acks a p k' t'"
    using assms(1,2) by (auto simp: messages_ok_def om_simps)
  have "leases_differ ms" using assms(1) by (simp add: messages_ok_def)
  then show "leases_differ (om_insert k t ms)"
    unfolding leases_differ_def om_simps using assms(3) by (auto split: if_splits)
qed

lemma messages_ok_remove: "messages_ok ids acks a p ms \<Longrightarrow> messages_ok ids acks a p (om_remove k ms)"
  unfolding messages_ok_def leases_differ_def by (auto simp: om_simps split: if_splits)

lemma messages_ok_get:
  "messages_ok ids acks a p ms \<Longrightarrow> map_of ms k = Some t \<Longrightarrow> tracked_ok ids acks a p k t"
  by (simp add: messages_ok_def)

lemma get_map_tracked: "map_of (messages (map_tracked f e)) k = map_option f (map_of (messages e) k)"
  by (simp add: map_tracked_def map_of_map)

lemma messages_ok_map:
  assumes "messages_ok ids acks a p (messages e)"
    "\<And>k t. tracked_ok ids acks a p k t \<Longrightarrow> tracked_ok ids acks a' p' k (f t)"
    "\<And>t. lease_of (tracked_state (f t)) \<noteq> None \<Longrightarrow> lease_of (tracked_state (f t)) = lease_of (tracked_state t)"
  shows "messages_ok ids acks a' p' (messages (map_tracked f e))"
  unfolding messages_ok_def
proof (intro conjI)
  have "map fst (messages (map_tracked f e)) = map fst (messages e)" by (auto simp: map_tracked_def)
  then show "om_ok (messages (map_tracked f e))" using assms(1) by (simp add: messages_ok_def om_ok_def)
  show "\<forall>k t. map_of (messages (map_tracked f e)) k = Some t \<longrightarrow> tracked_ok ids acks a' p' k t"
    using assms(1,2) by (auto simp: messages_ok_def get_map_tracked)
  have "leases_differ (messages e)" using assms(1) by (simp add: messages_ok_def)
  then show "leases_differ (messages (map_tracked f e))"
    unfolding leases_differ_def get_map_tracked map_option_eq_Some using assms(3) by metis
qed

lemma is_push_subscription [simp]:
  "is_push (e\<lparr>messages := ms\<rparr>) = is_push e" "is_push (map_tracked f e) = is_push e"
  "is_push (start_pushing now e) = is_push e" "is_push (stop_pushing e) = is_push e"
  "subscription (map_tracked f e) = subscription e" "subscription (start_pushing now e) = subscription e"
  "subscription (stop_pushing e) = subscription e"
  by (simp_all add: is_push_def map_tracked_def start_pushing_def stop_pushing_def)

text \<open>
  A message that a subscription still owes: tracked and not acknowledged.
\<close>

definition owes :: "StoredMessage \<Rightarrow> (nat, Tracked) ord_map \<Rightarrow> bool" where
  "owes m ms =
     (case map_of ms (stored_id m) of None \<Rightarrow> False | Some t \<Rightarrow> tracked_message t = m \<and> tracked_state t \<noteq> Acked)"

lemma owes_insert:
  "owes m (om_insert k t ms) =
     (if k = stored_id m then tracked_message t = m \<and> tracked_state t \<noteq> Acked else owes m ms)"
  by (simp add: owes_def om_simps)

lemma owes_map_tracked:
  "owes m (messages e) \<Longrightarrow> (\<And>t. tracked_message (f t) = tracked_message t) \<Longrightarrow>
    (\<And>t. tracked_message t = m \<Longrightarrow> tracked_state t \<noteq> Acked \<Longrightarrow> tracked_state (f t) \<noteq> Acked) \<Longrightarrow>
    owes m (messages (map_tracked f e))"
  by (auto simp: owes_def get_map_tracked split: option.splits)

lemma track_keeps [simp]:
  "subscription (track now m e) = subscription e" "is_push (track now m e) = is_push e"
  by (simp_all add: track_def)

lemma track_ok: "entry_ok ids acks e \<Longrightarrow> stored_id m < ids \<Longrightarrow> entry_ok ids acks (track now m e)"
  by (auto simp: track_def tracked_ok_def intro!: messages_ok_insert)

lemma owes_track: "owes m (messages e) \<Longrightarrow> stored_id n \<noteq> stored_id m \<Longrightarrow> owes m (messages (track now n e))"
  by (simp add: track_def owes_insert)

lemma tracks_ok:
  assumes "entry_ok ids acks e" "\<And>m. m \<in> set ms \<Longrightarrow> stored_id m < ids"
  shows "entry_ok ids acks (fold (track now) ms e)"
  using assms
proof (induction ms arbitrary: e)
  case (Cons m ms)
  then show ?case using Cons.IH [of "track now m e"] track_ok [of ids acks e m now] by simp
qed simp

lemma tracks_keep [simp]:
  "subscription (fold (track now) ms e) = subscription e" "is_push (fold (track now) ms e) = is_push e"
  by (induction ms arbitrary: e) auto

lemma owes_tracks:
  "owes m (messages e) \<Longrightarrow> (\<And>n. n \<in> set ms \<Longrightarrow> stored_id n \<noteq> stored_id m) \<Longrightarrow>
    owes m (messages (fold (track now) ms e))"
  by (induction ms arbitrary: e) (auto simp: owes_track)

lemma start_pushing_ok:
  "messages_ok ids acks True p (messages e) \<Longrightarrow> messages_ok ids acks False True (messages (start_pushing now e))"
  unfolding start_pushing_def
  by (erule messages_ok_map) (auto simp: tracked_ok_def split: MessageState.splits if_splits)

lemma stop_pushing_ok:
  "messages_ok ids acks a True (messages e) \<Longrightarrow> messages_ok ids acks True False (messages (stop_pushing e))"
  unfolding stop_pushing_def
  by (erule messages_ok_map) (auto simp: tracked_ok_def split: MessageState.splits if_splits)

lemma owes_pushing:
  "owes m (messages e) \<Longrightarrow> owes m (messages (start_pushing now e))"
  "owes m (messages e) \<Longrightarrow> owes m (messages (stop_pushing e))"
  unfolding start_pushing_def stop_pushing_def by (auto intro!: owes_map_tracked split: if_splits)

lemma switch_push_ok:
  assumes "entry_ok ids acks e"
  shows "entry_ok ids acks (switch_push now (is_push e) (e\<lparr>subscription := s\<rparr>))"
    "subscription (switch_push now (is_push e) (e\<lparr>subscription := s\<rparr>)) = s"
    "owes m (messages e) \<Longrightarrow> owes m (messages (switch_push now (is_push e) (e\<lparr>subscription := s\<rparr>)))"
proof -
  let ?e = "e\<lparr>subscription := s\<rparr>"
  have same: "messages_ok ids acks (\<not> is_push e) (is_push e) (messages ?e)" using assms by simp
  show "entry_ok ids acks (switch_push now (is_push e) ?e)"
    using start_pushing_ok [of ids acks "is_push e" ?e now] stop_pushing_ok [of ids acks "\<not> is_push e" ?e] same
    by (cases "is_push e"; cases "is_push ?e") (auto simp: switch_push_def)
  show "subscription (switch_push now (is_push e) ?e) = s" by (simp add: switch_push_def)
  show "owes m (messages e) \<Longrightarrow> owes m (messages (switch_push now (is_push e) ?e))"
    by (auto simp: switch_push_def intro: owes_pushing)
qed

lemma acknowledge_message_ok:
  assumes "entry_ok ids acks e"
  shows "entry_ok ids acks (acknowledge_message k e)" "subscription (acknowledge_message k e) = subscription e"
    "is_push (acknowledge_message k e) = is_push e"
    "owes m (messages e) \<Longrightarrow> k \<noteq> stored_id m \<Longrightarrow> owes m (messages (acknowledge_message k e))"
proof -
  show "is_push (acknowledge_message k e) = is_push e" "subscription (acknowledge_message k e) = subscription e"
    by (simp_all add: acknowledge_message_def split: option.split)
  show "entry_ok ids acks (acknowledge_message k e)"
  proof (cases "map_of (messages e) k")
    case (Some t)
    then show ?thesis using assms messages_ok_get [OF assms Some]
      by (auto simp: acknowledge_message_def tracked_ok_def intro!: messages_ok_insert)
  qed (simp add: acknowledge_message_def assms)
  show "owes m (messages e) \<Longrightarrow> k \<noteq> stored_id m \<Longrightarrow> owes m (messages (acknowledge_message k e))"
    by (auto simp: acknowledge_message_def owes_insert split: option.split)
qed

section \<open>Leases\<close>

lemma find_lease_iff:
  assumes "messages_ok ids acks a p (messages e)"
  shows "(find_lease e ack = Some k) = (\<exists>t. map_of (messages e) k = Some t \<and> lease_of (tracked_state t) = Some ack)"
proof -
  let ?P = "\<lambda>(_ :: nat, t). case tracked_state t of Leased leased _ \<Rightarrow> leased = ack | _ \<Rightarrow> False"
  have P: "?P (k, t) = (lease_of (tracked_state t) = Some ack)" for k t
    by (cases "tracked_state t") auto
  have om: "om_ok (messages e)" and diff: "leases_differ (messages e)" using assms by (simp_all add: messages_ok_def)
  show ?thesis
  proof
    assume "find_lease e ack = Some k"
    then obtain t where "find ?P (messages e) = Some (k, t)" by (auto simp: find_lease_def)
    then have "(k, t) \<in> set (messages e)" "?P (k, t)" by (auto simp: find_Some_iff in_set_conv_nth)
    then show "\<exists>t. map_of (messages e) k = Some t \<and> lease_of (tracked_state t) = Some ack"
      using om_get_Some_iff [OF om] P by blast
  next
    assume "\<exists>t. map_of (messages e) k = Some t \<and> lease_of (tracked_state t) = Some ack"
    then obtain t where t: "map_of (messages e) k = Some t" "lease_of (tracked_state t) = Some ack" by blast
    then have "(k, t) \<in> set (messages e)" "?P (k, t)" using P om_get_Some_iff [OF om] by blast+
    then have "find ?P (messages e) \<noteq> None" unfolding find_None_iff by blast
    then obtain k' t' where found: "find ?P (messages e) = Some (k', t')" by auto
    then have "(k', t') \<in> set (messages e)" "?P (k', t')" by (auto simp: find_Some_iff in_set_conv_nth)
    then have "map_of (messages e) k' = Some t'" "lease_of (tracked_state t') = Some ack"
      using om_get_Some_iff [OF om] P by blast+
    then have "k = k'" using diff t unfolding leases_differ_def by (metis option.discI)
    then show "find_lease e ack = Some k" using found by (simp add: find_lease_def)
  qed
qed

text \<open>A message is dead-lettered when it is returned after its last attempt.\<close>

definition exhausted :: "SubscriptionEntry \<Rightarrow> Tracked \<Rightarrow> bool" where
  "exhausted e t =
     (case dead_letter_policy (subscription e) of
        None \<Rightarrow> False
      | Some policy \<Rightarrow> max_delivery_attempts policy \<le> min (int (attempts t)) (2 ^ 31 - 1))"

lemma modify_deadline_effect:
  assumes "entry_ok ids acks e" "modify_deadline k secs now (e, fw, sq) = (e', fw', sq')"
  shows "entry_ok ids acks e'" "subscription e' = subscription e"
    "k' \<noteq> k \<Longrightarrow> map_of (messages e') k' = map_of (messages e) k'"
    "map_of (messages e) k = Some t \<Longrightarrow> \<not> (secs = 0 \<and> lease_of (tracked_state t) \<noteq> None \<and> exhausted e t) \<Longrightarrow>
      \<exists>t'. map_of (messages e') k = Some t' \<and> tracked_message t' = tracked_message t \<and> attempts t' = attempts t
        \<and> (tracked_state t' = Acked \<longleftrightarrow> tracked_state t = Acked)
        \<and> (lease_of (tracked_state t') = (if secs = 0 then None else lease_of (tracked_state t)))"
proof -
  have push: "is_push e' = is_push e" and sub: "subscription e' = subscription e"
    using assms(2) by (auto simp: modify_deadline_def split: option.splits MessageState.splits if_splits)
  show "subscription e' = subscription e" by (rule sub)
  show "entry_ok ids acks e'"
  proof (cases "\<exists>t ack d. map_of (messages e) k = Some t \<and> tracked_state t = Leased ack d")
    case True
    then obtain t ack d where t: "map_of (messages e) k = Some t" "tracked_state t = Leased ack d" by blast
    have ok: "tracked_ok ids acks (\<not> is_push e) (is_push e) k t" by (rule messages_ok_get [OF assms(1) t(1)])
    have same: "k' = k" if "map_of (messages e) k' = Some t'" "lease_of (tracked_state t') = Some ack" for k' t'
      using assms(1) that t unfolding messages_ok_def leases_differ_def by (metis lease_of.simps(1) option.discI)
    have put: "entry_ok ids acks (e\<lparr>messages := om_insert k t' (messages e)\<rparr>)"
      if "tracked_ok ids acks (\<not> is_push e) (is_push e) k t'"
        "lease_of (tracked_state t') = None \<or> lease_of (tracked_state t') = Some ack" for t'
      using that same messages_ok_insert [OF assms(1) that(1)] by auto
    have returned: "entry_ok ids acks (e\<lparr>messages := om_insert k
        (t\<lparr>sequence_number := sq, tracked_state := if is_push e then Pushing now else Available\<rparr>) (messages e)\<rparr>)"
      by (rule put) (use ok in \<open>auto simp: tracked_ok_def\<close>)
    have longer: "entry_ok ids acks (e\<lparr>messages := om_insert k
        (t\<lparr>tracked_state := Leased ack (now + seconds (nat secs))\<rparr>) (messages e)\<rparr>)"
      by (rule put) (use ok t in \<open>auto simp: tracked_ok_def\<close>)
    show ?thesis
      using assms(2) t returned longer messages_ok_remove [OF assms(1), of k]
      by (auto simp: modify_deadline_def split: if_splits)
  next
    case False
    then have "e' = e" using assms(2) by (auto simp: modify_deadline_def split: option.splits MessageState.splits)
    then show ?thesis using assms(1) by simp
  qed
  show "k' \<noteq> k \<Longrightarrow> map_of (messages e') k' = map_of (messages e) k'"
    using assms(2) by (auto simp: modify_deadline_def om_simps split: option.splits MessageState.splits if_splits)
  show "\<exists>t'. map_of (messages e') k = Some t' \<and> tracked_message t' = tracked_message t \<and> attempts t' = attempts t
        \<and> (tracked_state t' = Acked \<longleftrightarrow> tracked_state t = Acked)
        \<and> (lease_of (tracked_state t') = (if secs = 0 then None else lease_of (tracked_state t)))"
    if "map_of (messages e) k = Some t" "\<not> (secs = 0 \<and> lease_of (tracked_state t) \<noteq> None \<and> exhausted e t)"
    using assms(2) that
    by (cases "tracked_state t")
      (auto simp: modify_deadline_def exhausted_def om_simps split: option.splits if_splits)
qed

definition current_lease :: "SubscriptionEntry \<Rightarrow> StoredMessage \<Rightarrow> nat option" where
  "current_lease e m = Option.bind (map_of (messages e) (stored_id m)) (\<lambda>t. lease_of (tracked_state t))"

definition used_up :: "SubscriptionEntry \<Rightarrow> StoredMessage \<Rightarrow> bool" where
  "used_up e m = (case map_of (messages e) (stored_id m) of None \<Rightarrow> False | Some t \<Rightarrow> exhausted e t)"

lemma modify_deadline_keeps:
  assumes "entry_ok ids acks e" "modify_deadline k secs now (e, fw, sq) = (e', fw', sq')" "owes m (messages e)"
    "\<not> (k = stored_id m \<and> secs = 0 \<and> current_lease e m \<noteq> None \<and> used_up e m)"
  shows "owes m (messages e')" "used_up e' m = used_up e m"
    "current_lease e' m \<noteq> None \<Longrightarrow> current_lease e' m = current_lease e m"
proof -
  obtain t where t: "map_of (messages e) (stored_id m) = Some t" "tracked_message t = m" "tracked_state t \<noteq> Acked"
    using assms(3) by (auto simp: owes_def split: option.splits)
  have "\<exists>t'. map_of (messages e') (stored_id m) = Some t' \<and> tracked_message t' = m \<and> tracked_state t' \<noteq> Acked
      \<and> attempts t' = attempts t
      \<and> (lease_of (tracked_state t') \<noteq> None \<longrightarrow> lease_of (tracked_state t') = lease_of (tracked_state t))"
  proof (cases "k = stored_id m")
    case True
    then have "\<not> (secs = 0 \<and> lease_of (tracked_state t) \<noteq> None \<and> exhausted e t)"
      using assms(4) t by (simp add: current_lease_def used_up_def)
    then show ?thesis using modify_deadline_effect(4) [OF assms(1,2), of t] t True by (auto split: if_splits)
  next
    case False
    then show ?thesis using modify_deadline_effect(3) [OF assms(1,2), of "stored_id m"] t by auto
  qed
  then obtain t' where t': "map_of (messages e') (stored_id m) = Some t'" "tracked_message t' = m"
    "tracked_state t' \<noteq> Acked" "attempts t' = attempts t"
    "lease_of (tracked_state t') \<noteq> None \<longrightarrow> lease_of (tracked_state t') = lease_of (tracked_state t)"
    by blast
  show "owes m (messages e')" "current_lease e' m \<noteq> None \<Longrightarrow> current_lease e' m = current_lease e m"
    using t t' by (auto simp: owes_def current_lease_def)
  show "used_up e' m = used_up e m"
    using t(1) t'(1,4) modify_deadline_effect(2) [OF assms(1,2)] by (simp add: used_up_def exhausted_def split: option.split)
qed

text \<open>Returning or extending a sequence of leases, found by the step function \<open>pick\<close>.\<close>

definition change_leases :: "('a \<Rightarrow> SubscriptionEntry \<Rightarrow> nat option) \<Rightarrow> int \<Rightarrow> Instant \<Rightarrow> 'a list \<Rightarrow>
    SubscriptionEntry \<times> Forwarded \<times> nat \<Rightarrow> SubscriptionEntry \<times> Forwarded \<times> nat" where
  "change_leases pick secs now xs s =
     fold (\<lambda>x s. case pick x (fst s) of None \<Rightarrow> s | Some k \<Rightarrow> modify_deadline k secs now s) xs s"

lemma modify_leases_change: "modify_leases secs now xs s = change_leases (\<lambda>ack e. find_lease e ack) secs now xs s"
  by (simp add: modify_leases_def change_leases_def)

lemma expire_change: "expire now s = change_leases (\<lambda>k e. Some k) 0 now (expired_ids now (fst s)) s"
  by (simp add: expire_def change_leases_def)

lemma change_leases_ok:
  assumes "entry_ok ids acks e" "change_leases pick secs now xs (e, fw, sq) = (e', fw', sq')"
  shows "entry_ok ids acks e' \<and> subscription e' = subscription e"
  using assms
proof (induction xs arbitrary: e fw sq)
  case (Cons x xs)
  show ?case
  proof (cases "pick x e")
    case (Some k)
    obtain e1 fw1 sq1 where one: "modify_deadline k secs now (e, fw, sq) = (e1, fw1, sq1)" by (cases "modify_deadline k secs now (e, fw, sq)")
    note eff = modify_deadline_effect(1,2) [OF Cons.prems(1) one]
    have "change_leases pick secs now xs (e1, fw1, sq1) = (e', fw', sq')"
      using Cons.prems(2) one Some by (simp add: change_leases_def)
    from Cons.IH [OF eff(1) this] show ?thesis using eff(2) by simp
  next
    case None
    then have "change_leases pick secs now xs (e, fw, sq) = (e', fw', sq')"
      using Cons.prems(2) by (simp add: change_leases_def)
    from Cons.IH [OF Cons.prems(1) this] show ?thesis .
  qed
qed (simp add: change_leases_def)

lemma change_leases_keeps:
  assumes "entry_ok ids acks e" "change_leases pick secs now xs (e, fw, sq) = (e', fw', sq')" "owes m (messages e)"
    "\<forall>x\<in>set xs. \<forall>e. entry_ok ids acks e \<longrightarrow> Q e \<longrightarrow> pick x e = Some (stored_id m) \<longrightarrow> secs = 0 \<longrightarrow>
      current_lease e m \<noteq> None \<longrightarrow> \<not> used_up e m"
    "\<And>e e'. Q e \<Longrightarrow> (current_lease e' m \<noteq> None \<longrightarrow> current_lease e' m = current_lease e m) \<Longrightarrow>
      used_up e' m = used_up e m \<Longrightarrow> Q e'"
    "Q e"
  shows "owes m (messages e')"
  using assms(1-4,6)
proof (induction xs arbitrary: e fw sq)
  case (Cons x xs)
  show ?case
  proof (cases "pick x e")
    case (Some k)
    obtain e1 fw1 sq1 where one: "modify_deadline k secs now (e, fw, sq) = (e1, fw1, sq1)" by (cases "modify_deadline k secs now (e, fw, sq)")
    have "\<not> (k = stored_id m \<and> secs = 0 \<and> current_lease e m \<noteq> None \<and> used_up e m)"
      using Cons.prems(4) [rule_format, of x e] Cons.prems(1,5) Some by auto
    note keeps = modify_deadline_keeps [OF Cons.prems(1) one Cons.prems(3) this]
    have rest: "change_leases pick secs now xs (e1, fw1, sq1) = (e', fw', sq')"
      using Cons.prems(2) one Some by (simp add: change_leases_def)
    have "Q e1" by (rule assms(5) [OF Cons.prems(5)]) (use keeps in auto)
    moreover have "\<forall>x\<in>set xs. \<forall>e. entry_ok ids acks e \<longrightarrow> Q e \<longrightarrow> pick x e = Some (stored_id m) \<longrightarrow> secs = 0 \<longrightarrow>
        current_lease e m \<noteq> None \<longrightarrow> \<not> used_up e m"
      using Cons.prems(4) by simp
    ultimately show ?thesis
      using Cons.IH [OF modify_deadline_effect(1) [OF Cons.prems(1) one] rest keeps(1)] by blast
  next
    case None
    then have "change_leases pick secs now xs (e, fw, sq) = (e', fw', sq')"
      using Cons.prems(2) by (simp add: change_leases_def)
    from Cons.IH [OF Cons.prems(1) this Cons.prems(3)] show ?thesis using Cons.prems(4,5) by simp
  qed
qed (simp add: change_leases_def)

lemma modify_leases_keeps:
  assumes "entry_ok ids acks e" "modify_leases secs now xs (e, fw, sq) = (e', fw', sq')" "owes m (messages e)"
    "\<not> (secs = 0 \<and> used_up e m \<and> current_lease e m \<in> Some ` set xs)"
  shows "owes m (messages e')"
proof (rule change_leases_keeps [where Q = "\<lambda>e'. (secs = 0 \<and> used_up e' m \<longrightarrow> current_lease e' m \<notin> Some ` set xs)",
      OF assms(1) assms(2) [unfolded modify_leases_change] assms(3)])
  have "\<not> used_up e m" if "x \<in> set xs" "entry_ok ids acks e" "find_lease e x = Some (stored_id m)" "secs = 0"
    "secs = 0 \<and> used_up e m \<longrightarrow> current_lease e m \<notin> Some ` set xs" for x e
    using that find_lease_iff [OF that(2), of x "stored_id m"] by (auto simp: current_lease_def)
  then show "\<forall>x\<in>set xs. \<forall>e. entry_ok ids acks e \<longrightarrow>
      (secs = 0 \<and> used_up e m \<longrightarrow> current_lease e m \<notin> Some ` set xs) \<longrightarrow>
      find_lease e x = Some (stored_id m) \<longrightarrow> secs = 0 \<longrightarrow> current_lease e m \<noteq> None \<longrightarrow> \<not> used_up e m"
    by blast
qed (use assms(4) in auto)

lemma expire_keeps:
  assumes "entry_ok ids acks e" "expire now (e, fw, sq) = (e', fw', sq')" "owes m (messages e)"
    "\<not> (stored_id m \<in> set (expired_ids now e) \<and> used_up e m)"
  shows "owes m (messages e')"
proof (rule change_leases_keeps [where Q = "\<lambda>e'. (used_up e' m \<longrightarrow> stored_id m \<notin> set (expired_ids now e))",
      OF assms(1) assms(2) [unfolded expire_change fst_conv] assms(3)])
qed (use assms(4) in auto)

lemma acknowledge_leases_ok:
  assumes "entry_ok ids acks e" "acknowledge_leases xs e stale = (e', stale')"
  shows "entry_ok ids acks e'" "subscription e' = subscription e"
    "owes m (messages e) \<Longrightarrow> current_lease e m \<notin> Some ` set xs \<Longrightarrow> owes m (messages e')"
proof -
  have "entry_ok ids acks e' \<and> subscription e' = subscription e
      \<and> (owes m (messages e) \<longrightarrow> current_lease e m \<notin> Some ` set xs \<longrightarrow> owes m (messages e'))"
    using assms
  proof (induction xs arbitrary: e stale)
    case (Cons x xs)
    show ?case
    proof (cases "find_lease e x")
      case (Some k)
      let ?e = "acknowledge_message k e"
      note ack = acknowledge_message_ok [OF Cons.prems(1), where k = k]
      have rest: "acknowledge_leases xs ?e stale = (e', stale')" using Cons.prems(2) Some by simp
      note IH = Cons.IH [OF _ rest]
      have lease: "current_lease ?e m = current_lease e m" if "k \<noteq> stored_id m"
        using that by (simp add: current_lease_def acknowledge_message_def om_simps split: option.split)
      have "k \<noteq> stored_id m" if "current_lease e m \<noteq> Some x"
        using that find_lease_iff [OF Cons.prems(1), of x k] Some by (auto simp: current_lease_def)
      then show ?thesis using IH ack lease by auto
    next
      case None
      then show ?thesis using Cons.IH [OF Cons.prems(1)] Cons.prems(2) by auto
    qed
  qed simp
  then show "entry_ok ids acks e'" "subscription e' = subscription e"
    "owes m (messages e) \<Longrightarrow> current_lease e m \<notin> Some ` set xs \<Longrightarrow> owes m (messages e')" by blast+
qed

end
