(* ===== verification/Pubsub_Lease.thy ===== *)
theory Pubsub_Lease
  imports Pubsub_Run
begin

text \<open>
  What a pull takes and what acknowledging it does, exactly: the loop of \<open>take\<close> leases a prefix
  of the deliverable messages in the order of their sequence numbers, under consecutive lease
  numbers, and the acknowledgement ids it hands out name these leases and no others.
\<close>

section \<open>Taking messages\<close>

definition free_of :: "string list \<Rightarrow> SubscriptionEntry \<Rightarrow> nat \<Rightarrow> bool" where
  "free_of blocked e k =
     (case map_of (messages e) k of
        None \<Rightarrow> False
      | Some t \<Rightarrow> (let key = ordering_key (stored_message (tracked_message t))
                   in \<not> (enable_message_ordering (subscription e) \<and> key \<noteq> [] \<and> key \<in> set blocked)))"

definition deliverable :: "SubscriptionEntry \<Rightarrow> nat list" where
  "deliverable e = filter (free_of (blocked_keys e) e) (map snd (candidates e))"

definition lease_to :: "nat \<Rightarrow> Instant \<Rightarrow> Tracked \<Rightarrow> Tracked" where
  "lease_to ack deadline t = t\<lparr>attempts := attempts t + 1, tracked_state := Leased ack deadline\<rparr>"

definition lease_one :: "Instant \<Rightarrow> nat \<times> nat \<Rightarrow> SubscriptionEntry \<Rightarrow> SubscriptionEntry" where
  "lease_one deadline = (\<lambda>(ack, k) e.
     case map_of (messages e) k of
       None \<Rightarrow> e
     | Some t \<Rightarrow> e\<lparr>messages := om_insert k (lease_to ack deadline t) (messages e)\<rparr>)"

definition received_of :: "SubscriptionEntry \<Rightarrow> nat \<times> nat \<Rightarrow> ReceivedMessage" where
  "received_of e = (\<lambda>(ack, k). let t = the (map_of (messages e) k) in
     \<lparr>ack_id = sub_name (subscription e) @ '':'' @ decimal ack,
      received_message = stored_message (tracked_message t),
      delivery_attempt = (if dead_letter_policy (subscription e) \<noteq> None
        then min (int (attempts t + 1)) (2 ^ 31 - 1) else 0)\<rparr>)"

lemma lease_one_keeps [simp]: "subscription (lease_one d p e) = subscription e" "is_push (lease_one d p e) = is_push e"
  by (auto simp: lease_one_def split: prod.split option.split)

lemma lease_fold_keeps [simp]:
  "subscription (fold (lease_one d) ps e) = subscription e" "is_push (fold (lease_one d) ps e) = is_push e"
  by (induction ps arbitrary: e) auto

lemma lease_one_get:
  "map_of (messages (lease_one d (ack, k) e)) k' =
     (if k' = k then map_option (lease_to ack d) (map_of (messages e) k) else map_of (messages e) k')"
  by (auto simp: lease_one_def om_simps split: option.split)

lemma free_of_lease: "free_of blocked (lease_one d p e) = free_of blocked e"
  by (cases p) (auto simp: fun_eq_iff free_of_def lease_one_get lease_to_def split: option.split)

lemma received_of_lease: "k' \<noteq> k \<Longrightarrow> received_of (lease_one d (ack, k) e) (ack', k') = received_of e (ack', k')"
  by (simp add: received_of_def lease_one_get)

lemma received_of_leases:
  "k \<notin> set ks \<Longrightarrow> map (received_of (lease_one d (ack, k) e)) (enumerate n ks) = map (received_of e) (enumerate n ks)"
  by (induction ks arbitrary: n) (auto simp: received_of_lease)

lemma take_candidates_skip:
  "length rs < limit \<Longrightarrow> \<not> free_of blocked e k \<Longrightarrow>
    take_candidates limit blocked first d ((s, k) # cs) e rs used =
    take_candidates limit blocked first d cs e rs used"
  by (cases "map_of (messages e) k") (auto simp: free_of_def Let_def)

lemma take_candidates_free:
  assumes "length rs < limit" "free_of blocked e k"
  shows "take_candidates limit blocked first d ((s, k) # cs) e rs used =
    take_candidates limit blocked first d cs (lease_one d (first + used, k) e)
      (rs @ [received_of e (first + used, k)]) (used + 1)"
proof -
  obtain t where t: "map_of (messages e) k = Some t" using assms(2) by (auto simp: free_of_def split: option.splits)
  have free: "\<not> (enable_message_ordering (subscription e) \<and> ordering_key (stored_message (tracked_message t)) \<noteq> []
      \<and> ordering_key (stored_message (tracked_message t)) \<in> set blocked)"
    using assms(2) t by (simp add: free_of_def Let_def)
  show ?thesis
    using assms(1) unfolding take_candidates.simps t Let_def option.case if_not_P [OF free]
    by (simp add: lease_one_def lease_to_def received_of_def t del: take_candidates.simps)
qed

lemma take_candidates_exact:
  assumes "distinct (map snd cs)"
  shows "take_candidates limit blocked first d cs e rs used =
    (let ps = enumerate (first + used) (take (limit - length rs) (filter (free_of blocked e) (map snd cs)))
     in (fold (lease_one d) ps e, rs @ map (received_of e) ps, used + length ps))"
  using assms
proof (induction cs arbitrary: e rs used)
  case (Cons c cs)
  obtain s k where c: "c = (s, k)" by (cases c)
  consider "limit \<le> length rs" | "length rs < limit" "\<not> free_of blocked e k" | "length rs < limit" "free_of blocked e k"
    by linarith
  then show ?case
  proof cases
    case 2
    then show ?thesis using Cons.IH [of e rs used] Cons.prems by (simp add: c take_candidates_skip del: take_candidates.simps)
  next
    case 3
    let ?e = "lease_one d (first + used, k) e"
    let ?ks = "take (limit - Suc (length rs)) (filter (free_of blocked e) (map snd cs))"
    have "k \<notin> set ?ks" using Cons.prems c by (auto dest: in_set_takeD)
    note rest = received_of_leases [OF this, of d "first + used" e "Suc (first + used)"]
    have cut: "take (limit - length rs) (k # ys) = k # take (limit - Suc (length rs)) ys" for ys
      using 3 by (simp add: take_Cons' Suc_diff_Suc)
    have "take_candidates limit blocked first d (c # cs) e rs used
        = take_candidates limit blocked first d cs ?e (rs @ [received_of e (first + used, k)]) (used + 1)"
      unfolding c by (rule take_candidates_free [OF 3])
    also have "\<dots> = (let ps = enumerate (first + (used + 1)) ?ks
        in (fold (lease_one d) ps ?e, (rs @ [received_of e (first + used, k)]) @ map (received_of ?e) ps, used + 1 + length ps))"
      using Cons.IH [of ?e "rs @ [received_of e (first + used, k)]" "used + 1"] Cons.prems
      by (simp add: free_of_lease)
    finally show ?thesis using 3 rest by (simp add: c cut Let_def del: take_candidates.simps)
  qed (simp add: c Let_def)
qed (simp add: Let_def)

definition lease_deadline :: "SubscriptionEntry \<Rightarrow> Instant \<Rightarrow> Instant" where
  "lease_deadline e now = now + seconds (if ack_deadline_seconds (subscription e) < 0 then 10
     else nat (ack_deadline_seconds (subscription e)))"

lemma candidates_distinct:
  assumes "om_ok (messages e)"
  shows "distinct (map snd (candidates e))"
proof -
  let ?xs = "map (\<lambda>(k, t). (sequence_number t, k)) (filter (\<lambda>(_, t). tracked_state t = Available) (messages e))"
  have "map snd ?xs = map fst (filter (\<lambda>(_, t). tracked_state t = Available) (messages e))" by auto
  then have "distinct (map snd ?xs)" using distinct_map_filter [OF om_ok_distinct [OF assms]] by metis
  then have "distinct ?xs" "inj_on snd (set ?xs)" unfolding distinct_map by auto
  then have "distinct (sort ?xs)" "inj_on snd (set (sort ?xs))" by (simp_all only: distinct_sort set_sort)
  then show ?thesis unfolding candidates_def distinct_map [of snd] by blast
qed

lemma deliverable_distinct: "om_ok (messages e) \<Longrightarrow> distinct (deliverable e)"
  by (simp add: deliverable_def candidates_distinct)

lemma deliverable_available:
  assumes "om_ok (messages e)" "k \<in> set (deliverable e)"
  shows "\<exists>t. map_of (messages e) k = Some t \<and> tracked_state t = Available"
  using assms by (auto simp: deliverable_def candidates_def om_get_Some_iff)

lemma take_messages_exact:
  assumes "om_ok (messages e)"
  shows "take_messages e n first now =
    (let ps = enumerate first (take (nat n) (deliverable e))
     in (fold (lease_one (lease_deadline e now)) ps e, map (received_of e) ps, length ps))"
  using take_candidates_exact [OF candidates_distinct [OF assms], of "nat n" "blocked_keys e" first
      "lease_deadline e now" e "[]" 0]
  by (simp add: take_messages_def lease_deadline_def deliverable_def Let_def)

lemma lease_one_ok:
  assumes "entry_ok ids ack e"
  shows "entry_ok ids (Suc ack) (lease_one d (ack, k) e)"
proof (cases "map_of (messages e) k")
  case None
  then show ?thesis using messages_ok_mono [OF assms, of ids "Suc ack"] by (simp add: lease_one_def)
next
  case (Some t)
  have more: "entry_ok ids (Suc ack) e" by (rule messages_ok_mono [OF assms]) auto
  have ok: "tracked_ok ids ack (\<not> is_push e) (is_push e) k' t'" if "map_of (messages e) k' = Some t'" for k' t'
    by (rule messages_ok_get [OF assms that])
  have "messages_ok ids (Suc ack) (\<not> is_push e) (is_push e) (om_insert k (lease_to ack d t) (messages e))"
  proof (rule messages_ok_insert [OF more])
    show "tracked_ok ids (Suc ack) (\<not> is_push e) (is_push e) k (lease_to ack d t)"
      using ok [OF Some] by (simp add: tracked_ok_def lease_to_def)
    fix k' t' assume t': "map_of (messages e) k' = Some t'"
      "lease_of (tracked_state t') = lease_of (tracked_state (lease_to ack d t))"
    then show "k' = k" using ok [OF t'(1)] by (cases "tracked_state t'") (auto simp: tracked_ok_def lease_to_def)
  qed
  then show ?thesis by (simp add: lease_one_def Some)
qed

lemma lease_fold_ok: "entry_ok ids n e \<Longrightarrow> entry_ok ids (n + length ks) (fold (lease_one d) (enumerate n ks) e)"
proof (induction ks arbitrary: n e)
  case (Cons k ks)
  from Cons.IH [OF lease_one_ok [OF Cons.prems, of d k]] show ?case by simp
qed simp

lemma owes_lease_one: "owes m (messages e) \<Longrightarrow> owes m (messages (lease_one d p e))"
  by (cases p) (auto simp: owes_def lease_one_get lease_to_def split: option.splits if_splits)

lemma owes_lease_fold: "owes m (messages e) \<Longrightarrow> owes m (messages (fold (lease_one d) ps e))"
  by (induction ps arbitrary: e) (auto simp: owes_lease_one)

lemma lease_fold_get:
  "distinct ks \<Longrightarrow> map_of (messages (fold (lease_one d) (enumerate n ks) e)) k =
    (case position_of k ks of
       None \<Rightarrow> map_of (messages e) k
     | Some i \<Rightarrow> map_option (lease_to (n + i) d) (map_of (messages e) k))"
proof (induction ks arbitrary: n e)
  case (Cons k' ks)
  have absent: "position_of x ys = None" if "x \<notin> set ys" for x :: nat and ys
    using that by (induction ys) auto
  show ?case
  proof (cases "k' = k")
    case True
    then show ?thesis using Cons absent [of k ks] by (simp add: lease_one_get)
  next
    case False
    then show ?thesis using Cons by (simp add: lease_one_get split: option.split)
  qed
qed simp

lemma position_of_Some: "(position_of x xs = Some i) \<Longrightarrow> i < length xs \<and> xs ! i = x"
  by (induction xs arbitrary: i) (auto split: if_splits)

lemma position_of_None: "(position_of x xs = None) = (x \<notin> set xs)"
  by (induction xs) auto

section \<open>Acknowledging\<close>

lemma rsplit_once_last: "c \<notin> set s \<Longrightarrow> rsplit_once c (p @ c # s) = Some (p, s)"
  by (induction p) (auto simp: rsplit_once_None [THEN iffD2])

lemma parse_own_ack_id: "ack \<le> u64_max \<Longrightarrow> parse_ack_id name (name @ '':'' @ decimal ack) = Inr ack"
proof -
  assume "ack \<le> u64_max"
  moreover have "CHR '':'' \<notin> set (decimal ack)"
    using decimal_digits(1) [of ack] by (auto simp: list_all_iff is_ascii_digit_def)
  ultimately show ?thesis by (simp add: parse_ack_id_def rsplit_once_last parse_decimal)
qed

lemma parse_own_ack_ids:
  "list_all (\<lambda>p. fst p \<le> u64_max) ps \<Longrightarrow> sub_name (subscription e) = name \<Longrightarrow>
    parse_ack_ids name (map (\<lambda>p. ack_id (received_of e p)) ps) = Inr (map fst ps)"
proof (induction ps)
  case (Cons p ps)
  have "ack_id (received_of e p) = name @ '':'' @ decimal (fst p)"
    using Cons.prems(2) by (cases p) (simp add: received_of_def Let_def)
  then show ?case using Cons parse_own_ack_id [of "fst p" name] by simp
qed simp

lemma acknowledge_message_get:
  "map_of (messages (acknowledge_message k e)) k' =
     (if k' = k then map_option (\<lambda>t. t\<lparr>tracked_state := Acked\<rparr>) (map_of (messages e) k) else map_of (messages e) k')"
  by (auto simp: acknowledge_message_def om_simps split: option.split)

lemma acknowledge_fold_get:
  "distinct ks \<Longrightarrow> map_of (messages (fold acknowledge_message ks e)) k =
     (if k \<in> set ks then map_option (\<lambda>t. t\<lparr>tracked_state := Acked\<rparr>) (map_of (messages e) k) else map_of (messages e) k)"
  by (induction ks arbitrary: e) (auto simp: acknowledge_message_get)

lemma acknowledge_leases_exact:
  assumes "entry_ok ids acks e" "distinct (map snd ps)"
    "\<And>ack k. (ack, k) \<in> set ps \<Longrightarrow> \<exists>t. map_of (messages e) k = Some t \<and> lease_of (tracked_state t) = Some ack"
  shows "acknowledge_leases (map fst ps) e stale = (fold acknowledge_message (map snd ps) e, stale)"
  using assms
proof (induction ps arbitrary: e)
  case (Cons p ps)
  obtain ack k where p: "p = (ack, k)" by (cases p)
  have "find_lease e ack = Some k" using find_lease_iff [OF Cons.prems(1)] Cons.prems(3) [of ack k] p by auto
  moreover have "acknowledge_leases (map fst ps) (acknowledge_message k e) stale
      = (fold acknowledge_message (map snd ps) (acknowledge_message k e), stale)"
  proof (rule Cons.IH)
    show "entry_ok ids acks (acknowledge_message k e)" by (rule acknowledge_message_ok(1) [OF Cons.prems(1)])
    fix ack' k' assume "(ack', k') \<in> set ps"
    moreover from this have "k' \<noteq> k" using Cons.prems(2) p by force
    ultimately show "\<exists>t. map_of (messages (acknowledge_message k e)) k' = Some t \<and> lease_of (tracked_state t) = Some ack'"
      using Cons.prems(3) [of ack' k'] by (simp add: acknowledge_message_get)
  qed (use Cons.prems p in auto)
  ultimately show ?case by (simp add: p)
qed simp

text \<open>Numbers that are not the lease of any message acknowledge nothing.\<close>

lemma acknowledge_leases_stale:
  assumes "entry_ok ids acks e" "\<And>k t. map_of (messages e) k = Some t \<Longrightarrow> lease_of (tracked_state t) \<notin> Some ` set xs"
  shows "acknowledge_leases xs e stale = (e, stale \<or> xs \<noteq> [])"
  using assms(2)
proof (induction xs arbitrary: stale)
  case (Cons x xs)
  have "find_lease e x = None"
    using find_lease_iff [OF assms(1), of x] Cons.prems by (cases "find_lease e x") auto
  then show ?case using Cons by auto
qed simp

end
