(* ===== verification/Pubsub_Steps.thy ===== *)
theory Pubsub_Steps
  imports Pubsub_Lease
begin

text \<open>
  Every operation of the broker keeps its invariant, and keeps every message a subscription still
  owes unless it is one of the operations that settle this message.
\<close>

section \<open>Settling a message\<close>

definition owed :: "string \<Rightarrow> StoredMessage \<Rightarrow> 'avro BrokerState \<Rightarrow> bool" where
  "owed name m st = (case map_of (subscriptions st) name of None \<Rightarrow> False | Some e \<Rightarrow> owes m (messages e))"

definition names_lease :: "string \<Rightarrow> string list \<Rightarrow> SubscriptionEntry \<Rightarrow> StoredMessage \<Rightarrow> bool" where
  "names_lease name acks e m =
     (case parse_ack_ids name acks of
        Inl _ \<Rightarrow> False
      | Inr parsed \<Rightarrow> list_ex (\<lambda>ack. current_lease e m = Some ack) parsed)"

text \<open>
  The ways in which message \<open>m\<close> of the subscription \<open>name\<close> may stop being owed: its current lease
  is acknowledged, a push of it was delivered, a seek passes it, it is returned or its lease
  expires after its last attempt, or the subscription is deleted or drained.
\<close>

fun settles_entry :: "Clock \<Rightarrow> Op \<Rightarrow> string \<Rightarrow> SubscriptionEntry \<Rightarrow> StoredMessage \<Rightarrow> 'avro BrokerState \<Rightarrow> bool" where
  "settles_entry clock (Acknowledge n acks) name e m st = (n = name \<and> names_lease n acks e m)"
| "settles_entry clock (ModifyAckDeadline n acks secs) name e m st =
     (n = name \<and> secs = 0 \<and> used_up e m \<and> names_lease n acks e m)"
| "settles_entry clock Tick name e m st =
     (stored_id m \<in> set (expired_ids (now_instant clock) e) \<and> used_up e m)"
| "settles_entry clock (PushRecorded job delivered) name e m st =
     (delivered \<and> job_subscription job = name \<and> job_message_id job = stored_id m)"
| "settles_entry clock (SeekToTime n time) name e m st =
     (n = name \<and> published_at m < seconds (nat (stamp_seconds time)) + nat (stamp_nanos time))"
| "settles_entry clock (SeekToSnapshot n snap) name e m st =
     (n = name \<and> (case map_of (snapshots st) snap of
        None \<Rightarrow> False
      | Some s \<Rightarrow> stored_id m \<notin> set (unacked s) \<and> published m \<le> created s))"
| "settles_entry clock (DeleteSubscription n) name e m st = (n = name)"
| "settles_entry clock (Drain n) name e m st = (n = name)"
| "settles_entry clock _ name e m st = False"

definition settles :: "Clock \<Rightarrow> Op \<Rightarrow> string \<Rightarrow> StoredMessage \<Rightarrow> 'avro BrokerState \<Rightarrow> bool" where
  "settles clock op name m st =
     (case map_of (subscriptions st) name of None \<Rightarrow> False | Some e \<Rightarrow> settles_entry clock op name e m st)"

fun never_settled :: "'avro Env \<Rightarrow> (Clock \<times> Op) list \<Rightarrow> string \<Rightarrow> StoredMessage \<Rightarrow> 'avro BrokerState \<Rightarrow> bool" where
  "never_settled env [] name m st = True"
| "never_settled env ((clock, op) # ops) name m st =
     (\<not> settles clock op name m st \<and> never_settled env ops name m (apply_op env clock op st))"

section \<open>Changes of the state\<close>

lemma broker_ok_entry:
  "broker_ok st \<Longrightarrow> map_of (subscriptions st) name = Some e \<Longrightarrow>
    entry_ok (next_message_id st) (next_ack st) e \<and> sub_name (subscription e) = name"
  by (auto simp: broker_ok_def subscriptions_ok_def)

lemma owed_entry:
  "(owed name m st) = (\<exists>e. map_of (subscriptions st) name = Some e \<and> owes m (messages e))"
  by (auto simp: owed_def split: option.split)

lemma owed_below: "broker_ok st \<Longrightarrow> owed name m st \<Longrightarrow> stored_id m < next_message_id st"
proof -
  assume ok: "broker_ok st" and "owed name m st"
  then obtain e t where e: "map_of (subscriptions st) name = Some e" and t: "map_of (messages e) (stored_id m) = Some t"
    by (auto simp: owed_entry owes_def split: option.splits)
  show ?thesis
    using messages_ok_get [OF conjunct1 [OF broker_ok_entry [OF ok e]] t] by (simp add: tracked_ok_def)
qed

lemma broker_ok_put:
  assumes "broker_ok st" "subscriptions st' = om_insert name e (subscriptions st)" "topics st' = topics st"
    "next_message_id st' = next_message_id st" "next_ack st \<le> next_ack st'"
    "entry_ok (next_message_id st) (next_ack st') e" "sub_name (subscription e) = name"
  shows "broker_ok st'"
proof -
  have "entry_ok (next_message_id st) (next_ack st') e'" if "map_of (subscriptions st) n = Some e'" for n e'
    using broker_ok_entry [OF assms(1) that] assms(5) messages_ok_mono by blast
  then show ?thesis
    using assms broker_ok_entry [OF assms(1)] by (auto simp: broker_ok_def subscriptions_ok_def om_simps)
qed

lemma owed_put:
  "owed name m st \<Longrightarrow> subscriptions st' = om_insert n e (subscriptions st) \<Longrightarrow> (n = name \<Longrightarrow> owes m (messages e)) \<Longrightarrow>
    owed name m st'"
  by (auto simp: owed_entry om_simps)

lemma broker_ok_same:
  "broker_ok st \<Longrightarrow> subscriptions st' = subscriptions st \<Longrightarrow> topics st' = topics st \<Longrightarrow>
    next_message_id st' = next_message_id st \<Longrightarrow> next_ack st' = next_ack st \<Longrightarrow> broker_ok st'"
  by (simp add: broker_ok_def)

lemma broker_ok_topics:
  "broker_ok st \<Longrightarrow> subscriptions st' = subscriptions st \<Longrightarrow> topics_ok (next_message_id st) (topics st') \<Longrightarrow>
    next_message_id st' = next_message_id st \<Longrightarrow> next_ack st' = next_ack st \<Longrightarrow> broker_ok st'"
  by (simp add: broker_ok_def)

lemma owed_same: "owed name m st \<Longrightarrow> subscriptions st' = subscriptions st \<Longrightarrow> owed name m st'"
  by (simp add: owed_def)

text \<open>All subscriptions change at once.\<close>

definition subs_rel :: "(SubscriptionEntry \<Rightarrow> SubscriptionEntry \<Rightarrow> bool) \<Rightarrow>
    (string, SubscriptionEntry) ord_map \<Rightarrow> (string, SubscriptionEntry) ord_map \<Rightarrow> bool" where
  "subs_rel R = list_all2 (\<lambda>p q. fst q = fst p \<and> R (snd p) (snd q))"

lemma subs_rel_keys: "subs_rel R xs ys \<Longrightarrow> map fst ys = map fst xs"
  unfolding subs_rel_def by (induction rule: list_all2_induct) auto

lemma subs_rel_get:
  "subs_rel R xs ys \<Longrightarrow>
    (map_of xs n = None \<longrightarrow> map_of ys n = None)
    \<and> (\<forall>e. map_of xs n = Some e \<longrightarrow> (\<exists>e'. map_of ys n = Some e' \<and> R e e'))"
  unfolding subs_rel_def by (induction rule: list_all2_induct) auto

lemma subs_rel_map: "(\<And>e. R e (f e)) \<Longrightarrow> subs_rel R xs (map (\<lambda>(n, e). (n, f e)) xs)"
  by (induction xs) (auto simp: subs_rel_def)

lemma subscriptions_ok_rel:
  assumes "subscriptions_ok ids acks xs" "subs_rel R xs ys"
    "\<And>e e'. R e e' \<Longrightarrow> entry_ok ids acks e \<Longrightarrow> entry_ok ids' acks e' \<and> sub_name (subscription e') = sub_name (subscription e)"
  shows "subscriptions_ok ids' acks ys"
  unfolding subscriptions_ok_def
proof (intro conjI allI impI)
  show "om_ok ys" using assms(1) subs_rel_keys [OF assms(2)] by (simp add: subscriptions_ok_def om_ok_def)
next
  fix name e' assume "map_of ys name = Some e'"
  then obtain e where "map_of xs name = Some e" "R e e'"
    using subs_rel_get [OF assms(2), of name] by (cases "map_of xs name") auto
  then show "sub_name (subscription e') = name" "entry_ok ids' acks e'"
    using assms(1) assms(3) [of e e'] by (auto simp: subscriptions_ok_def)
qed

lemma owed_rel:
  assumes "owed name m st" "subs_rel R (subscriptions st) (subscriptions st')"
    "\<And>e e'. map_of (subscriptions st) name = Some e \<Longrightarrow> R e e' \<Longrightarrow> owes m (messages e) \<Longrightarrow> owes m (messages e')"
  shows "owed name m st'"
  using assms subs_rel_get [OF assms(2), of name] unfolding owed_entry by blast

section \<open>Delivery\<close>

lemma deliver_ok:
  assumes "broker_ok st" "\<And>m. m \<in> set ms \<Longrightarrow> stored_id m < next_message_id st"
  shows "broker_ok (deliver now topic ms st)"
proof (cases "map_of (topics st) topic")
  case (Some entry)
  let ?f = "\<lambda>s. if topic_deleted s \<or> topic_generation s \<noteq> generation entry then s else fold (track now) ms s"
  have "subs_rel (\<lambda>e e'. e' = ?f e) (subscriptions st) (map (\<lambda>(n, e). (n, ?f e)) (subscriptions st))"
    by (rule subs_rel_map) simp
  then have "subscriptions_ok (next_message_id st) (next_ack st) (map (\<lambda>(n, e). (n, ?f e)) (subscriptions st))"
    by (rule subscriptions_ok_rel [rotated])
      (use assms tracks_ok in \<open>auto simp: broker_ok_def simp del: tracks_keep(2)\<close>)
  moreover have "topics_ok (next_message_id st) (topics (deliver now topic ms st))"
    using assms Some by (auto simp: broker_ok_def topics_ok_def deliver_def om_simps)
  ultimately show ?thesis using Some by (simp add: broker_ok_def deliver_def)
qed (simp add: deliver_def assms)

lemma deliver_owed:
  assumes "owed name m st" "\<And>n. n \<in> set ms \<Longrightarrow> stored_id n \<noteq> stored_id m"
  shows "owed name m (deliver now topic ms st)"
proof (cases "map_of (topics st) topic")
  case (Some entry)
  let ?f = "\<lambda>s. if topic_deleted s \<or> topic_generation s \<noteq> generation entry then s else fold (track now) ms s"
  have "subs_rel (\<lambda>e e'. e' = ?f e) (subscriptions st) (subscriptions (deliver now topic ms st))"
    using subs_rel_map [of "\<lambda>e e'. e' = ?f e" ?f] Some by (simp add: deliver_def)
  with assms(1) show ?thesis by (rule owed_rel) (use owes_tracks [OF _ assms(2)] in auto)
qed (simp add: deliver_def assms)

lemma deliver_keeps [simp]:
  "next_message_id (deliver now topic ms st) = next_message_id st" "next_ack (deliver now topic ms st) = next_ack st"
  "in_flight (deliver now topic ms st) = in_flight st"
  by (simp_all add: deliver_def split: option.split)

lemma broker_ok_more: "broker_ok st \<Longrightarrow> broker_ok (st\<lparr>next_message_id := next_message_id st + n\<rparr>)"
proof -
  assume ok: "broker_ok st"
  have "entry_ok (next_message_id st + n) (next_ack st) e" if "map_of (subscriptions st) name = Some e" for name e
    by (rule messages_ok_mono [OF conjunct1 [OF broker_ok_entry [OF ok that]]]) auto
  moreover have "topics_ok (next_message_id st + n) (topics st)"
    using ok unfolding broker_ok_def topics_ok_def by (metis trans_less_add1)
  ultimately show ?thesis using ok by (simp add: broker_ok_def subscriptions_ok_def)
qed

lemma forward_dead_letter_ok:
  assumes "broker_ok st"
  shows "broker_ok (forward_dead_letter env clock letter st)"
    "owed name m st \<Longrightarrow> owed name m (forward_dead_letter env clock letter st)"
proof -
  let ?st = "st\<lparr>next_message_id := next_message_id st + 1\<rparr>"
  have new: "stored_id (dead_letter_copy env clock (next_message_id st) letter) = next_message_id st"
    by (cases letter) (simp add: dead_letter_copy_def Let_def)
  have "broker_ok (deliver (now_instant clock) topic [dead_letter_copy env clock (next_message_id st) letter] ?st)" for topic
    by (rule deliver_ok [OF broker_ok_more [OF assms]]) (simp add: new)
  then show "broker_ok (forward_dead_letter env clock letter st)"
    using assms by (simp add: forward_dead_letter_def split: option.split)
  assume owed: "owed name m st"
  then have "owed name m (deliver (now_instant clock) topic [dead_letter_copy env clock (next_message_id st) letter] ?st)" for topic
    by (intro deliver_owed owed_same [OF owed]) (use new owed_below [OF assms owed] in auto)
  then show "owed name m (forward_dead_letter env clock letter st)"
    using owed by (simp add: forward_dead_letter_def split: option.split)
qed

lemma forward_dead_letters_ok:
  assumes "broker_ok st"
  shows "broker_ok (forward_dead_letters env clock ls st)"
    "owed name m st \<Longrightarrow> owed name m (forward_dead_letters env clock ls st)"
proof -
  have "broker_ok (forward_dead_letters env clock ls st)
      \<and> (owed name m st \<longrightarrow> owed name m (forward_dead_letters env clock ls st))"
    using assms unfolding forward_dead_letters_def
    by (induction ls arbitrary: st) (auto simp: forward_dead_letter_ok)
  then show "broker_ok (forward_dead_letters env clock ls st)"
    "owed name m st \<Longrightarrow> owed name m (forward_dead_letters env clock ls st)" by blast+
qed

end
