(* ===== verification/Pubsub_Ops.thy ===== *)
theory Pubsub_Ops
  imports Pubsub_Steps
begin

text \<open>Operation by operation: the invariant and the messages that are still owed.\<close>

definition safe_step :: "(string \<Rightarrow> StoredMessage \<Rightarrow> bool) \<Rightarrow> 'avro BrokerState \<Rightarrow> 'avro BrokerState \<Rightarrow> bool" where
  "safe_step settled st st' =
     (broker_ok st' \<and> (\<forall>name m. owed name m st \<longrightarrow> \<not> settled name m \<longrightarrow> owed name m st'))"

abbreviation op_safe :: "'avro Env \<Rightarrow> Clock \<Rightarrow> Op \<Rightarrow> 'avro BrokerState \<Rightarrow> bool" where
  "op_safe env clock op st \<equiv>
     safe_step (\<lambda>name m. settles clock op name m st) st (apply_op env clock op st)"

lemma safe_refl: "broker_ok st \<Longrightarrow> safe_step X st st"
  by (simp add: safe_step_def)

lemma safe_same:
  "broker_ok st \<Longrightarrow> subscriptions st' = subscriptions st \<Longrightarrow> topics_ok (next_message_id st) (topics st') \<Longrightarrow>
    next_message_id st' = next_message_id st \<Longrightarrow> next_ack st' = next_ack st \<Longrightarrow> safe_step X st st'"
  by (auto simp: safe_step_def intro: broker_ok_topics owed_same)

lemma safe_put:
  assumes "broker_ok st" "subscriptions st' = om_insert name e (subscriptions st)" "topics st' = topics st"
    "next_message_id st' = next_message_id st" "next_ack st \<le> next_ack st'"
    "entry_ok (next_message_id st) (next_ack st') e" "sub_name (subscription e) = name"
    "\<And>m. owed name m st \<Longrightarrow> \<not> X name m \<Longrightarrow> owes m (messages e)"
  shows "safe_step X st st'"
  unfolding safe_step_def using broker_ok_put [OF assms(1-7)] owed_put [OF _ assms(2)] assms(8) by blast

lemma broker_ok_topic_messages: "broker_ok st \<Longrightarrow> topics_ok (next_message_id st) (topics st)"
  by (simp add: broker_ok_def)

lemma topics_ok_insert:
  "topics_ok ids ts \<Longrightarrow> (\<And>m. m \<in> set (topic_messages entry) \<Longrightarrow> stored_id m < ids) \<Longrightarrow> topics_ok ids (om_insert n entry ts)"
  by (auto simp: topics_ok_def om_simps)

lemma topics_ok_get: "topics_ok ids ts \<Longrightarrow> map_of ts n = Some entry \<Longrightarrow> m \<in> set (topic_messages entry) \<Longrightarrow> stored_id m < ids"
  by (auto simp: topics_ok_def)

section \<open>Topics and schemas\<close>

lemma create_topic_safe:
  assumes "broker_ok st" "create_topic t st = Inr (st', r)"
  shows "safe_step X st st'"
proof -
  obtain entry where "st' = st\<lparr>next_generation := next_generation st + 1,
      topics := om_insert (topic_name t) entry (topics st)\<rparr>" "topic_messages entry = []"
    using assms(2) by (auto simp: create_topic_def split: if_splits prod.splits)
  then show ?thesis using assms(1) broker_ok_topic_messages by (intro safe_same) (auto intro!: topics_ok_insert)
qed

lemma update_topic_safe:
  assumes "broker_ok st" "update_topic t paths st = Inr (st', r)"
  shows "safe_step X st st'"
proof -
  obtain n old entry where "st' = st\<lparr>topics := om_insert n entry (topics st)\<rparr>" "map_of (topics st) n = Some old"
    "topic_messages entry = topic_messages old"
    using assms(2) by (auto simp: update_topic_def Let_def split: if_splits prod.splits option.splits)
  then show ?thesis using assms(1) broker_ok_topic_messages [OF assms(1)]
    by (intro safe_same) (auto intro!: topics_ok_insert dest: topics_ok_get)
qed

lemma delete_topic_safe:
  assumes "broker_ok st" "delete_topic n st = Inr st'"
  shows "safe_step X st st'"
proof -
  obtain entry where entry: "map_of (topics st) n = Some entry"
    using assms(2) by (auto simp: delete_topic_def split: option.splits)
  let ?f = "\<lambda>s. if topic_generation s = generation entry
    then s\<lparr>topic_deleted := True, subscription := (subscription s)\<lparr>sub_topic := DELETED_TOPIC\<rparr>\<rparr> else s"
  have st': "subscriptions st' = map (\<lambda>(n, s). (n, ?f s)) (subscriptions st)" "topics st' = om_remove n (topics st)"
    "next_message_id st' = next_message_id st" "next_ack st' = next_ack st"
    using assms(2) entry by (auto simp: delete_topic_def)
  have rel: "subs_rel (\<lambda>e e'. e' = ?f e) (subscriptions st) (subscriptions st')"
    unfolding st' by (rule subs_rel_map) simp
  have push: "is_push (?f e) = is_push e" for e by (simp add: is_push_def)
  have "subscriptions_ok (next_message_id st) (next_ack st) (subscriptions st')"
    by (rule subscriptions_ok_rel [OF _ rel]) (use assms(1) push in \<open>auto simp: broker_ok_def\<close>)
  moreover have "topics_ok (next_message_id st) (topics st')"
    using broker_ok_topic_messages [OF assms(1)] by (auto simp: st' topics_ok_def om_simps)
  moreover have "owed name m st'" if "owed name m st" for name m
    using that rel by (rule owed_rel) auto
  ultimately show ?thesis by (simp add: safe_step_def broker_ok_def st')
qed

lemma create_schema_safe:
  "broker_ok st \<Longrightarrow> create_schema env clock p n s st = Inr (st', r) \<Longrightarrow> safe_step X st st'"
  by (rule safe_same) (auto simp: create_schema_def new_revision_def Let_def broker_ok_def split: if_splits)

lemma commit_schema_safe:
  "broker_ok st \<Longrightarrow> commit_schema env clock n s st = Inr (st', r) \<Longrightarrow> safe_step X st st'"
  by (rule safe_same)
    (auto simp: commit_schema_def new_revision_def Let_def broker_ok_def split: if_splits option.splits prod.splits)

lemma rollback_schema_safe:
  "broker_ok st \<Longrightarrow> rollback_schema env clock n w st = Inr (st', r) \<Longrightarrow> safe_step X st st'"
  by (rule safe_same)
    (auto simp: rollback_schema_def new_revision_def Let_def broker_ok_def split: if_splits option.splits prod.splits)

lemma delete_schema_revision_safe:
  "broker_ok st \<Longrightarrow> delete_schema_revision n st = Inr (st', r) \<Longrightarrow> safe_step X st st'"
  by (rule safe_same)
    (auto simp: delete_schema_revision_def Let_def broker_ok_def split: if_splits option.splits prod.splits)

lemma delete_schema_safe:
  assumes "broker_ok st" "delete_schema n st = Inr st'"
  shows "safe_step X (st :: 'avro BrokerState) st'"
proof -
  let ?f = "forget_schema (fst (split_revision n))"
  have "topic_messages (?f t) = topic_messages t" for t :: "'avro TopicEntry" by (simp add: forget_schema_def split: option.split)
  moreover have st': "topics st' = map (\<lambda>(n, t). (n, ?f t)) (topics st)" "subscriptions st' = subscriptions st"
    "next_message_id st' = next_message_id st" "next_ack st' = next_ack st"
    using assms(2) by (auto simp: delete_schema_def Let_def split: if_splits prod.splits)
  ultimately have "topics_ok (next_message_id st) (topics st')"
    using broker_ok_topic_messages [OF assms(1)] by (auto simp: topics_ok_def map_of_map)
  then show ?thesis using st' assms(1) by (intro safe_same) auto
qed

section \<open>Publishing and subscriptions\<close>

lemma store_messages_range:
  "m \<in> set (store_messages clock n ms) \<Longrightarrow> n \<le> stored_id m \<and> stored_id m < n + length ms"
proof (induction ms arbitrary: n)
  case (Cons a ms)
  show ?case
  proof (cases "m \<in> set (store_messages clock (n + 1) ms)")
    case True
    then show ?thesis using Cons.IH [OF True] by simp
  qed (use Cons.prems in auto)
qed simp

lemma publish_safe:
  assumes "broker_ok st" "publish env clock n ms st = Inr (st', r)"
  shows "safe_step X st st'"
proof -
  obtain prepared where st': "st' = deliver (now_instant clock) n (store_messages clock (next_message_id st) prepared)
      (st\<lparr>next_message_id := next_message_id st + length prepared\<rparr>)"
    using assms(2) by (auto simp: publish_def Let_def split: option.splits if_splits)
  let ?st = "st\<lparr>next_message_id := next_message_id st + length prepared\<rparr>"
  have "broker_ok st'" unfolding st'
    by (rule deliver_ok [OF broker_ok_more [OF assms(1)]]) (use store_messages_range in force)
  moreover have "owed name m st'" if owed: "owed name m st" for name m
    unfolding st' by (rule deliver_owed [OF owed_same [OF owed]])
      (use store_messages_range owed_below [OF assms(1) owed] in \<open>force+\<close>)
  ultimately show ?thesis by (simp add: safe_step_def)
qed

lemma validated_name: "validated_subscription env st s = Inr s' \<Longrightarrow> sub_name s' = sub_name s"
  by (auto simp: validated_subscription_def validate_policies_def Let_def split: if_splits option.splits)

lemma seed_ok:
  assumes "entry_ok ids acks e" "\<And>m. m \<in> set (topic_messages topic) \<Longrightarrow> stored_id m < ids"
  shows "entry_ok ids acks (seed clock topic e)"
proof -
  have "entry_ok ids acks (fold (track (now_instant clock)) (filter P (topic_messages topic)) e)" for P
    by (rule tracks_ok [OF assms(1)]) (use assms(2) in auto)
  then show "entry_ok ids acks (seed clock topic e)"
    using assms(1) unfolding seed_def by (cases "topic_retention (entry_topic topic)") (simp_all del: tracks_keep(2))
qed

lemma seed_subscription [simp]: "subscription (seed clock topic e) = subscription e"
  by (simp add: seed_def split: option.split)

lemma create_subscription_safe:
  assumes "broker_ok st" "create_subscription env clock s st = Inr (st', r)"
  shows "safe_step X st st'"
proof -
  have new: "map_of (subscriptions st) (sub_name s) = None"
    by (rule ccontr) (use assms(2) in \<open>auto simp: create_subscription_def split: option.splits\<close>)
  obtain topic where topic: "map_of (topics st) (sub_topic s) = Some topic"
    using assms(2) by (cases "map_of (topics st) (sub_topic s)") (auto simp: create_subscription_def)
  obtain v f where v: "validated_subscription env st s = Inr v"
    and st': "st' = st\<lparr>subscriptions := om_insert (sub_name v) (let e = seed clock topic
        \<lparr>subscription = v, topic_generation = generation topic, original_topic = sub_topic v,
         topic_deleted = False, entry_filter = f, messages = []\<rparr>
      in if is_push e then start_pushing (now_instant clock) e else e) (subscriptions st)\<rparr>"
    using assms(2) new topic by (auto simp: create_subscription_def Let_def)
  define e where "e = seed clock topic \<lparr>subscription = v, topic_generation = generation topic,
    original_topic = sub_topic v, topic_deleted = False, entry_filter = f, messages = []\<rparr>"
  have seeded: "entry_ok (next_message_id st) (next_ack st) e" unfolding e_def
    by (rule seed_ok) (use topics_ok_get [OF broker_ok_topic_messages [OF assms(1)] topic] in auto)
  have sub: "subscription e = v" by (simp add: e_def)
  let ?e = "if is_push e then start_pushing (now_instant clock) e else e"
  have ok: "entry_ok (next_message_id st) (next_ack st) ?e"
    using seeded start_pushing_ok [OF messages_ok_mono [OF seeded order_refl order_refl, of True True]] by auto
  have "subscriptions st' = om_insert (sub_name s) ?e (subscriptions st)"
    using st' validated_name [OF v] by (simp add: e_def Let_def)
  then show ?thesis
    by (rule safe_put [OF assms(1)])
      (use ok sub validated_name [OF v] new in \<open>auto simp: st' owed_def\<close>)
qed

lemma mask_name: "sub_name (fold (apply_mask_path u) paths s) = sub_name s"
  by (induction paths arbitrary: s) (auto simp: apply_mask_path_def)

lemma update_subscription_safe:
  assumes "broker_ok st" "update_subscription env clock s paths st = Inr (st', r)"
  shows "safe_step X st st'"
proof -
  obtain u old v entry where old: "map_of (subscriptions st) (sub_name u) = Some old"
    and v: "validated_subscription env st (fold (apply_mask_path u) paths (subscription old)) = Inr v"
    and entry: "map_of (subscriptions st) (sub_name v) = Some entry"
    and st': "st' = st\<lparr>subscriptions := om_insert (sub_name v)
      (switch_push (now_instant clock) (is_push entry) (entry\<lparr>subscription := v\<rparr>)) (subscriptions st)\<rparr>"
    using assms(2) by (auto simp: update_subscription_def Let_def split: option.splits if_splits list.splits)
  note ok = switch_push_ok [OF conjunct1 [OF broker_ok_entry [OF assms(1) entry]], where s = v and now = "now_instant clock"]
  show ?thesis
    by (rule safe_put [OF assms(1), where name = "sub_name v"
          and e = "switch_push (now_instant clock) (is_push entry) (entry\<lparr>subscription := v\<rparr>)"])
      (use ok entry in \<open>auto simp: st' owed_entry simp del: is_push_subscription\<close>)
qed

lemma modify_push_config_safe:
  assumes "broker_ok st" "modify_push_config env clock n c st = Inr st'"
  shows "safe_step X st st'"
proof -
  obtain entry config where entry: "map_of (subscriptions st) n = Some entry"
    and st': "st' = st\<lparr>subscriptions := om_insert n (switch_push (now_instant clock) (is_push entry)
      (entry\<lparr>subscription := (subscription entry)\<lparr>push_config := Some config\<rparr>\<rparr>)) (subscriptions st)\<rparr>"
    using assms(2) by (auto simp: modify_push_config_def Let_def split: option.splits)
  let ?s = "(subscription entry)\<lparr>push_config := Some config\<rparr>"
  note old = broker_ok_entry [OF assms(1) entry]
  note ok = switch_push_ok [OF conjunct1 [OF old], where s = ?s and now = "now_instant clock"]
  show ?thesis
    by (rule safe_put [OF assms(1), where name = n
          and e = "switch_push (now_instant clock) (is_push entry) (entry\<lparr>subscription := ?s\<rparr>)"])
      (use ok old entry in \<open>auto simp: st' owed_entry simp del: is_push_subscription\<close>)
qed

lemma remove_subscription_safe:
  assumes "broker_ok st" "st' = st\<lparr>subscriptions := om_remove n (subscriptions st)\<rparr>" "\<And>m. owed n m st \<Longrightarrow> X n m"
  shows "safe_step X st st'"
proof -
  have "broker_ok st'" using assms(1) by (auto simp: broker_ok_def subscriptions_ok_def om_simps assms(2))
  moreover have "owed name m st'" if "owed name m st" "\<not> X name m" for name m
    using that assms(3) by (cases "name = n") (auto simp: owed_entry om_simps assms(2))
  ultimately show ?thesis by (simp add: safe_step_def)
qed

section \<open>Pulling and acknowledging\<close>

lemma entry_om_ok: "messages_ok ids acks a p ms \<Longrightarrow> om_ok ms"
  by (simp add: messages_ok_def)

text \<open>What a pull does, with the leases it grants spelled out.\<close>

definition pulled :: "SubscriptionEntry \<Rightarrow> int \<Rightarrow> nat \<Rightarrow> (nat \<times> nat) list" where
  "pulled e limit first = enumerate first (take (nat limit) (deliverable e))"

lemma pull_exact:
  assumes "broker_ok st" "pull clock n limit st = Inr (st', rs)"
  shows "\<exists>e. map_of (subscriptions st) n = Some e \<and> \<not> detached (subscription e)
    \<and> rs = map (received_of e) (pulled e limit (next_ack st))
    \<and> st' = st\<lparr>subscriptions := om_insert n
          (fold (lease_one (lease_deadline e (now_instant clock))) (pulled e limit (next_ack st)) e) (subscriptions st),
        next_ack := next_ack st + length rs\<rparr>"
proof -
  obtain e where e: "map_of (subscriptions st) n = Some e" "\<not> detached (subscription e)"
    using assms(2) by (auto simp: pull_def split: option.splits if_splits)
  note om = entry_om_ok [OF conjunct1 [OF broker_ok_entry [OF assms(1) e(1)]]]
  show ?thesis
    using assms(2) e by (auto simp: pull_def take_messages_exact [OF om] pulled_def Let_def)
qed

lemma pulled_ok:
  assumes "entry_ok ids acks e"
  shows "entry_ok ids (acks + length (pulled e limit acks)) (fold (lease_one d) (pulled e limit acks) e)"
  using lease_fold_ok [OF assms, of "take (nat limit) (deliverable e)" d] by (simp add: pulled_def)

lemma pull_safe:
  assumes "broker_ok st" "pull clock n limit st = Inr (st', rs)"
  shows "safe_step X st st'"
proof -
  obtain e where e: "map_of (subscriptions st) n = Some e" "rs = map (received_of e) (pulled e limit (next_ack st))"
    and st': "st' = st\<lparr>subscriptions := om_insert n
          (fold (lease_one (lease_deadline e (now_instant clock))) (pulled e limit (next_ack st)) e) (subscriptions st),
        next_ack := next_ack st + length rs\<rparr>"
    using pull_exact [OF assms] by blast
  note old = broker_ok_entry [OF assms(1) e(1)]
  let ?e = "fold (lease_one (lease_deadline e (now_instant clock))) (pulled e limit (next_ack st)) e"
  have ok: "entry_ok (next_message_id st) (next_ack st + length rs) ?e"
    using pulled_ok [OF conjunct1 [OF old], of limit] e(2) by (simp only: length_map)
  show ?thesis
    by (rule safe_put [OF assms(1), where name = n and e = ?e])
      (use ok old e in \<open>auto simp: st' owed_entry owes_lease_fold simp del: is_push_subscription lease_fold_keeps(2)\<close>)
qed

lemma acknowledge_safe:
  assumes "broker_ok st"
  shows "op_safe env clock (Acknowledge n acks) st"
proof (cases "snd (acknowledge n acks st) = st")
  case False
  then obtain e parsed e' stale where e: "map_of (subscriptions st) n = Some e" "parse_ack_ids n acks = Inr parsed"
    "acknowledge_leases parsed e False = (e', stale)"
    and st': "snd (acknowledge n acks st) = st\<lparr>subscriptions := om_insert n e' (subscriptions st)\<rparr>"
    by (auto simp: acknowledge_def Let_def split: sum.splits option.splits if_splits prod.splits)
  note old = broker_ok_entry [OF assms e(1)]
  note ok = acknowledge_leases_ok [OF conjunct1 [OF old] e(3)]
  have kept: "owes m (messages e')" if "owed n m st" "\<not> settles clock (Acknowledge n acks) n m st" for m
    by (rule ok(3)) (use that e in \<open>auto simp: owed_def settles_def names_lease_def list_ex_iff\<close>)
  show ?thesis
    by (rule safe_put [OF assms, where name = n and e = e']) (use ok(1,2) old kept st' in auto)
qed (simp add: safe_refl assms)

lemma modify_ack_deadline_safe:
  assumes "broker_ok st" "modify_ack_deadline env clock n acks secs st = Inr st'"
  shows "safe_step (\<lambda>name m. settles clock (ModifyAckDeadline n acks secs) name m st) st st'"
proof -
  obtain e parsed where found: "map_of (subscriptions st) n = Some e" "parse_ack_ids n acks = Inr parsed"
    using assms(2) by (auto simp: modify_ack_deadline_def split: option.splits if_splits)
  obtain e' fw sq where change: "modify_leases secs (now_instant clock) parsed (e, [], next_seq st) = (e', fw, sq)"
    by (cases "modify_leases secs (now_instant clock) parsed (e, [], next_seq st)")
  note e = found change
  have st': "st' = forward_dead_letters env clock fw
      (st\<lparr>subscriptions := om_insert n e' (subscriptions st), next_seq := sq\<rparr>)"
    using assms(2) e by (auto simp: modify_ack_deadline_def split: if_splits)
  note old = broker_ok_entry [OF assms(1) e(1)]
  note ok = change_leases_ok [OF conjunct1 [OF old] e(3) [unfolded modify_leases_change]]
  have kept: "owes m (messages e')" if "owed n m st" "\<not> settles clock (ModifyAckDeadline n acks secs) n m st" for m
    by (rule modify_leases_keeps [OF conjunct1 [OF old] e(3)])
      (use that e in \<open>auto simp: owed_def settles_def names_lease_def list_ex_iff\<close>)
  have "safe_step (\<lambda>name m. settles clock (ModifyAckDeadline n acks secs) name m st) st
      (st\<lparr>subscriptions := om_insert n e' (subscriptions st), next_seq := sq\<rparr>)"
    by (rule safe_put [OF assms(1), where name = n and e = e']) (use ok old kept in auto)
  then show ?thesis unfolding safe_step_def st' by (auto intro: forward_dead_letters_ok)
qed

section \<open>The timer and pushes\<close>

lemma tick_subscriptions_rel:
  "tick_subscriptions env now flights subs fw sq jobs = (subs', fw', sq', jobs') \<Longrightarrow>
    subs_rel (\<lambda>e e'. \<exists>fw sq fw' sq'. expire now (e, fw, sq) = (e', fw', sq')) subs subs'"
proof (induction subs arbitrary: fw sq jobs subs' fw' sq' jobs')
  case (Cons p subs)
  obtain name e where p: "p = (name, e)" by (cases p)
  obtain e1 fw1 sq1 where one: "expire now (e, fw, sq) = (e1, fw1, sq1)" by (cases "expire now (e, fw, sq)")
  obtain rest fw2 sq2 jobs2 where
    rest: "tick_subscriptions env now flights subs fw1 sq1 (jobs @ push_jobs env now flights name e1) = (rest, fw2, sq2, jobs2)"
    by (cases "tick_subscriptions env now flights subs fw1 sq1 (jobs @ push_jobs env now flights name e1)")
  have "subs' = (name, e1) # rest" using Cons.prems p one rest by simp
  then show ?case using Cons.IH [OF rest] one p by (auto simp: subs_rel_def)
qed (simp add: subs_rel_def)

lemma in_flight_irrelevant [simp]:
  "broker_ok (st\<lparr>in_flight := f\<rparr>) = broker_ok st" "owed name m (st\<lparr>in_flight := f\<rparr>) = owed name m st"
  by (simp_all add: broker_ok_def owed_def)

lemma tick_safe:
  assumes "broker_ok st"
  shows "op_safe env clock Tick st"
proof -
  let ?now = "now_instant clock"
  obtain subs fw sq jobs where
    tick: "tick_subscriptions env ?now (in_flight st) (subscriptions st) [] (next_seq st) [] = (subs, fw, sq, jobs)"
    by (cases "tick_subscriptions env ?now (in_flight st) (subscriptions st) [] (next_seq st) []")
  let ?st = "st\<lparr>subscriptions := subs, next_seq := sq\<rparr>"
  note rel = tick_subscriptions_rel [OF tick]
  have "subscriptions_ok (next_message_id st) (next_ack st) subs"
  proof (rule subscriptions_ok_rel [OF _ rel])
    show "subscriptions_ok (next_message_id st) (next_ack st) (subscriptions st)" using assms by (simp add: broker_ok_def)
    fix e e' assume "\<exists>fw sq fw' sq'. expire ?now (e, fw, sq) = (e', fw', sq')" "entry_ok (next_message_id st) (next_ack st) e"
    then show "entry_ok (next_message_id st) (next_ack st) e' \<and> sub_name (subscription e') = sub_name (subscription e)"
      unfolding expire_change using change_leases_ok by metis
  qed
  then have ok: "broker_ok ?st" using assms by (simp add: broker_ok_def)
  have kept: "owed name m ?st" if owed: "owed name m st" and keep: "\<not> settles clock Tick name m st" for name m
  proof (rule owed_rel [OF owed, of _ ?st])
    show "subs_rel (\<lambda>e e'. \<exists>fw sq fw' sq'. expire ?now (e, fw, sq) = (e', fw', sq')) (subscriptions st) (subscriptions ?st)"
      using rel by simp
    fix e e' assume e: "map_of (subscriptions st) name = Some e" "owes m (messages e)"
      and "\<exists>fw sq fw' sq'. expire ?now (e, fw, sq) = (e', fw', sq')"
    then obtain fw sq fw' sq' where "expire ?now (e, fw, sq) = (e', fw', sq')" by blast
    from expire_keeps [OF conjunct1 [OF broker_ok_entry [OF assms e(1)]] this e(2)]
    show "owes m (messages e')" using keep e(1) by (simp add: settles_def)
  qed
  have "broker_ok (apply_op env clock Tick st)"
    using forward_dead_letters_ok(1) [OF ok] tick
    by (simp add: broker_tick_def Let_def)
  moreover have "owed name m (apply_op env clock Tick st)" if "owed name m st" "\<not> settles clock Tick name m st" for name m
    using forward_dead_letters_ok(2) [OF ok kept [OF that]] tick
    by (simp add: broker_tick_def Let_def)
  ultimately show ?thesis by (simp add: safe_step_def)
qed

lemma push_recorded_safe:
  assumes "broker_ok st"
  shows "op_safe env clock (PushRecorded job delivered) st"
proof (cases "push_recorded clock job delivered st = st")
  case False
  let ?n = "job_subscription job"
  let ?k = "job_message_id job"
  obtain e t where e: "map_of (subscriptions st) ?n = Some e" "map_of (messages e) ?k = Some t" "is_pushing (tracked_state t)"
    using False by (auto simp: push_recorded_def split: option.splits if_splits)
  let ?t = "t\<lparr>tracked_state := Pushing (now_instant clock + PUSH_RETRY)\<rparr>"
  let ?e = "if delivered then acknowledge_message ?k e else e\<lparr>messages := om_insert ?k ?t (messages e)\<rparr>"
  note old = broker_ok_entry [OF assms e(1)]
  have t: "tracked_ok (next_message_id st) (next_ack st) (\<not> is_push e) (is_push e) ?k t"
    by (rule messages_ok_get [OF conjunct1 [OF old] e(2)])
  have "entry_ok (next_message_id st) (next_ack st) (e\<lparr>messages := om_insert ?k ?t (messages e)\<rparr>)"
    using messages_ok_insert [OF conjunct1 [OF old], of ?k ?t] t e(3)
    by (cases "tracked_state t") (auto simp: tracked_ok_def)
  then have ok: "entry_ok (next_message_id st) (next_ack st) ?e" "subscription ?e = subscription e"
    using acknowledge_message_ok [OF conjunct1 [OF old], where k = ?k] by simp_all
  have kept: "owes m (messages ?e)" if "owed ?n m st" "\<not> settles clock (PushRecorded job delivered) ?n m st" for m
    using that e acknowledge_message_ok(4) [OF conjunct1 [OF old], where k = ?k and m = m]
    by (auto simp: owed_def settles_def owes_def om_simps split: if_splits)
  show ?thesis
    by (rule safe_put [OF assms, where name = ?n and e = ?e])
      (use ok old kept e in \<open>auto simp: push_recorded_def\<close>)
qed (simp add: safe_refl assms)

section \<open>Seeking, snapshots and draining\<close>

lemma seek_safe:
  assumes "broker_ok st" "map_of (subscriptions st) n = Some e"
    "st' = st\<lparr>subscriptions := om_insert n (let e = map_tracked f e
       in if is_push e then start_pushing now e else e) (subscriptions st)\<rparr>"
    "\<And>t. tracked_message (f t) = tracked_message t"
    "\<And>t. tracked_state (f t) = tracked_state t \<or> tracked_state (f t) = Available \<or> tracked_state (f t) = Acked"
    "\<And>t m. tracked_message t = m \<Longrightarrow> tracked_state t \<noteq> Acked \<Longrightarrow> \<not> X n m \<Longrightarrow> tracked_state (f t) \<noteq> Acked"
  shows "safe_step X st st'"
proof -
  note old = broker_ok_entry [OF assms(1,2)]
  let ?e = "if is_push e then start_pushing now (map_tracked f e) else map_tracked f e"
  have mapped: "messages_ok (next_message_id st) (next_ack st) True (is_push e) (messages (map_tracked f e))"
  proof (rule messages_ok_map [OF conjunct1 [OF old]])
    fix k t assume "tracked_ok (next_message_id st) (next_ack st) (\<not> is_push e) (is_push e) k t"
    then show "tracked_ok (next_message_id st) (next_ack st) True (is_push e) k (f t)"
      using assms(4,5) [of t] by (auto simp: tracked_ok_def split: MessageState.splits)
  next
    fix t assume "lease_of (tracked_state (f t)) \<noteq> None"
    then show "lease_of (tracked_state (f t)) = lease_of (tracked_state t)" using assms(5) [of t] by auto
  qed
  then have ok: "entry_ok (next_message_id st) (next_ack st) ?e" using start_pushing_ok [OF mapped] by auto
  have kept: "owes m (messages ?e)" if "owed n m st" "\<not> X n m" for m
  proof -
    have "owes m (messages e)" using that(1) assms(2) by (simp add: owed_def)
    then have "owes m (messages (map_tracked f e))"
      by (rule owes_map_tracked) (use assms(4,6) that(2) in auto)
    then show ?thesis by (simp add: owes_pushing)
  qed
  show ?thesis
    by (rule safe_put [OF assms(1), where name = n and e = ?e])
      (use ok old kept in \<open>auto simp: assms(3) Let_def\<close>)
qed

lemma seek_to_time_safe:
  assumes "broker_ok st" "seek_to_time clock n time st = Inr st'"
  shows "safe_step (\<lambda>name m. settles clock (SeekToTime n time) name m st) st st'"
proof -
  obtain e where e: "map_of (subscriptions st) n = Some e"
    using assms(2) by (auto simp: seek_to_time_def split: option.splits)
  show ?thesis
    by (rule seek_safe [OF assms(1) e, where now = "now_instant clock"
          and f = "seek_state (seconds (nat (stamp_seconds time)) + nat (stamp_nanos time))
            (retain_acked_messages (subscription e))"])
      (use assms(2) e in \<open>auto simp: seek_to_time_def Let_def seek_state_def settles_def\<close>)
qed

lemma seek_to_snapshot_safe:
  assumes "broker_ok st" "seek_to_snapshot clock n snap st = Inr st'"
  shows "safe_step (\<lambda>name m. settles clock (SeekToSnapshot n snap) name m st) st st'"
proof -
  obtain e s where e: "map_of (subscriptions st) n = Some e" "map_of (snapshots st) snap = Some s"
    using assms(2) by (auto simp: seek_to_snapshot_def split: option.splits)
  show ?thesis
    by (rule seek_safe [OF assms(1) e(1), where now = "now_instant clock"
          and f = "seek_snapshot_state (unacked s) (created s)"])
      (use assms(2) e in \<open>auto simp: seek_to_snapshot_def Let_def seek_snapshot_state_def settles_def split: if_splits\<close>)
qed

lemma drain_safe:
  assumes "broker_ok st"
  shows "op_safe env clock (Drain n) st"
proof (cases "map_of (subscriptions st) n")
  case (Some e)
  show ?thesis
    by (rule safe_put [OF assms, where name = n and e = "e\<lparr>messages := []\<rparr>"])
      (use Some broker_ok_entry [OF assms Some] in \<open>auto simp: drain_def settles_def\<close>)
qed (simp add: drain_def safe_refl assms)

section \<open>All operations\<close>

lemma safe_after:
  assumes "broker_ok st"
  shows "(\<And>st'. r = Inr st' \<Longrightarrow> safe_step X st st') \<Longrightarrow> safe_step X st (state_after st r)"
    "(\<And>st' y. q = Inr (st', y) \<Longrightarrow> safe_step X st st') \<Longrightarrow> safe_step X st (first_after st q)"
  using safe_refl [OF assms] by (auto simp: state_after_def first_after_def split: sum.split prod.split)

lemma apply_op_safe: "broker_ok st \<Longrightarrow> op_safe env clock op st"
proof (cases op)
  case (DeleteSubscription n)
  then show "broker_ok st \<Longrightarrow> ?thesis"
    using remove_subscription_safe [of st _ n]
    by (auto simp: delete_subscription_def settles_def owed_def safe_refl split: option.splits if_splits
        intro!: safe_after)
next
  case (CreateSnapshot n s)
  then show "broker_ok st \<Longrightarrow> ?thesis"
    by (auto simp: create_snapshot_def Let_def broker_ok_def split: option.splits if_splits
        intro!: safe_after safe_same)
next
  case (DeleteSnapshot n)
  then show "broker_ok st \<Longrightarrow> ?thesis"
    by (auto simp: delete_snapshot_def broker_ok_def split: option.splits if_splits intro!: safe_after safe_same)
next
  case (PushLanded job)
  then show "broker_ok st \<Longrightarrow> ?thesis"
    by (auto simp: push_landed_def broker_ok_def intro!: safe_same)
next
  case (EnsureTopic n)
  then show "broker_ok st \<Longrightarrow> ?thesis"
    by (auto simp: ensure_topic_def safe_refl split: sum.split prod.split intro: create_topic_safe)
qed (auto simp del: apply_op.simps(10,12,14,24) intro: acknowledge_safe tick_safe push_recorded_safe drain_safe
    intro!: safe_after elim: create_topic_safe update_topic_safe delete_topic_safe publish_safe create_subscription_safe
      update_subscription_safe modify_push_config_safe pull_safe modify_ack_deadline_safe seek_to_time_safe
      seek_to_snapshot_safe create_schema_safe commit_schema_safe rollback_schema_safe delete_schema_revision_safe
      delete_schema_safe)

lemma reachable_ok: "broker_reachable env st \<Longrightarrow> broker_ok st"
proof (induction rule: broker_reachable.induct)
  case (start sequence)
  show ?case by (simp add: Broker_new_def broker_ok_def subscriptions_ok_def topics_ok_def)
next
  case (step st clock op)
  then show ?case using apply_op_safe [of st clock op env] by (simp add: safe_step_def)
qed

lemma run_keeps_owed:
  "broker_ok st \<Longrightarrow> owed name m st \<Longrightarrow> never_settled env ops name m st \<Longrightarrow>
    broker_ok (run_ops env ops st) \<and> owed name m (run_ops env ops st)"
proof (induction ops arbitrary: st)
  case (Cons p ops)
  obtain clock op where p: "p = (clock, op)" by (cases p)
  have "broker_ok (apply_op env clock op st)" "owed name m (apply_op env clock op st)"
    using apply_op_safe [OF Cons.prems(1), of clock op env] Cons.prems(2,3) by (auto simp: safe_step_def p)
  with Cons.IH [OF this] Cons.prems(3) show ?case by (simp add: p run_ops_def)
qed (simp add: run_ops_def)

end
