(* ===== verification/Pubsub_Filter.thy ===== *)
theory Pubsub_Filter
  imports Pubsub_Names
begin

text \<open>
  The filter parser of \<open>pubsub-front/src/filter.rs\<close> reads at least one token per call, so the fuel
  of its model is enough: more fuel never changes what it returns, and running out of fuel is
  never the reason of a refused filter.
\<close>

section \<open>Every parser consumes\<close>

definition consumes :: "Parser \<Rightarrow> bool" where
  "consumes p = (\<forall>ts f rest. p ts = Some (f, rest) \<longrightarrow> length rest < length ts)"

lemma keyword_shorter: "keyword w ts = Some rest \<Longrightarrow> length ts = Suc (length rest)"
  by (induction w ts rule: keyword.induct) (auto split: if_splits)

lemma symbol_shorter: "symbol s ts = Some rest \<Longrightarrow> length ts = Suc (length rest)"
  by (induction s ts rule: symbol.induct) (auto split: if_splits)

lemma filter_key_shorter: "filter_key ts = Some (k, rest) \<Longrightarrow> length ts = Suc (length rest)"
  by (induction ts rule: filter_key.induct) auto

lemma text_then_shorter: "text_then build ts = Some (f, rest) \<Longrightarrow> length ts = Suc (length rest)"
  by (induction build ts rule: text_then.induct) auto

lemmas shorter = keyword_shorter symbol_shorter filter_key_shorter text_then_shorter

lemma attribute_path_shorter: "attribute_path ts = Some (k, rest) \<Longrightarrow> length rest < length ts"
  by (auto simp: attribute_path_def split: option.splits dest!: shorter)

lemma has_prefix_shorter: "has_prefix_filter ts = Some (f, rest) \<Longrightarrow> length rest < length ts"
  by (fastforce simp: has_prefix_filter_def split: option.splits prod.splits dest!: shorter attribute_path_shorter)

lemma attribute_filter_shorter: "attribute_filter ts = Some (f, rest) \<Longrightarrow> length rest < length ts"
  by (fastforce simp: attribute_filter_def split: option.splits prod.splits list.splits Token.splits if_splits
      dest!: shorter)

lemma primary_consumes: "consumes nested \<Longrightarrow> consumes (primary_filter nested)"
  unfolding consumes_def primary_filter_def
  by (fastforce split: option.splits prod.splits dest!: shorter dest: has_prefix_shorter attribute_filter_shorter)

lemma unary_consumes: "consumes nested \<Longrightarrow> consumes (unary_filter nested)"
proof -
  assume nested: "consumes nested"
  have "unary_filter nested ts = Some (f, rest) \<Longrightarrow> length rest < length ts" for ts f rest
  proof (induction ts arbitrary: f)
    case Nil
    then show ?case using primary_consumes [OF nested] unfolding consumes_def unary_filter.simps by blast
  next
    case (Cons t ts)
    then show ?case using primary_consumes [OF nested] unfolding consumes_def
      by (fastforce split: if_splits)
  qed
  then show ?thesis by (simp add: consumes_def)
qed

lemma loop_shorter:
  "consumes operand \<Longrightarrow> operand_loop w c operand n left ts = Some (f, rest) \<Longrightarrow> length rest \<le> length ts"
proof (induction n arbitrary: left ts)
  case (Suc n)
  show ?case
  proof (cases "keyword w ts")
    case None
    then show ?thesis using Suc.prems by simp
  next
    case (Some ts1)
    then obtain right ts2 where op: "operand ts1 = Some (right, ts2)"
      and more: "operand_loop w c operand n (c left right) ts2 = Some (f, rest)"
      using Suc.prems by (auto split: option.splits)
    have "length ts2 < length ts1" using Suc.prems(1) op unfolding consumes_def by blast
    then show ?thesis using Suc.IH [OF Suc.prems(1) more] keyword_shorter [OF Some] by simp
  qed
qed simp

lemma operands_consumes:
  assumes "consumes operand"
  shows "consumes (operands w c operand)"
proof -
  have "length rest < length ts" if parsed: "operands w c operand ts = Some (f, rest)" for ts f rest
  proof -
    obtain left ts1 where first: "operand ts = Some (left, ts1)"
      and more: "operand_loop w c operand (Suc (length ts1)) left ts1 = Some (f, rest)"
      using parsed by (auto simp: operands_def simp del: operand_loop.simps split: option.splits)
    have "length ts1 < length ts" using assms first unfolding consumes_def by blast
    then show ?thesis using loop_shorter [OF assms more] by simp
  qed
  then show ?thesis by (simp add: consumes_def)
qed

lemma or_consumes: "consumes (or_filter n)"
proof (induction n)
  case (Suc n)
  have "consumes (and_filter (or_filter n))"
    unfolding and_filter_def by (intro operands_consumes unary_consumes Suc)
  moreover have "or_filter (Suc n) = operands ''OR'' Or (and_filter (or_filter n))" by (simp add: fun_eq_iff)
  ultimately show ?case by (simp only: operands_consumes)
qed (simp add: consumes_def)

section \<open>The fuel is enough\<close>

definition same_below :: "nat \<Rightarrow> Parser \<Rightarrow> Parser \<Rightarrow> bool" where
  "same_below n p q = (\<forall>ts. length ts < n \<longrightarrow> p ts = q ts)"

lemma primary_same: "same_below n p q \<Longrightarrow> same_below (Suc n) (primary_filter p) (primary_filter q)"
  by (auto simp: same_below_def primary_filter_def split: option.split dest!: symbol_shorter)

lemma unary_same: "same_below n p q \<Longrightarrow> same_below (Suc n) (unary_filter p) (unary_filter q)"
proof -
  assume "same_below n p q"
  note primary = primary_same [OF this, unfolded same_below_def, rule_format]
  have "length ts < Suc n \<Longrightarrow> unary_filter p ts = unary_filter q ts" for ts
    by (induction ts) (auto simp: primary)
  then show ?thesis by (simp add: same_below_def)
qed

lemma loop_same:
  assumes "same_below n p q" "consumes q"
  shows "length ts < n \<Longrightarrow> length ts < k \<Longrightarrow> length ts < m \<Longrightarrow> operand_loop w c p k left ts = operand_loop w c q m left ts"
proof (induction k arbitrary: left ts m)
  case (Suc k)
  then obtain m' where m: "m = Suc m'" by (cases m) auto
  show ?case
  proof (cases "keyword w ts")
    case (Some ts1)
    note len = keyword_shorter [OF Some]
    have pq: "p ts1 = q ts1" using assms(1) Suc.prems(1) len by (simp add: same_below_def)
    show ?thesis
    proof (cases "q ts1")
      case (Some r)
      obtain f ts2 where r: "r = (f, ts2)" by (cases r)
      then have "length ts2 < length ts1" using assms(2) Some unfolding consumes_def by blast
      then have "operand_loop w c p k (c left f) ts2 = operand_loop w c q m' (c left f) ts2"
        using Suc.prems len m by (intro Suc.IH) auto
      then show ?thesis using \<open>keyword w ts = Some ts1\<close> pq Some r m by simp
    qed (simp add: Some pq m)
  qed (simp add: m)
qed simp

lemma operands_same:
  assumes "same_below n p q" "consumes q"
  shows "same_below n (operands w c p) (operands w c q)"
  unfolding same_below_def
proof (intro allI impI)
  fix ts :: "Token list" assume ts: "length ts < n"
  have pq: "p ts = q ts" using assms(1) ts by (simp add: same_below_def)
  show "operands w c p ts = operands w c q ts"
  proof (cases "q ts")
    case (Some r)
    obtain f rest where r: "r = (f, rest)" by (cases r)
    then have "length rest < length ts" using assms(2) Some unfolding consumes_def by blast
    then have "operand_loop w c p (Suc (length rest)) f rest = operand_loop w c q (Suc (length rest)) f rest"
      using ts by (intro loop_same [OF assms]) auto
    then show ?thesis using Some r pq by (simp add: operands_def del: operand_loop.simps)
  qed (simp add: operands_def pq)
qed

text \<open>
  The loop over operands gives the same result with any larger fuel, and so does the nesting:
  \<open>parse_filter\<close> starts with more fuel than there are tokens.
\<close>

lemma operand_loop_fuel:
  assumes "consumes operand" "length ts < k" "length ts < m"
  shows "operand_loop w c operand k left ts = operand_loop w c operand m left ts"
  by (rule loop_same [OF _ assms(1), of "Suc (length ts)"]) (use assms in \<open>auto simp: same_below_def\<close>)

lemma or_filter_fuel: "same_below n (or_filter n) (or_filter (n + d))"
proof (induction n)
  case (Suc n)
  have "same_below (Suc n) (and_filter (or_filter n)) (and_filter (or_filter (n + d)))"
    unfolding and_filter_def by (intro operands_same unary_same Suc unary_consumes or_consumes)
  then have "same_below (Suc n) (operands ''OR'' Or (and_filter (or_filter n)))
      (operands ''OR'' Or (and_filter (or_filter (n + d))))"
    by (rule operands_same) (auto simp: and_filter_def intro: operands_consumes unary_consumes or_consumes)
  then show ?case by (simp add: same_below_def)
qed (simp add: same_below_def)

end
