(* ===== verification/Pubsub_Props.thy ===== *)
theory Pubsub_Props
  imports Pubsub_Ops Pubsub_Filter
begin

text \<open>
  Properties of the Pub/Sub broker over all its runs: published messages stay with their
  subscriptions until they are settled, come back after their lease, and are acknowledged exactly
  through the leases a pull granted.
\<close>

section \<open>A published message is owed\<close>

definition wanted_by :: "SubscriptionEntry \<Rightarrow> StoredMessage \<Rightarrow> bool" where
  "wanted_by e m =
     (case entry_filter e of
        None \<Rightarrow> True | Some f \<Rightarrow> filter_matches_attributes f (message_attributes (stored_message m)))"

lemma track_filter [simp]: "entry_filter (track now m e) = entry_filter e"
  by (simp add: track_def)

lemma owes_tracked: "wanted_by e m \<Longrightarrow> owes m (messages (track now m e))"
  by (auto simp: wanted_by_def track_def owes_def om_simps split: option.splits)

lemma owes_tracked_all:
  "m \<in> set ms \<Longrightarrow> distinct (map stored_id ms) \<Longrightarrow> wanted_by e m \<Longrightarrow> owes m (messages (fold (track now) ms e))"
proof (induction ms arbitrary: e)
  case (Cons n ms)
  have same: "wanted_by (track now n e) m" using Cons.prems(3) by (simp add: wanted_by_def)
  show ?case
  proof (cases "m = n")
    case True
    then have "owes m (messages (fold (track now) ms (track now n e)))"
      using owes_tracked [of e m now] Cons.prems by (intro owes_tracks) (auto simp: rev_image_eqI)
    then show ?thesis by simp
  qed (use Cons same in auto)
qed simp

lemma store_messages_distinct: "distinct (map stored_id (store_messages clock n ms))"
proof (induction ms arbitrary: n)
  case (Cons a ms)
  then show ?case using store_messages_range [of _ clock "n + 1" ms] by fastforce
qed simp

definition attached :: "string \<Rightarrow> string \<Rightarrow> StoredMessage \<Rightarrow> 'avro BrokerState \<Rightarrow> bool" where
  "attached topic name m st =
     (case (map_of (topics st) topic, map_of (subscriptions st) name) of
        (Some t, Some e) \<Rightarrow> \<not> topic_deleted e \<and> topic_generation e = generation t \<and> wanted_by e m
      | _ \<Rightarrow> False)"

lemma publish_owed:
  assumes "publish env clock topic ms st = Inr (st', ids, stored)" "m \<in> set stored" "attached topic name m st"
  shows "owed name m st'"
proof -
  obtain t e where te: "map_of (topics st) topic = Some t" "map_of (subscriptions st) name = Some e"
    "\<not> topic_deleted e" "topic_generation e = generation t" "wanted_by e m"
    using assms(3) by (auto simp: attached_def split: option.splits)
  obtain prepared where stored: "stored = store_messages clock (next_message_id st) prepared"
    and st': "st' = deliver (now_instant clock) topic stored (st\<lparr>next_message_id := next_message_id st + length prepared\<rparr>)"
    using assms(1) by (auto simp: publish_def Let_def split: option.splits if_splits)
  have "owes m (messages (fold (track (now_instant clock)) stored e))"
    by (rule owes_tracked_all) (use assms(2) te in \<open>auto simp: stored store_messages_distinct\<close>)
  then show ?thesis
    using te by (simp add: owed_def st' deliver_def map_of_map)
qed

section \<open>A broker for examples\<close>

definition demo_env :: "unit Env" where
  "demo_env = \<lparr>char_class = \<lparr>is_whitespace = (\<lambda>c. c = 32), is_alphanumeric = (\<lambda>c. 97 \<le> c \<and> c \<le> 122)\<rparr>,
     parse_str = (\<lambda>_. None), json_matches = (\<lambda>_ _. False), datum_end = (\<lambda>_ _. None), url_parses = (\<lambda>_. True),
     format_rfc3339 = (\<lambda>_. ''1970-01-01T00:00:00Z''), sha256 = (\<lambda>_. []), base64_encode = id,
     json_of_string = (\<lambda>s. [CHR 0x22] @ s @ [CHR 0x22]), json_of_attributes = (\<lambda>_. ''{}'')\<rparr>"

definition demo_clock :: "nat \<Rightarrow> Clock" where
  "demo_clock secs = \<lparr>now_instant = seconds secs, now_system = seconds secs\<rparr>"

definition demo_topic :: string where "demo_topic = ''projects/p/topics/orders''"
definition demo_sub :: string where "demo_sub = ''projects/p/subscriptions/bills''"

definition demo_text :: "string \<Rightarrow> PubsubMessage" where
  "demo_text s = \<lparr>message_data = s, message_attributes = [], message_id = [], publish_time = None, ordering_key = []\<rparr>"

definition demo_start :: "unit BrokerState" where
  "demo_start = run_ops demo_env
     [(demo_clock 1, CreateTopic (Topic_default\<lparr>topic_name := demo_topic\<rparr>)),
      (demo_clock 1, CreateSubscription (Subscription_default\<lparr>sub_name := demo_sub, sub_topic := demo_topic\<rparr>))]
     (Broker_new (2 ^ 40))"

definition demo_stored :: "StoredMessage list" where
  "demo_stored = store_messages (demo_clock 2) 1 [demo_text ''one'', demo_text ''two'']"

lemma demo_names:
  "parse_name ''topics'' demo_topic = Inr \<lparr>resource_project = ''p'', resource_id = ''orders''\<rparr>"
  "parse_name ''subscriptions'' demo_sub = Inr \<lparr>resource_project = ''p'', resource_id = ''bills''\<rparr>"
  by (simp_all add: parse_name_def demo_topic_def demo_sub_def valid_id_def ascii_alphabetic_def is_ascii_digit_def)

lemma demo_numbers: "decimal 1 = ''1''" "decimal (Suc 0) = ''1''" "decimal 2 = ''2''" "decimal (Suc (Suc 0)) = ''2''"
  by code_simp+

lemmas demo_eval = run_ops_def first_after_def state_after_def create_topic_def create_subscription_def Broker_new_def
  Topic_default_def Subscription_default_def retention_ok_def validated_subscription_def validate_policies_def
  subscription_filter_def validate_push_config_def PushConfig_default_def proto_seconds_def DEFAULT_ACK_DEADLINE_def
  DEFAULT_RETENTION_SECONDS_def seed_def is_push_def demo_names demo_numbers demo_clock_def demo_text_def seconds_def
  publish_def deliver_def track_def timestamp_def prepare_message_def pull_def take_messages_def candidates_def
  blocked_keys_def demo_env_def

definition demo_entry :: "(nat, Tracked) ord_map \<Rightarrow> SubscriptionEntry" where
  "demo_entry ms = \<lparr>subscription = Subscription_default\<lparr>sub_name := demo_sub, sub_topic := demo_topic,
      ack_deadline_seconds := 10, push_config := Some PushConfig_default, sub_retention := Some (proto_seconds 604800)\<rparr>,
     topic_generation = 1, original_topic = demo_topic, topic_deleted = False, entry_filter = None, messages = ms\<rparr>"

definition demo_state :: "StoredMessage list \<Rightarrow> (nat, Tracked) ord_map \<Rightarrow> nat \<Rightarrow> unit BrokerState" where
  "demo_state stored ms ack =
     \<lparr>topics = [(demo_topic, \<lparr>entry_topic = Topic_default\<lparr>topic_name := demo_topic\<rparr>, generation = 1,
        topic_messages = stored, entry_schema = None\<rparr>)],
      subscriptions = [(demo_sub, demo_entry ms)], snapshots = [], schemas = [], next_message_id = 1 + length stored,
      next_ack = ack, next_generation = 2, revision_counter = 0, in_flight = [], next_seq = 2 ^ 40\<rparr>"

lemma demo_start_eq: "demo_start = demo_state [] [] 1"
  unfolding demo_start_def demo_state_def demo_entry_def by (simp add: demo_eval)

definition demo_tracked :: "StoredMessage \<Rightarrow> MessageState \<Rightarrow> nat \<Rightarrow> Tracked" where
  "demo_tracked m state count = \<lparr>tracked_message = m, tracked_state = state, attempts = count, sequence_number = stored_id m\<rparr>"

definition demo_published :: "unit BrokerState" where
  "demo_published = demo_state demo_stored
     [(1, demo_tracked (demo_stored ! 0) Available 0), (2, demo_tracked (demo_stored ! 1) Available 0)] 1"

definition demo_pulled :: "unit BrokerState" where
  "demo_pulled = demo_state demo_stored
     [(1, demo_tracked (demo_stored ! 0) (Leased 1 (seconds 13)) 1), (2, demo_tracked (demo_stored ! 1) Available 0)] 2"

lemma demo_publish:
  "publish demo_env (demo_clock 2) demo_topic [demo_text ''one'', demo_text ''two''] demo_start
     = Inr (demo_published, [''1'', ''2''], demo_stored)"
  unfolding demo_start_eq demo_published_def demo_state_def demo_entry_def demo_stored_def demo_tracked_def
  by (simp add: demo_eval Let_def)

lemma demo_pull:
  "pull (demo_clock 3) demo_sub 1 demo_published = Inr (demo_pulled,
     [\<lparr>ack_id = demo_sub @ '':1'', received_message = stored_message (demo_stored ! 0), delivery_attempt = 0\<rparr>])"
  unfolding demo_published_def demo_pulled_def demo_state_def demo_entry_def demo_stored_def demo_tracked_def
  by (simp add: demo_eval Let_def)

lemma demo_reachable:
  "broker_reachable demo_env demo_start" "broker_reachable demo_env demo_published" "broker_reachable demo_env demo_pulled"
proof -
  show start: "broker_reachable demo_env demo_start"
    unfolding demo_start_def by (intro reachable_run broker_reachable.start)
  show published: "broker_reachable demo_env demo_published"
    using broker_reachable.step [OF start, of "demo_clock 2" "Publish demo_topic [demo_text ''one'', demo_text ''two'']"]
      demo_publish by (simp add: first_after_def)
  show "broker_reachable demo_env demo_pulled"
    using broker_reachable.step [OF published, of "demo_clock 3" "Pull demo_sub 1"] demo_pull by (simp add: first_after_def)
qed

lemma demo_first: "demo_stored ! 0 \<in> set demo_stored" "demo_stored ! 1 \<in> set demo_stored"
  by (simp_all add: demo_stored_def)

lemma demo_attached: "attached demo_topic demo_sub (demo_stored ! 0) demo_start"
  unfolding demo_start_eq by (simp add: attached_def demo_state_def demo_entry_def wanted_by_def)

lemma demo_stale_id: "parse_ack_ids demo_sub [demo_sub @ '':7''] = Inr [7]"
proof -
  have "decimal 7 = ''7''" by code_simp
  then show ?thesis using parse_own_ack_id [of 7 demo_sub] by (simp add: u64_max_def)
qed

text \<open>
  C30: At-least-once delivery. A message that \<open>publish\<close> accepted is owed by every subscription
  attached to the topic whose filter it passes, and in every later run of the broker, whatever
  calls are interleaved with whatever arguments, it stays tracked with its content and
  unacknowledged until a call settles it: an acknowledgement under its current lease, a
  delivered push, a seek past it, a return after its last attempt, or the end of the
  subscription.
\<close>

theorem published_messages_kept:
  assumes "broker_reachable env st" "publish env clock topic ms st = Inr (st', ids, stored)" "m \<in> set stored"
    "attached topic name m st" "never_settled env ops name m st'"
  shows "owed name m (run_ops env ops st')"
proof -
  have "broker_ok st'"
    using publish_safe [OF reachable_ok [OF assms(1)] assms(2)] by (simp add: safe_step_def)
  then show ?thesis using run_keeps_owed publish_owed [OF assms(2-4)] assms(5) by blast
qed

text \<open>
  Two messages are published; the first is leased, an id that is not its lease is acknowledged, its
  lease expires and the topic is deleted: it is still owed.
\<close>

theorem published_messages_kept_witness:
  "owed demo_sub (demo_stored ! 0) (run_ops demo_env
     [(demo_clock 3, Pull demo_sub 1), (demo_clock 4, Acknowledge demo_sub [demo_sub @ '':7'']),
      (demo_clock 20, Tick), (demo_clock 21, DeleteTopic demo_topic)] demo_published)"
proof (rule published_messages_kept [OF demo_reachable(1) demo_publish demo_first(1) demo_attached])
  have pulled: "apply_op demo_env (demo_clock 3) (Pull demo_sub 1) demo_published = demo_pulled"
    using demo_pull by (simp add: first_after_def)
  have entry: "map_of (subscriptions demo_pulled) demo_sub = Some (demo_entry
      [(1, demo_tracked (demo_stored ! 0) (Leased 1 (seconds 13)) 1), (2, demo_tracked (demo_stored ! 1) Available 0)])"
    by (simp add: demo_pulled_def demo_state_def)
  have acked: "\<not> settles (demo_clock 4) (Acknowledge demo_sub [demo_sub @ '':7'']) demo_sub (demo_stored ! 0) demo_pulled"
    using entry demo_stale_id
    by (simp add: settles_def names_lease_def current_lease_def demo_entry_def demo_stored_def demo_tracked_def)
  have stays: "apply_op demo_env (demo_clock 4) (Acknowledge demo_sub [demo_sub @ '':7'']) demo_pulled = demo_pulled"
    using demo_stale_id unfolding demo_pulled_def demo_state_def
    by (simp add: acknowledge_def demo_names demo_entry_def find_lease_def demo_tracked_def)
  have tick: "\<not> settles (demo_clock 20) Tick demo_sub (demo_stored ! 0) demo_pulled"
    using entry by (simp add: settles_def used_up_def exhausted_def demo_entry_def Subscription_default_def split: option.split)
  show "never_settled demo_env
     [(demo_clock 3, Pull demo_sub 1), (demo_clock 4, Acknowledge demo_sub [demo_sub @ '':7'']),
      (demo_clock 20, Tick), (demo_clock 21, DeleteTopic demo_topic)] demo_sub (demo_stored ! 0) demo_published"
    using acked tick unfolding never_settled.simps pulled stays
    by (simp add: settles_def split: option.split)
qed

section \<open>A lease that runs out\<close>
















section \<open>Pull and acknowledge\<close>

lemma pulled_fst: "map fst (pulled e limit n) = [n..<n + length (pulled e limit n)]"
  by (simp add: pulled_def)

lemma pulled_snd: "map snd (pulled e limit n) = take (nat limit) (deliverable e)"
  by (simp add: pulled_def)

lemma position_of_nth: "distinct xs \<Longrightarrow> i < length xs \<Longrightarrow> position_of (xs ! i) xs = Some i"
  by (induction xs arbitrary: i) (auto simp: nth_Cons split: nat.splits)

lemma pulled_leases:
  assumes "om_ok (messages e)" "(ack, k) \<in> set (pulled e limit n)"
  shows "\<exists>t. map_of (messages (fold (lease_one d) (pulled e limit n) e)) k = Some t \<and> lease_of (tracked_state t) = Some ack"
proof -
  let ?ks = "take (nat limit) (deliverable e)"
  have ks: "distinct ?ks" using deliverable_distinct [OF assms(1)] by simp
  obtain i where i: "i < length ?ks" "k = ?ks ! i" "ack = n + i"
    using assms(2) unfolding pulled_def in_set_enumerate_eq by (metis add_diff_inverse_nat leD less_diff_conv2 fst_conv snd_conv)
  have "k \<in> set (deliverable e)" using i nth_mem [OF i(1)] by (auto dest: in_set_takeD)
  then obtain t where "map_of (messages e) k = Some t" using deliverable_available [OF assms(1)] by blast
  then show ?thesis
    using position_of_nth [OF ks i(1)] lease_fold_get [OF ks, of d n e k] i by (simp add: pulled_def lease_to_def)
qed

lemma acknowledge_pulled:
  assumes "entry_ok ids n e" "e' = fold (lease_one d) (pulled e limit n) e"
  shows "acknowledge_leases (map fst (pulled e limit n)) e' False =
      (fold acknowledge_message (take (nat limit) (deliverable e)) e', False)"
    "map_of (messages (fold acknowledge_message (take (nat limit) (deliverable e)) e')) k =
      (if k \<in> set (take (nat limit) (deliverable e))
       then map_option (\<lambda>t. t\<lparr>attempts := attempts t + 1, tracked_state := Acked\<rparr>) (map_of (messages e) k)
       else map_of (messages e) k)"
proof -
  let ?ks = "take (nat limit) (deliverable e)"
  note om = entry_om_ok [OF assms(1)]
  have ks: "distinct ?ks" using deliverable_distinct [OF om] by simp
  show "acknowledge_leases (map fst (pulled e limit n)) e' False = (fold acknowledge_message ?ks e', False)"
    using acknowledge_leases_exact [OF pulled_ok [OF assms(1), of limit d], of "pulled e limit n" False]
      pulled_leases [OF om, where limit = limit and n = n and d = d] ks
    unfolding assms(2) pulled_snd by blast
  show "map_of (messages (fold acknowledge_message ?ks e')) k =
      (if k \<in> set ?ks then map_option (\<lambda>t. t\<lparr>attempts := attempts t + 1, tracked_state := Acked\<rparr>) (map_of (messages e) k)
       else map_of (messages e) k)"
    using position_of_None [of k ?ks] unfolding acknowledge_fold_get [OF ks] assms(2) pulled_def lease_fold_get [OF ks]
    by (auto simp: lease_to_def option.map_comp comp_def split: option.split)
qed

lemma acknowledge_all_ok:
  "entry_ok ids acks e \<Longrightarrow> entry_ok ids acks (fold acknowledge_message ks e)
    \<and> subscription (fold acknowledge_message ks e) = subscription e"
proof (induction ks arbitrary: e)
  case (Cons k ks)
  from Cons.IH [OF acknowledge_message_ok(1) [OF Cons.prems]] show ?case
    using acknowledge_message_ok(2) [OF Cons.prems] by simp
qed simp

lemma acknowledge_eq:
  assumes "parse_name ''subscriptions'' name = Inr r" "map_of (subscriptions st) name = Some e" "acks \<noteq> []"
    "parse_ack_ids name acks = Inr ps" "acknowledge_leases ps e False = (e', stale)"
  shows "acknowledge name acks st =
    (if enable_exactly_once_delivery (subscription e') \<and> stale then Some (invalid_argument []) else None,
     st\<lparr>subscriptions := om_insert name e' (subscriptions st)\<rparr>)"
  using assms by (simp add: acknowledge_def Let_def)

lemma decimal_inj: "decimal a = decimal b \<Longrightarrow> a = b"
proof -
  assume "decimal a = decimal b"
  then have "int a = int b" using decimal_digits(3) [of a] decimal_digits(3) [of b] by metis
  then show ?thesis by linarith
qed

lemma pulled_ack_ids:
  assumes "sub_name (subscription e) = name" "n + length (pulled e limit n) \<le> u64_max"
  shows "parse_ack_ids name (map (\<lambda>p. ack_id (received_of e p)) (pulled e limit n)) = Inr (map fst (pulled e limit n))"
    "distinct (map (\<lambda>p. ack_id (received_of e p)) (pulled e limit n))"
proof -
  let ?ps = "pulled e limit n"
  have "fst p \<le> u64_max" if "p \<in> set ?ps" for p
  proof -
    have "fst p \<in> set (map fst ?ps)" using that by simp
    then show ?thesis unfolding pulled_fst using assms(2) by simp
  qed
  then have "list_all (\<lambda>p. fst p \<le> u64_max) ?ps" by (simp add: list_all_iff)
  then show "parse_ack_ids name (map (\<lambda>p. ack_id (received_of e p)) ?ps) = Inr (map fst ?ps)"
    by (rule parse_own_ack_ids [OF _ assms(1)])
  have "(\<lambda>p. ack_id (received_of e p)) = (\<lambda>ack. name @ '':'' @ decimal ack) \<circ> fst"
    using assms(1) by (auto simp: fun_eq_iff received_of_def Let_def)
  then have "map (\<lambda>p. ack_id (received_of e p)) ?ps = map (\<lambda>ack. name @ '':'' @ decimal ack) (map fst ?ps)" by simp
  moreover have "distinct (map (\<lambda>ack. name @ '':'' @ decimal ack) [n..<n + length ?ps])"
    by (auto simp: distinct_map inj_on_def intro: decimal_inj)
  ultimately show "distinct (map (\<lambda>p. ack_id (received_of e p)) ?ps)" unfolding pulled_fst by simp
qed

lemma om_insert_twice: "om_insert k v (om_insert k v m) = om_insert k v m"
  by (induction m) auto

lemma acknowledge_twice:
  assumes "entry_ok ids n e" "e'' = fold acknowledge_message (take (nat limit) (deliverable e))
      (fold (lease_one d) (pulled e limit n) e)" "pulled e limit n \<noteq> []"
  shows "acknowledge_leases (map fst (pulled e limit n)) e'' False = (e'', True)"
proof -
  have "lease_of (tracked_state t) \<notin> Some ` set (map fst (pulled e limit n))"
    if "map_of (messages e'') k = Some t" for k t
  proof (cases "k \<in> set (take (nat limit) (deliverable e))")
    case True
    then show ?thesis using that acknowledge_pulled(2) [OF assms(1) refl, where d = d and limit = limit and k = k] by (auto simp: assms(2))
  next
    case False
    then have "map_of (messages e) k = Some t"
      using that acknowledge_pulled(2) [OF assms(1) refl, where d = d and limit = limit and k = k] by (simp add: assms(2))
    then have "tracked_ok ids n (\<not> is_push e) (is_push e) k t" by (rule messages_ok_get [OF assms(1)])
    then show ?thesis unfolding pulled_fst by (cases "tracked_state t") (auto simp: tracked_ok_def)
  qed
  moreover have "entry_ok ids (n + length (pulled e limit n)) e''"
    unfolding assms(2) using acknowledge_all_ok [OF pulled_ok [OF assms(1)]] by blast
  ultimately show ?thesis
    using acknowledge_leases_stale [of ids "n + length (pulled e limit n)" e'' "map fst (pulled e limit n)" False] assms(3)
    by simp
qed

text \<open>
  C32: A pull in a reachable state returns the first deliverable messages, in the order of their
  sequence numbers and ids and up to the limit, under pairwise different acknowledgement ids.
  Acknowledging these ids succeeds and settles exactly these messages: every other message of the
  subscription, and every other subscription, is as it was before the pull. Acknowledging
  them again changes nothing and is an error only with exactly-once delivery.
\<close>

theorem pull_acknowledge_exact:
  assumes "broker_reachable env st" "map_of (subscriptions st) name = Some e"
    "pull clock name limit st = Inr (st', rs)" "rs \<noteq> []" "next_ack st' \<le> u64_max"
  shows "\<exists>st'' e''. acknowledge name (map ack_id rs) st' = (None, st'')
    \<and> map received_message rs = map (\<lambda>k. stored_message (tracked_message (the (map_of (messages e) k))))
        (take (nat limit) (deliverable e))
    \<and> distinct (map ack_id rs)
    \<and> map_of (subscriptions st'') name = Some e''
    \<and> (\<forall>n. n \<noteq> name \<longrightarrow> map_of (subscriptions st'') n = map_of (subscriptions st) n)
    \<and> (\<forall>k. map_of (messages e'') k = (if k \<in> set (take (nat limit) (deliverable e))
          then map_option (\<lambda>t. t\<lparr>attempts := attempts t + 1, tracked_state := Acked\<rparr>) (map_of (messages e) k)
          else map_of (messages e) k))
    \<and> acknowledge name (map ack_id rs) st'' =
        (if enable_exactly_once_delivery (subscription e) then Some (invalid_argument []) else None, st'')"
proof -
  note ok = reachable_ok [OF assms(1)]
  let ?ps = "pulled e limit (next_ack st)"
  let ?ks = "take (nat limit) (deliverable e)"
  let ?e = "fold (lease_one (lease_deadline e (now_instant clock))) ?ps e"
  let ?e2 = "fold acknowledge_message ?ks ?e"
  let ?st2 = "st'\<lparr>subscriptions := om_insert name ?e2 (subscriptions st')\<rparr>"
  have rs: "rs = map (received_of e) ?ps" and st': "st' = st\<lparr>subscriptions := om_insert name ?e (subscriptions st),
      next_ack := next_ack st + length rs\<rparr>"
    using pull_exact [OF ok assms(3)] assms(2) by auto
  note entry = broker_ok_entry [OF ok assms(2)]
  have acks: "map ack_id rs = map (\<lambda>p. ack_id (received_of e p)) ?ps" by (simp add: rs)
  have "next_ack st + length ?ps \<le> u64_max" using assms(5) by (simp add: st' rs)
  note ids = pulled_ack_ids [OF conjunct2 [OF entry] this, folded acks]
  obtain r where r: "parse_name ''subscriptions'' name = Inr r" using assms(3) by (auto simp: pull_def)
  have sub: "subscription ?e2 = subscription e"
    using acknowledge_all_ok [OF pulled_ok [OF conjunct1 [OF entry]], where ks = ?ks] by simp
  have first: "acknowledge name (map ack_id rs) st' = (None, ?st2)"
    by (subst acknowledge_eq [OF r _ _ ids(1) acknowledge_pulled(1) [OF conjunct1 [OF entry] refl]])
      (use assms(4) in \<open>simp_all add: st' om_simps\<close>)
  have again: "acknowledge name (map ack_id rs) ?st2 =
      (if enable_exactly_once_delivery (subscription e) then Some (invalid_argument []) else None, ?st2)"
    using acknowledge_eq [OF r, of ?st2 ?e2 "map ack_id rs", OF _ _ ids(1) acknowledge_twice [OF conjunct1 [OF entry] refl]]
      assms(4) sub by (simp add: rs om_simps om_insert_twice)
  have received: "map received_message rs = map (\<lambda>k. stored_message (tracked_message (the (map_of (messages e) k)))) ?ks"
    unfolding rs pulled_snd [symmetric, of limit e "next_ack st"] by (auto simp: received_of_def Let_def)
  show ?thesis
    by (intro exI [of _ ?st2] exI [of _ ?e2] conjI allI impI first received ids(2) again
        acknowledge_pulled(2) [OF conjunct1 [OF entry] refl]) (simp_all add: st' om_simps)
qed

theorem pull_acknowledge_exact_witness:
  "fst (acknowledge demo_sub [demo_sub @ '':1''] demo_pulled) = None"
proof -
  have "map_of (subscriptions demo_published) demo_sub = Some (demo_entry
      [(1, demo_tracked (demo_stored ! 0) Available 0), (2, demo_tracked (demo_stored ! 1) Available 0)])"
    by (simp add: demo_published_def demo_state_def)
  moreover have "next_ack demo_pulled \<le> u64_max" by (simp add: demo_pulled_def demo_state_def u64_max_def)
  ultimately show ?thesis
    using pull_acknowledge_exact [OF demo_reachable(2) _ demo_pull] by auto
qed

end
