(* ===== verification/Spec2Isabelle.thy ===== *)
theory Spec2Isabelle
  imports Data_Props Store_Props Query_Props Watch_Props Leveldb_Log_Props Task_Live Pubsub_Props
begin

text \<open>
  A verification development for the Firenook emulator suite (crates under \<open>src/crates\<close>).

  \<^bold>\<open>The program.\<close> \<open>core-store\<close> is a multi-version document store: a commit validates a list of
  writes against the current documents, stamps the results with a strictly increasing commit
  time, and installs them together with two scope indexes and a bounded log of changes, from
  which historical snapshots and listener replays are served. \<open>query-engine\<close> orders, filters and
  pages the documents of a snapshot; \<open>watch-broker\<close> keeps the view of a query or of a set of
  documents current as commits arrive; \<open>export-format\<close> writes and reads the logs of an export.
  \<open>tasks-front\<close> queues tasks and dispatches them under a rate and a retry ladder; \<open>pubsub-front\<close>
  is a message broker with leases, pushes, seeking and schemas. The other crates translate wire
  protocols to these, or supervise processes.

  \<^bold>\<open>Shared vocabulary.\<close>
  \<^item> \<open>Prelude\<close>: orderings and the \<open>comparator\<close> contract, saturating arithmetic, results and \<open>str\<close>
    splitting. \<open>Text\<close>: decimal numbers, UTF-8 characters.
  \<^item> \<open>Ord_Map\<close>: \<open>BTreeMap\<close> and \<open>OrdMap\<close> as ordered association lists, the \<open>assignable_map\<close>
    interface with redo and undo of transitions, secondary indexes.
  \<^item> \<open>Sort_By\<close>, \<open>Bounded_Select\<close>: the stable \<open>slice::sort_by\<close>, \<open>binary_search_by\<close> and the selection of
    the first elements in bounded memory.
  \<^item> \<open>F64\<close>: IEEE doubles as 64-bit words with their exact values.

  \<^bold>\<open>Store\<close> (\<open>core-store/src/lib.rs\<close>). \<open>Names\<close>, \<open>Values\<close> and \<open>Writes\<close> hold the data and \<open>apply_write\<close>;
  \<open>Store\<close> the record \<open>State\<close> and the steps of a commit; \<open>Store_Log\<close> the bounds of the change log;
  \<open>Store_History\<close> what the log and the indexes mean over every run of commits; \<open>Snapshots\<close> the
  readers. \<open>Data_Props\<close> shows the laws of field paths, transforms and orders and that writes keep
  documents well-formed; \<open>Store_Props\<close> that snapshots by revision and by time, replays, indexes
  and previews are exact and that every commit returns within its limits.

  \<^bold>\<open>Queries\<close> (\<open>query-engine/src/lib.rs\<close>, \<open>query.rs\<close>). \<open>Compare\<close> is the order of values, \<open>Query\<close> the
  builder, filters, cursors and executions. \<open>Query_Facts\<close>, \<open>Query_Exec\<close>, \<open>Query_Paging\<close> and
  \<open>Query_Fields\<close> relate each execution to one reference result, pages to that result, and the
  syntax and projections to the fields; \<open>Query_Props\<close> states it.

  \<^bold>\<open>Listen targets\<close> (\<open>watch-broker/src/lib.rs\<close>, \<open>watch_document.rs\<close>). \<open>Watch\<close> has the views and the
  refresh; \<open>Watch_Props\<close> shows that a batch brings a client to the new view and that a skipped
  evaluation was not needed, in every run of the store.

  \<^bold>\<open>Export logs\<close> (\<open>export-format/src/leveldb_log.rs\<close>). \<open>Leveldb_Log\<close> has the reader and the writer,
  \<open>Leveldb_Log_Props\<close> the round trip, the safety of truncated logs and the memory bound.

  \<^bold>\<open>Task queues\<close> (\<open>tasks-front/src/queue.rs\<close>, \<open>runtime.rs\<close>). \<open>Task_Queue\<close> has a queue with its token
  bucket, slots and retries and the tick over all queues; \<open>Task_Facts\<close> and \<open>Task_Numbers\<close> its
  invariants and its rounded arithmetic; \<open>Task_Props\<close> order, single flight and unique names;
  \<open>Task_Live\<close> that a queue becomes idle.

  \<^bold>\<open>Pub/Sub\<close> (\<open>pubsub-front/src/broker.rs\<close>, \<open>names.rs\<close>, \<open>filter.rs\<close>, \<open>error.rs\<close>, \<open>avro.rs\<close>).
  \<open>Pubsub_Names\<close> has errors, names and filters, \<open>Pubsub_Broker\<close> the state and every call. \<open>Pubsub_Run\<close>
  makes the calls one step relation and defines the invariant \<open>broker_ok\<close>; \<open>Pubsub_Lease\<close>
  describes pulls and acknowledgements exactly; \<open>Pubsub_Steps\<close> defines which calls settle a
  message, and \<open>Pubsub_Ops\<close> shows call by call that the invariant and every other owed message
  are kept. \<open>Pubsub_Props\<close> shows at-least-once delivery, redelivery after a lease, and that
  acknowledging a pull settles exactly what it returned.

  \<^bold>\<open>Bounds and fuel.\<close> \<open>u64\<close> counters that would need more than \<open>2\<^sup>3\<^sup>2\<close> events to wrap are natural
  numbers; where the code saturates or checks, the bound is written out. Loops are structural
  or carry a termination proof, with three exceptions. The eviction loop of a commit is a
  partial function, and it is shown to return. The filter parser has fuel for its nesting and
  its operands; \<open>Pubsub_Filter\<close> shows that more fuel than tokens, which it starts with, never
  changes the result. The rounds of a task queue are counted, and enough of them are shown to
  drain it.

  \<^bold>\<open>Parameters.\<close> Code outside \<open>src\<close> is an argument: CRC-32C and the \<open>Read\<close> and \<open>Write\<close> instances of
  logs, the byte encoding of compact documents, Avro, SHA-256, base64, JSON text, URLs and date
  formatting of the broker, and the Unicode tables of filters. So are \<open>powf\<close> and \<open>hypot\<close>, whose
  precision the standard library leaves open. Clocks are arguments of the calls that read them.

  \<^bold>\<open>Not modelled.\<close> The disk store and lazily decoded documents, which are I/O and codecs of the
  \<open>redb\<close> and \<open>bincode\<close> libraries; the strict index catalog, which only refuses queries; entities,
  metadata and directories of exports; the match of JSON against an Avro schema, which walks the
  schema tree of a library; the HTTP, gRPC and WebChannel front ends, whose handlers translate
  generated message types and call the operations above; the rules engine, the Auth and Storage
  emulators, functions, extensions and the suite with its command line, which are programs of
  their own. Locks are modelled by the granularity of the steps: each call that holds one mutex
  is one step. Wake-ups of waiting readers, logging and the texts of most errors of the store
  are left out.
\<close>

end
